(* ===== verification/BN_Prelude.thy ===== *)
theory BN_Prelude
  imports Main "HOL-Library.Word"
begin

text \<open>
  Shared vocabulary of the development: machine-integer ranges and the
  \<open>try_from\<close> conversions of Rust, the outcome of code that can panic, the
  \<open>?\<close> operator, byte strings (a Rust \<open>&str\<close> is its UTF-8 bytes, one
  \<open>char\<close> of HOL per byte), and decimal text with its round trip.
\<close>

named_theorems range_defs \<open>the machine-integer ranges\<close>
named_theorems text_defs \<open>the definitions of the text primitives\<close>

section \<open>Machine integers\<close>

definition i32_ok :: "int \<Rightarrow> bool" where
  "i32_ok x \<longleftrightarrow> - 2147483648 \<le> x \<and> x \<le> 2147483647"

definition u32_ok :: "int \<Rightarrow> bool" where
  "u32_ok x \<longleftrightarrow> 0 \<le> x \<and> x \<le> 4294967295"

definition i64_ok :: "int \<Rightarrow> bool" where
  "i64_ok x \<longleftrightarrow> - 9223372036854775808 \<le> x \<and> x \<le> 9223372036854775807"

definition u64_ok :: "int \<Rightarrow> bool" where
  "u64_ok x \<longleftrightarrow> 0 \<le> x \<and> x \<le> 18446744073709551615"

definition i128_ok :: "int \<Rightarrow> bool" where
  "i128_ok x \<longleftrightarrow> - (2 ^ 127) \<le> x \<and> x < 2 ^ 127"

lemmas [range_defs] = i32_ok_def u32_ok_def i64_ok_def u64_ok_def i128_ok_def

text \<open>\<open>try_from\<close> into a type with the range predicate \<open>ok\<close>, and the checked
  arithmetic that yields \<open>None\<close> when the exact result does not fit.\<close>

definition try_fit :: "(int \<Rightarrow> bool) \<Rightarrow> int \<Rightarrow> int option" where
  "try_fit ok x = (if ok x then Some x else None)"

lemma try_fit_eq_Some [simp]: "try_fit ok x = Some y \<longleftrightarrow> ok x \<and> y = x"
  by (auto simp: try_fit_def)

lemma try_fit_eq_None [simp]: "try_fit ok x = None \<longleftrightarrow> \<not> ok x"
  by (simp add: try_fit_def)

lemma try_fit_ok [simp]: "ok x \<Longrightarrow> try_fit ok x = Some x"
  by (simp add: try_fit_def)

text \<open>Integer division by a positive constant: the step to the successor and the
  growth, used where the code divides day counts.\<close>

lemma int_div_succ:
  assumes "0 < (k::int)"
  shows "(y + 1) div k = y div k + of_bool (y mod k = k - 1)"
proof (cases "y mod k = k - 1")
  case True
  then have "y + 1 = k * (y div k + 1) + 0"
    by (metis add.commute add_diff_cancel_left' add_diff_eq diff_add_cancel distrib_left
        mult.right_neutral mult_div_mod_eq add.right_neutral)
  with assms have "(y + 1) div k = y div k + 1"
    by (intro int_div_pos_eq) auto
  with True show ?thesis by simp
next
  case False
  have "y + 1 = k * (y div k) + (y mod k + 1)" by simp
  moreover have "y mod k + 1 < k" using False assms pos_mod_bound [of k y] by linarith
  moreover have "0 \<le> y mod k + 1" using assms by (simp add: add_nonneg_pos less_imp_le)
  ultimately have "(y + 1) div k = y div k" by (intro int_div_pos_eq)
  with False show ?thesis by simp
qed

lemma int_mod_succ_zero:
  assumes "0 < (k::int)"
  shows "(y + 1) mod k = 0 \<longleftrightarrow> y mod k = k - 1"
proof -
  have "(y + 1) mod k = (y mod k + 1) mod k" by (simp add: mod_add_left_eq)
  moreover have "0 \<le> y mod k" "y mod k < k" using assms by simp_all
  ultimately show ?thesis by (cases "y mod k + 1 = k") auto
qed

lemma int_div_growth:
  assumes "0 < (k::int)" "a \<le> b"
  shows "b div k - a div k \<le> b - a"
proof -
  have "b \<le> a + k * (b - a)"
    using assms mult_right_mono [of 1 k "b - a"] by simp
  then have "b div k \<le> (a + k * (b - a)) div k"
    using assms by (intro zdiv_mono1)
  also have "\<dots> = a div k + (b - a)"
    using assms by simp
  finally show ?thesis by simp
qed

section \<open>Panics and the question-mark operator\<close>

text \<open>A Rust function that can panic (an index or a slice out of bounds, a
  slice that cuts a character, a failed assertion, an overflowing operation)
  returns an \<open>outcome\<close>.\<close>

datatype 'a outcome = Done 'a | Panic

text \<open>\<open>let x = e?;\<close> in a function returning an \<open>Option\<close>.\<close>

fun try_opt :: "'a option outcome \<Rightarrow> ('a \<Rightarrow> 'b option outcome) \<Rightarrow> 'b option outcome" where
  "try_opt Panic f = Panic"
| "try_opt (Done None) f = Done None"
| "try_opt (Done (Some x)) f = f x"

lemma try_opt_Done_eq:
  "try_opt (Done m) f = (case m of None \<Rightarrow> Done None | Some x \<Rightarrow> f x)"
  by (cases m) simp_all

lemma try_opt_no_panic:
  "m \<noteq> Panic \<Longrightarrow> (\<And>x. m = Done (Some x) \<Longrightarrow> f x \<noteq> Panic) \<Longrightarrow> try_opt m f \<noteq> Panic"
  by (cases "(m, f)" rule: try_opt.cases) auto

lemma try_opt_SomeE:
  assumes "try_opt m f = Done (Some y)"
  obtains x where "m = Done (Some x)" and "f x = Done (Some y)"
  using assms by (cases "(m, f)" rule: try_opt.cases) auto

fun bind_outcome :: "'a outcome \<Rightarrow> ('a \<Rightarrow> 'b outcome) \<Rightarrow> 'b outcome" where
  "bind_outcome Panic f = Panic"
| "bind_outcome (Done x) f = f x"

text \<open>\<open>?\<close> on a \<open>Result\<close>, a check that returns early, and a loop that checks each item.\<close>

fun try_sum :: "'e + 'a \<Rightarrow> ('a \<Rightarrow> 'e + 'b) \<Rightarrow> 'e + 'b" where
  "try_sum (Inl e) f = Inl e"
| "try_sum (Inr x) f = f x"

lemma try_sum_Inr: "try_sum s f = Inr y \<longleftrightarrow> (\<exists>x. s = Inr x \<and> f x = Inr y)"
  by (cases s) auto

lemma try_sum_Inl: "try_sum s f = Inl e \<longleftrightarrow> s = Inl e \<or> (\<exists>x. s = Inr x \<and> f x = Inl e)"
  by (cases s) auto

definition reject_if :: "bool \<Rightarrow> 'e \<Rightarrow> 'e + unit" where
  "reject_if c e = (if c then Inl e else Inr ())"

lemma reject_if_Inr [simp]: "reject_if c e = Inr u \<longleftrightarrow> \<not> c"
  by (simp add: reject_if_def)

fun for_each :: "('a \<Rightarrow> 'e + unit) \<Rightarrow> 'a list \<Rightarrow> 'e + unit" where
  "for_each f [] = Inr ()"
| "for_each f (x # xs) = try_sum (f x) (\<lambda>_. for_each f xs)"

lemma for_each_Inr: "for_each f xs = Inr u \<longleftrightarrow> (\<forall>x \<in> set xs. f x = Inr ())"
  by (induction xs) (auto simp: try_sum_Inr)

section \<open>Lists\<close>

lemma list_all_take [simp]: "list_all P xs \<Longrightarrow> list_all P (take n xs)"
  by (auto simp: list_all_iff dest: in_set_takeD)

lemma list_all_drop [simp]: "list_all P xs \<Longrightarrow> list_all P (drop n xs)"
  by (auto simp: list_all_iff dest: in_set_dropD)

lemma list_all_replicate [simp]: "list_all P (replicate n x) \<longleftrightarrow> n = 0 \<or> P x"
  by (auto simp: list_all_iff)

section \<open>Byte strings\<close>

type_synonym str = string

definition byte :: "char \<Rightarrow> nat" where
  "byte c = of_char c"

definition is_ascii :: "char \<Rightarrow> bool" where
  "is_ascii c \<longleftrightarrow> byte c < 128"

definition is_ascii_digit :: "char \<Rightarrow> bool" where
  "is_ascii_digit c \<longleftrightarrow> 48 \<le> byte c \<and> byte c \<le> 57"

definition is_ascii_alphabetic :: "char \<Rightarrow> bool" where
  "is_ascii_alphabetic c \<longleftrightarrow> (65 \<le> byte c \<and> byte c \<le> 90) \<or> (97 \<le> byte c \<and> byte c \<le> 122)"

text \<open>\<open>str::is_char_boundary\<close>: the start, the end, or a byte that is not a
  UTF-8 continuation byte (\<open>0x80..=0xBF\<close>).\<close>

definition is_char_boundary :: "str \<Rightarrow> nat \<Rightarrow> bool" where
  "is_char_boundary s i \<longleftrightarrow>
     i = 0 \<or> i = length s \<or> i < length s \<and> \<not> (128 \<le> byte (s ! i) \<and> byte (s ! i) < 192)"

text \<open>The byte sequences a \<open>&str\<close> can hold: well-formed UTF-8 (Unicode, table 3-7).\<close>

definition is_continuation :: "char \<Rightarrow> bool" where
  "is_continuation c \<longleftrightarrow> 128 \<le> byte c \<and> byte c < 192"

fun valid_utf8 :: "str \<Rightarrow> bool" where
  "valid_utf8 [] = True"
| "valid_utf8 (a # s) =
     (if byte a < 128 then valid_utf8 s
      else case s of
        [] \<Rightarrow> False
      | b # s2 \<Rightarrow>
          is_continuation b \<and>
          (if 194 \<le> byte a \<and> byte a \<le> 223 then valid_utf8 s2
           else case s2 of
             [] \<Rightarrow> False
           | c # s3 \<Rightarrow>
               is_continuation c \<and>
               (if 224 \<le> byte a \<and> byte a \<le> 239
                then (byte a = 224 \<longrightarrow> 160 \<le> byte b) \<and> (byte a = 237 \<longrightarrow> byte b \<le> 159) \<and> valid_utf8 s3
                else case s3 of
                  [] \<Rightarrow> False
                | d # s4 \<Rightarrow>
                    is_continuation d \<and> 240 \<le> byte a \<and> byte a \<le> 244 \<and>
                    (byte a = 240 \<longrightarrow> 144 \<le> byte b) \<and> (byte a = 244 \<longrightarrow> byte b \<le> 143) \<and>
                    valid_utf8 s4)))"

text \<open>\<open>&s[a..b]\<close>, which panics past the end and inside a character.\<close>

definition str_slice :: "str \<Rightarrow> nat \<Rightarrow> nat \<Rightarrow> str outcome" where
  "str_slice s a b =
     (if a \<le> b \<and> b \<le> length s \<and> is_char_boundary s a \<and> is_char_boundary s b
      then Done (take (b - a) (drop a s)) else Panic)"

definition strip_prefix :: "str \<Rightarrow> str \<Rightarrow> str option" where
  "strip_prefix p s = (if take (length p) s = p then Some (drop (length p) s) else None)"

definition strip_suffix :: "str \<Rightarrow> str \<Rightarrow> str option" where
  "strip_suffix p s =
     (if length p \<le> length s \<and> drop (length s - length p) s = p
      then Some (take (length s - length p) s) else None)"

definition ends_with :: "str \<Rightarrow> str \<Rightarrow> bool" where
  "ends_with p s \<longleftrightarrow> length p \<le> length s \<and> drop (length s - length p) s = p"

lemmas [text_defs] = byte_def is_ascii_def is_ascii_digit_def is_ascii_alphabetic_def
  is_char_boundary_def str_slice_def strip_prefix_def strip_suffix_def ends_with_def

lemma ascii_char_boundary:
  "list_all is_ascii s \<Longrightarrow> i \<le> length s \<Longrightarrow> is_char_boundary s i"
  unfolding is_char_boundary_def is_ascii_def list_all_length
  by (metis le_neq_implies_less leD)

lemma str_slice_at_boundary:
  "a \<le> b \<Longrightarrow> b \<le> length s \<Longrightarrow> is_char_boundary s a \<Longrightarrow> is_char_boundary s b \<Longrightarrow>
   str_slice s a b = Done (take (b - a) (drop a s))"
  by (simp add: str_slice_def)

lemma boundary_at_ascii: "i < length s \<Longrightarrow> is_ascii (s ! i) \<Longrightarrow> is_char_boundary s i"
  by (auto simp: is_char_boundary_def is_ascii_def)

lemma continuation_not_ascii: "is_continuation c \<Longrightarrow> \<not> is_ascii c"
  by (simp add: is_continuation_def is_ascii_def)

lemma ascii_valid_utf8: "list_all is_ascii s \<Longrightarrow> valid_utf8 s"
  by (induction s) (simp_all add: is_ascii_def)

lemma valid_utf8_head: "valid_utf8 (c # s) \<Longrightarrow> \<not> is_continuation c"
  by (auto simp: is_continuation_def split: list.splits if_splits)

text \<open>Well-formed text splits at an ASCII byte into well-formed text.\<close>

lemma valid_utf8_multibyte:
  assumes "valid_utf8 (a # s)" "\<not> byte a < 128"
  obtains k where "k \<le> length s" "list_all is_continuation (take k s)" "valid_utf8 (drop k s)"
proof -
  obtain b s2 where s: "s = b # s2" "is_continuation b" using assms by (cases s) auto
  show thesis
  proof (cases "194 \<le> byte a \<and> byte a \<le> 223")
    case True
    then show ?thesis using assms s that [of 1] by simp
  next
    case F2: False
    obtain c s3 where s3: "s2 = c # s3" "is_continuation c"
      using assms F2 by (cases s2) (auto simp: s)
    show ?thesis
    proof (cases "224 \<le> byte a \<and> byte a \<le> 239")
      case True
      then show ?thesis using assms F2 s s3 that [of 2] by simp
    next
      case F3: False
      obtain d s4 where "s3 = d # s4" "is_continuation d" "valid_utf8 s4"
        using assms F2 F3 by (cases s3) (simp_all add: s s3)
      then show ?thesis using s s3 that [of 3] by (simp add: numeral_3_eq_3)
    qed
  qed
qed

lemma valid_utf8_after_ascii:
  "valid_utf8 s \<Longrightarrow> i < length s \<Longrightarrow> is_ascii (s ! i) \<Longrightarrow> valid_utf8 (drop (Suc i) s)"
proof (induction s arbitrary: i rule: length_induct)
  case (1 s)
  obtain a t where s: "s = a # t" using 1(3) by (cases s) auto
  show ?case
  proof (cases "byte a < 128")
    case True
    then have "valid_utf8 t" using 1(2) by (simp add: s)
    then show ?thesis using 1 by (cases i) (auto simp: s)
  next
    case False
    obtain k where k: "k \<le> length t" "list_all is_continuation (take k t)" "valid_utf8 (drop k t)"
      using valid_utf8_multibyte [OF 1(2) [unfolded s] False] by blast
    obtain j where i: "i = Suc j" using 1(4) False by (cases i) (auto simp: s is_ascii_def)
    have "\<not> j < k"
      using k(1,2) 1(4) continuation_not_ascii [of "t ! j"] by (auto simp: s i list_all_length)
    then have "drop k t ! (j - k) = t ! j" "j - k < length (drop k t)"
      using 1(3) k(1) by (auto simp: s i)
    then have "valid_utf8 (drop (Suc (j - k)) (drop k t))"
      using 1(1) [rule_format, of "drop k t" "j - k"] k(3) 1(4) by (simp add: s i)
    moreover have "Suc (j - k) + k = Suc j" using \<open>\<not> j < k\<close> by simp
    ultimately show ?thesis by (simp add: s i)
  qed
qed

lemma boundary_after_ascii:
  assumes "valid_utf8 s" "i < length s" "is_ascii (s ! i)"
  shows "is_char_boundary s (Suc i)"
proof (cases "Suc i = length s")
  case False
  with assms(2) have "drop (Suc i) s = s ! Suc i # drop (Suc (Suc i)) s"
    by (simp add: Cons_nth_drop_Suc)
  with valid_utf8_after_ascii [OF assms] have "\<not> is_continuation (s ! Suc i)"
    using valid_utf8_head by metis
  with False assms(2) show ?thesis by (simp add: is_char_boundary_def is_continuation_def)
qed (simp add: is_char_boundary_def)

lemma strip_prefix_append [simp]: "strip_prefix p (p @ s) = Some s"
  by (simp add: strip_prefix_def)

lemma strip_prefix_eq_Some: "strip_prefix p s = Some r \<longleftrightarrow> s = p @ r"
  by (auto simp: strip_prefix_def) (metis append_take_drop_id)

lemma strip_suffix_append [simp]: "strip_suffix p (s @ p) = Some s"
  by (simp add: strip_suffix_def)

lemma strip_suffix_eq_Some: "strip_suffix p s = Some r \<longleftrightarrow> s = r @ p"
  by (auto simp: strip_suffix_def) (metis append_take_drop_id)

lemma strip_suffix_snoc_neq: "c \<noteq> d \<Longrightarrow> strip_suffix [c] (s @ [d]) = None"
  by (simp add: strip_suffix_def)

section \<open>Decimal text\<close>

definition digit_char :: "nat \<Rightarrow> char" where
  "digit_char d = char_of (48 + d)"

definition digit_val :: "char \<Rightarrow> nat" where
  "digit_val c = byte c - 48"

text \<open>\<open>Display\<close> of a non-negative integer.\<close>

fun show_nat :: "nat \<Rightarrow> str" where
  "show_nat n = (if n < 10 then [digit_char n] else show_nat (n div 10) @ [digit_char (n mod 10)])"

declare show_nat.simps [simp del]

definition show_int :: "int \<Rightarrow> str" where
  "show_int x = (if x < 0 then CHR ''-'' # show_nat (nat (- x)) else show_nat (nat x))"

text \<open>\<open>{:0w}\<close> of an integer: zero-padded to width \<open>w\<close>, the sign first.\<close>

definition pad_zero :: "nat \<Rightarrow> str \<Rightarrow> str" where
  "pad_zero w s = replicate (w - length s) (CHR ''0'') @ s"

definition show_pad :: "nat \<Rightarrow> int \<Rightarrow> str" where
  "show_pad w x =
     (if x < 0 then CHR ''-'' # pad_zero (w - 1) (show_nat (nat (- x)))
      else pad_zero w (show_nat (nat x)))"

definition digits_value :: "str \<Rightarrow> nat" where
  "digits_value s = foldl (\<lambda>v c. v * 10 + digit_val c) 0 s"

text \<open>\<open>str::parse\<close> into a signed integer type: an optional sign, then one or
  more digits, the value in the range of the type.\<close>

definition parse_digits_text :: "str \<Rightarrow> nat option" where
  "parse_digits_text s = (if s \<noteq> [] \<and> list_all is_ascii_digit s then Some (digits_value s) else None)"

definition parse_signed :: "(int \<Rightarrow> bool) \<Rightarrow> str \<Rightarrow> int option" where
  "parse_signed ok s =
     (case s of
        CHR ''-'' # r \<Rightarrow> Option.bind (parse_digits_text r) (\<lambda>v. try_fit ok (- int v))
      | CHR ''+'' # r \<Rightarrow> Option.bind (parse_digits_text r) (\<lambda>v. try_fit ok (int v))
      | _ \<Rightarrow> Option.bind (parse_digits_text s) (\<lambda>v. try_fit ok (int v)))"

text \<open>\<open>str::parse\<close> into an unsigned type: only \<open>+\<close> is a sign.\<close>

definition parse_unsigned :: "(int \<Rightarrow> bool) \<Rightarrow> str \<Rightarrow> int option" where
  "parse_unsigned ok s =
     (case s of
        CHR ''+'' # r \<Rightarrow> Option.bind (parse_digits_text r) (\<lambda>v. try_fit ok (int v))
      | _ \<Rightarrow> Option.bind (parse_digits_text s) (\<lambda>v. try_fit ok (int v)))"

lemma byte_digit_char: "d < 10 \<Longrightarrow> byte (digit_char d) = 48 + d"
  by (simp add: byte_def digit_char_def of_char_of)

lemma digit_val_char [simp]: "d < 10 \<Longrightarrow> digit_val (digit_char d) = d"
  by (simp add: digit_val_def byte_digit_char)

lemma is_digit_char [simp]: "d < 10 \<Longrightarrow> is_ascii_digit (digit_char d)"
  by (simp add: is_ascii_digit_def byte_digit_char)

lemma is_digit_zero [simp]: "is_ascii_digit (CHR ''0'')"
  by (simp add: is_ascii_digit_def byte_def)

lemma digit_is_ascii: "is_ascii_digit c \<Longrightarrow> is_ascii c"
  by (simp add: is_ascii_digit_def is_ascii_def)

lemma digit_neq_sign: "is_ascii_digit c \<Longrightarrow> c \<noteq> CHR ''-'' \<and> c \<noteq> CHR ''+''"
  by (auto simp: is_ascii_digit_def byte_def)

lemma digits_are_ascii: "list_all is_ascii_digit s \<Longrightarrow> list_all is_ascii s"
  by (auto simp: list_all_iff digit_is_ascii)

lemma show_nat_digits [simp]: "list_all is_ascii_digit (show_nat n)"
proof (induction n rule: show_nat.induct)
  case (1 n)
  then show ?case by (subst show_nat.simps) simp
qed

lemma show_nat_nonempty [simp]: "show_nat n \<noteq> []"
  by (subst show_nat.simps) simp

lemma digits_value_snoc [simp]: "digits_value (s @ [c]) = digits_value s * 10 + digit_val c"
  by (simp add: digits_value_def)

lemma digits_value_Nil [simp]: "digits_value [] = 0"
  by (simp add: digits_value_def)

lemma digits_value_show_nat [simp]: "digits_value (show_nat n) = n"
proof (induction n rule: show_nat.induct)
  case (1 n)
  show ?case
  proof (cases "n < 10")
    case True
    then show ?thesis by (subst show_nat.simps) (simp add: digits_value_def)
  next
    case False
    with 1 show ?thesis by (subst show_nat.simps) simp
  qed
qed

lemma digits_value_leading_zeros [simp]:
  "digits_value (replicate k (CHR ''0'') @ s) = digits_value s"
  by (induction s rule: rev_induct, induction k)
     (simp_all add: digits_value_def digit_val_def byte_def flip: append_assoc)

lemma length_show_nat: "0 < k \<Longrightarrow> n < 10 ^ k \<Longrightarrow> length (show_nat n) \<le> k"
proof (induction k arbitrary: n)
  case (Suc k)
  show ?case
  proof (cases "n < 10")
    case True
    then show ?thesis by (subst show_nat.simps) simp
  next
    case False
    with Suc.prems have "n div 10 < 10 ^ k" "0 < k"
      by (auto simp: less_mult_imp_div_less intro: gr0I)
    with Suc.IH [of "n div 10"] False show ?thesis
      by (subst show_nat.simps) simp
  qed
qed simp

lemma digits_value_pad [simp]: "digits_value (pad_zero w s) = digits_value s"
  by (simp add: pad_zero_def)

lemma length_pad_zero [simp]: "length (pad_zero w s) = max w (length s)"
  by (simp add: pad_zero_def)

lemma pad_zero_digits [simp]: "list_all is_ascii_digit s \<Longrightarrow> list_all is_ascii_digit (pad_zero w s)"
  by (simp add: pad_zero_def)

lemma show_pad_nonneg:
  assumes "0 \<le> x"
  shows "list_all is_ascii_digit (show_pad w x)" and "digits_value (show_pad w x) = nat x"
  using assms by (simp_all add: show_pad_def)

lemma length_show_pad:
  assumes "0 \<le> x" "x < 10 ^ w" "0 < w"
  shows "length (show_pad w x) = w"
proof -
  have "nat x < 10 ^ w"
    using assms by (simp add: nat_less_iff)
  then have "length (show_nat (nat x)) \<le> w"
    using assms by (intro length_show_nat) simp_all
  then show ?thesis
    using assms by (simp add: show_pad_def)
qed

lemma parse_signed_digits:
  assumes "list_all is_ascii_digit s" "s \<noteq> []"
  shows "parse_signed ok s = try_fit ok (int (digits_value s))"
proof (cases s)
  case (Cons c r)
  with assms digit_neq_sign [of c]
  have "parse_signed ok s = Option.bind (parse_digits_text s) (\<lambda>v. try_fit ok (int v))"
    by (auto simp: parse_signed_def split: char.splits bool.splits)
  with assms show ?thesis by (simp add: parse_digits_text_def)
qed (use assms in simp)

lemma parse_signed_show_int:
  "ok x \<Longrightarrow> parse_signed ok (show_int x) = Some x"
proof (cases "x < 0")
  case True
  then show "ok x \<Longrightarrow> parse_signed ok (show_int x) = Some x"
    by (simp add: show_int_def parse_signed_def parse_digits_text_def)
next
  case False
  then show "ok x \<Longrightarrow> parse_signed ok (show_int x) = Some x"
    by (simp add: show_int_def parse_signed_digits)
qed

lemma parse_unsigned_digits:
  assumes "list_all is_ascii_digit s" "s \<noteq> []"
  shows "parse_unsigned ok s = try_fit ok (int (digits_value s))"
proof -
  obtain c r where s: "s = c # r" using assms(2) by (cases s) auto
  have "c \<noteq> CHR ''+''" using assms(1) by (auto simp: s is_ascii_digit_def byte_def)
  then have "parse_unsigned ok s = Option.bind (parse_digits_text s) (\<lambda>v. try_fit ok (int v))"
    unfolding parse_unsigned_def s by (auto split: list.splits char.splits bool.splits)
  with assms show ?thesis by (simp add: parse_digits_text_def)
qed

lemma digits_value_bound: "list_all is_ascii_digit s \<Longrightarrow> digits_value s < 10 ^ length s"
proof (induction s rule: rev_induct)
  case (snoc c s)
  then have "digits_value s < 10 ^ length s" "digit_val c \<le> 9"
    by (auto simp: is_ascii_digit_def digit_val_def)
  then show ?case by simp
qed simp

lemma ascii_punctuation [simp]:
  "is_ascii (CHR ''-'')" "is_ascii (CHR '':'')" "is_ascii (CHR ''.'')" "is_ascii (CHR ''T'')"
  "is_ascii (CHR ''Z'')" "is_ascii (CHR ''+'')" "is_ascii (CHR ''0'')"
  by (simp_all add: is_ascii_def byte_def)

lemma show_pad_ascii: "0 \<le> x \<Longrightarrow> list_all is_ascii (show_pad w x)"
  by (intro digits_are_ascii show_pad_nonneg)

lemma length4E:
  assumes "length s = 4" obtains a b c d where "s = [a, b, c, d]"
  using assms by (auto simp: numeral_eq_Suc length_Suc_conv)

lemma length3E:
  assumes "length s = 3" obtains a b c where "s = [a, b, c]"
  using assms by (auto simp: numeral_eq_Suc length_Suc_conv)

lemma length2E:
  assumes "length s = 2" obtains a b where "s = [a, b]"
  using assms by (auto simp: numeral_eq_Suc length_Suc_conv)

lemma nth_list_update_at: "i < length s \<Longrightarrow> s[r := x] ! i = (if i = r then x else s ! i)"
  by simp

section \<open>Characters of a text\<close>

text \<open>\<open>chars().next()\<close>: the bytes of the first character.\<close>

definition char_len :: "char \<Rightarrow> nat" where
  "char_len b = (if byte b < 128 then 1 else if byte b < 224 then 2 else if byte b < 240 then 3 else 4)"

fun next_char :: "str \<Rightarrow> str option" where
  "next_char [] = None"
| "next_char (b # s) = Some (take (char_len b) (b # s))"

lemma char_len_pos [simp]: "0 < char_len b" "char_len b \<noteq> 0"
  by (simp_all add: char_len_def)

lemma next_char_SomeD: "next_char s = Some c \<Longrightarrow> s \<noteq> [] \<and> c \<noteq> []"
  by (cases s) auto

function chars :: "str \<Rightarrow> str list" where
  "chars s = (case next_char s of None \<Rightarrow> [] | Some c \<Rightarrow> c # chars (drop (length c) s))"
  by auto
termination
  by (relation "measure length") (auto dest: next_char_SomeD)

declare chars.simps [simp del]

lemma chars_ascii: "list_all is_ascii s \<Longrightarrow> chars s = map (\<lambda>b. [b]) s"
  by (induction s) (auto simp: chars.simps [of "[]"] chars.simps [of "_ # _"] char_len_def is_ascii_def)

section \<open>Runs of labelled transition systems\<close>

text \<open>The runs of a step relation, and what every step keeps is kept by every run.\<close>

locale labelled_runs =
  fixes step :: "'s \<Rightarrow> 'e \<Rightarrow> 's \<Rightarrow> bool"
    and run :: "'s \<Rightarrow> 'e list \<Rightarrow> 's \<Rightarrow> bool"
  assumes run_Nil: "run s [] s' \<longleftrightarrow> s' = s"
    and run_Cons: "run s (e # es) s' \<longleftrightarrow> (\<exists>m. step s e m \<and> run m es s')"
begin

lemma run_append: "run s (es @ fs) s' \<longleftrightarrow> (\<exists>m. run s es m \<and> run m fs s')"
  by (induction es arbitrary: s) (auto simp: run_Nil run_Cons)

lemma run_keeps:
  assumes "run s es s'" "I s" "\<And>s e s'. I s \<Longrightarrow> step s e s' \<Longrightarrow> I s'"
  shows "I s'"
  using assms by (induction es arbitrary: s) (auto simp: run_Nil run_Cons)

lemma run_related:
  assumes "run s es s'" "reflp R" "transp R" "\<And>s e s'. step s e s' \<Longrightarrow> R s s'"
  shows "R s s'"
  using assms(1)
proof (induction es arbitrary: s)
  case Nil
  then show ?case using assms(2) by (simp add: run_Nil reflpD)
next
  case (Cons e es)
  then obtain m where "step s e m" "run m es s'" by (auto simp: run_Cons)
  then show ?case using Cons.IH [of m] assms(4) [of s e m] assms(3) by (blast dest: transpD)
qed

lemma run_avoids:
  assumes "run s es s'" "I s" "\<And>s e s'. I s \<Longrightarrow> step s e s' \<Longrightarrow> I s' \<and> e \<notin> bad"
  shows "set es \<inter> bad = {} \<and> I s'"
  using assms(1,2)
  by (induction es arbitrary: s) (use assms(3) in \<open>force simp: run_Nil run_Cons\<close>)+

lemma run_measure:
  assumes "run s es s'" "\<forall>e \<in> set es. counted e" "\<And>s e s'. step s e s' \<Longrightarrow> counted e \<Longrightarrow> (m s' :: nat) < m s"
  shows "length es + m s' \<le> m s"
  using assms(1,2)
proof (induction es arbitrary: s)
  case (Cons e es)
  then obtain t where t: "step s e t" "run t es s'" by (auto simp: run_Cons)
  then have "length es + m s' \<le> m t" using Cons by simp
  moreover have "m t < m s" using assms(3) t Cons.prems by simp
  ultimately show ?case by simp
qed (simp add: run_Nil)

end

end
