(* ===== verification/BN_Civil.thy ===== *)
theory BN_Civil
  imports BN_Prelude
begin

text \<open>
  Civil dates: \<open>crates/bn_core_text/src/civil.rs\<close>. A day count and a timestamp
  are integers; where the code converts between widths the conversion is the
  \<open>try_fit\<close> of the prelude, with the code's fallback. The theorems relate the
  closed-form conversions to the Gregorian calendar stated directly
  (\<open>days_in_month\<close> and \<open>next_date\<close>).
\<close>

section \<open>Definitions\<close>

definition DAY_MS :: int where
  "DAY_MS = 86400000"

definition MIN_YEAR :: int where
  "MIN_YEAR = 1"

definition MAX_YEAR :: int where
  "MAX_YEAR = 9999"

record civil_date =
  cd_year :: int
  cd_month :: int
  cd_day :: int

definition civil_from_days :: "int \<Rightarrow> civil_date" where
  "civil_from_days days =
     (let z = days + 719468;
          era = (if z \<ge> 0 then z else z - 146096) div 146097;
          doe = (case try_fit u32_ok (z - era * 146097) of Some d \<Rightarrow> d | None \<Rightarrow> 0);
          yoe = (doe - doe div 1460 + doe div 36524 - doe div 146096) div 365;
          year = yoe + era * 400;
          doy = doe - (365 * yoe + yoe div 4 - yoe div 100);
          month_prime = (5 * doy + 2) div 153;
          day = doy - (153 * month_prime + 2) div 5 + 1;
          month = (if month_prime < 10 then month_prime + 3 else month_prime - 9)
      in \<lparr>cd_year = (case try_fit i32_ok (year + of_bool (month \<le> 2)) of Some y \<Rightarrow> y | None \<Rightarrow> 2147483647),
          cd_month = month, cd_day = day\<rparr>)"

definition days_in_month :: "int \<Rightarrow> int \<Rightarrow> int option" where
  "days_in_month year month =
     (if month \<in> {1, 3, 5, 7, 8, 10, 12} then Some 31
      else if month \<in> {4, 6, 9, 11} then Some 30
      else if month = 2 \<and> year mod 4 = 0 \<and> (year mod 100 \<noteq> 0 \<or> year mod 400 = 0) then Some 29
      else if month = 2 then Some 28
      else None)"

definition days_from_civil :: "int \<Rightarrow> int \<Rightarrow> int \<Rightarrow> int option" where
  "days_from_civil year month day =
     (if \<not> (MIN_YEAR \<le> year \<and> year \<le> MAX_YEAR) \<or> \<not> (1 \<le> month \<and> month \<le> 12) \<or> day = 0 then None
      else case days_in_month year month of
        None \<Rightarrow> None
      | Some month_days \<Rightarrow>
          if day > month_days then None
          else
            let y = (if month \<le> 2 then year - 1 else year);
                era = (if y \<ge> 0 then y else y - 399) div 400
            in case try_fit u32_ok (y - era * 400) of
                 None \<Rightarrow> None
               | Some yoe \<Rightarrow>
                   let month_index = (if month > 2 then month - 3 else month + 9);
                       doy = (153 * month_index + 2) div 5 + day - 1;
                       doe = yoe * 365 + yoe div 4 - yoe div 100 + doy
                   in case try_fit i32_ok doe of
                        None \<Rightarrow> None
                      | Some doe' \<Rightarrow> Some (era * 146097 + doe' - 719468))"

definition in_range :: "int \<Rightarrow> bool" where
  "in_range days \<longleftrightarrow> MIN_YEAR \<le> cd_year (civil_from_days days) \<and> cd_year (civil_from_days days) \<le> MAX_YEAR"

definition civil_split :: "int \<Rightarrow> (int \<times> int) option" where
  "civil_split timestamp =
     (case try_fit i32_ok (timestamp div DAY_MS) of
        None \<Rightarrow> None
      | Some days \<Rightarrow>
          (case try_fit u32_ok (timestamp mod DAY_MS) of
             None \<Rightarrow> None
           | Some millis \<Rightarrow> if in_range days then Some (days, millis) else None))"

definition totimestamp :: "int \<Rightarrow> int \<Rightarrow> int" where
  "totimestamp days millis =
     (let m = (case try_fit u32_ok millis of Some m \<Rightarrow> m | None \<Rightarrow> 0)
      in case try_fit i64_ok (days * DAY_MS + m) of Some t \<Rightarrow> t | None \<Rightarrow> 0)"

definition civil_time :: "int \<Rightarrow> int \<times> int \<times> int \<times> int" where
  "civil_time millis =
     (millis div 3600000, millis mod 3600000 div 60000, millis mod 60000 div 1000, millis mod 1000)"

definition format_date :: "int \<Rightarrow> str" where
  "format_date days =
     (let d = civil_from_days days
      in show_pad 4 (cd_year d) @ ''-'' @ show_pad 2 (cd_month d) @ ''-'' @ show_pad 2 (cd_day d))"

definition format_time :: "int \<Rightarrow> str" where
  "format_time millis =
     (case civil_time millis of (hour, minute, second, ms) \<Rightarrow>
        show_pad 2 hour @ '':'' @ show_pad 2 minute @ '':'' @ show_pad 2 second @ ''.'' @ show_pad 3 ms)"

definition rfc3339 :: "int \<Rightarrow> str option" where
  "rfc3339 timestamp =
     (case civil_split timestamp of
        None \<Rightarrow> None
      | Some (days, millis) \<Rightarrow> Some (format_date days @ ''T'' @ format_time millis @ ''Z''))"

section \<open>The calendar the code is checked against\<close>

text \<open>The day after a date, by the Gregorian rules and nothing else.\<close>

definition next_date :: "civil_date \<Rightarrow> civil_date" where
  "next_date d =
     (case days_in_month (cd_year d) (cd_month d) of
        None \<Rightarrow> d
      | Some month_days \<Rightarrow>
          if cd_day d < month_days then d\<lparr>cd_day := cd_day d + 1\<rparr>
          else if cd_month d < 12 then d\<lparr>cd_month := cd_month d + 1, cd_day := 1\<rparr>
          else \<lparr>cd_year = cd_year d + 1, cd_month = 1, cd_day = 1\<rparr>)"

definition valid_date :: "civil_date \<Rightarrow> bool" where
  "valid_date d \<longleftrightarrow>
     MIN_YEAR \<le> cd_year d \<and> cd_year d \<le> MAX_YEAR \<and> 1 \<le> cd_month d \<and> cd_month d \<le> 12 \<and>
     1 \<le> cd_day d \<and> (case days_in_month (cd_year d) (cd_month d) of Some l \<Rightarrow> cd_day d \<le> l | None \<Rightarrow> False)"

section \<open>One era of 400 years\<close>

text \<open>Years are counted from March, so a leap day ends its year: \<open>year_start y\<close>
  is the first day of year \<open>y\<close> of the era and \<open>year_len y\<close> its length.\<close>

definition year_start :: "int \<Rightarrow> int" where
  "year_start y = 365 * y + y div 4 - y div 100"

definition year_len :: "int \<Rightarrow> int" where
  "year_len y = (if y mod 4 = 3 \<and> (y mod 100 \<noteq> 99 \<or> y mod 400 = 399) then 366 else 365)"

definition year_count :: "int \<Rightarrow> int" where
  "year_count doe = doe - doe div 1460 + doe div 36524 - doe div 146096"

lemma year_start_step:
  assumes "0 \<le> y" "y < 399"
  shows "year_start (y + 1) = year_start y + year_len y"
proof -
  have "y mod 100 = 99 \<Longrightarrow> y mod 4 = 3"
    using mod_mod_cancel [of 4 "100::int" y] by simp
  with assms show ?thesis
    by (auto simp: year_start_def year_len_def int_div_succ)
qed

lemma year_start_mono:
  assumes "a \<le> b" shows "year_start a \<le> year_start b"
  using zdiv_mono1 [OF assms, of 4] int_div_growth [OF _ assms, of 100] assms
  by (simp add: year_start_def)

lemma year_count_mono:
  assumes "0 \<le> a" "a \<le> b"
  shows "year_count a \<le> year_count b"
proof -
  have q: "x div 146096 = x div 36524 div 4" for x :: int
    by (simp flip: zdiv_zmult2_eq)
  have "b div 1460 - a div 1460 \<le> b - a" using assms int_div_growth [of 1460 a b] by simp
  moreover have "b div 36524 div 4 - a div 36524 div 4 \<le> b div 36524 - a div 36524"
    using int_div_growth [of 4 "a div 36524" "b div 36524"] zdiv_mono1 [OF assms(2), of 36524]
    by simp
  ultimately show ?thesis unfolding year_count_def q by linarith
qed

text \<open>A day of the era as century, olympiad, year and day: the shape in which
  the quotients of \<open>year_count\<close> are visible.\<close>

lemma year_count_digits:
  assumes "0 \<le> a" "a \<le> 3" "0 \<le> b" "b \<le> 24" "0 \<le> c" "c \<le> 3" "0 \<le> doy" "doy \<le> 365"
    and leap: "doy = 365 \<Longrightarrow> c = 3 \<and> (b < 24 \<or> a = 3)"
  shows "year_count (36524 * a + 1461 * b + 365 * c + doy) div 365 = 100 * a + 4 * b + c"
proof -
  define doe where "doe = 36524 * a + 1461 * b + 365 * c + doy"
  define w where "w = 24 * a + b + 365 * c + doy"
  define top where "top \<longleftrightarrow> a = 3 \<and> b = 24 \<and> c = 3 \<and> doy = 365"
  have w: "0 \<le> w" "w < 2920" using assms by (simp_all add: w_def)
  have d1: "doe div 1460 = 25 * a + b + of_bool (1460 \<le> w)"
    using w by (intro int_div_pos_eq [where r = "w - 1460 * of_bool (1460 \<le> w)"])
      (auto simp: doe_def w_def)
  have "1461 * b + 365 * c + doy < 36524 \<or> top"
    using assms unfolding top_def by (cases "doy = 365"; cases "b = 24") auto
  then have d2: "doe div 36524 = a + of_bool top" and d3: "doe div 146096 = of_bool top"
    using assms by (auto simp: doe_def top_def intro!: int_div_pos_eq div_pos_pos_trivial)
  have y: "year_count doe = 365 * (100 * a + 4 * b + c) + (doy - of_bool (1460 \<le> w))"
    unfolding year_count_def d1 d2 d3 by (simp add: doe_def)
  have "1460 \<le> w \<longrightarrow> 1 \<le> doy" and "doy \<noteq> 365 \<or> 1460 \<le> w"
    using assms by (auto simp: w_def)
  then have "0 \<le> doy - of_bool (1460 \<le> w)" "doy - of_bool (1460 \<le> w) < 365"
    using assms(7,8) by (auto simp: of_bool_def)
  with y show ?thesis by (intro int_div_pos_eq) (auto simp: doe_def)
qed

lemma year_count_correct:
  assumes y: "0 \<le> y" "y < 400" and doy: "0 \<le> doy" "doy < year_len y"
  shows "year_count (year_start y + doy) div 365 = y"
proof -
  define a b c where "a = y div 100" and "b = y mod 100 div 4" and "c = y mod 100 mod 4"
  have y_eq: "y = 100 * a + 4 * b + c" by (simp add: a_def b_def c_def)
  have bounds: "0 \<le> a" "a \<le> 3" "0 \<le> b" "b \<le> 24" "0 \<le> c" "c \<le> 3"
    using y by (auto simp: a_def b_def c_def)
  have c4: "y mod 4 = c" using mod_mod_cancel [of 4 "100::int" y] by (simp add: c_def)
  have m100: "y mod 100 = 4 * b + c" by (simp add: b_def c_def)
  have m400: "y mod 400 = y" using y by simp
  have "y div 4 = 25 * a + b"
    using bounds by (intro int_div_pos_eq [where r = c]) (auto simp: y_eq)
  then have start: "year_start y = 36524 * a + 1461 * b + 365 * c"
    using y_eq unfolding year_start_def a_def [symmetric] by simp
  have "doy \<le> 365" using doy by (simp add: year_len_def split: if_splits)
  moreover have "doy = 365 \<Longrightarrow> c = 3 \<and> (b < 24 \<or> a = 3)"
    using doy bounds unfolding year_len_def c4 m100 m400 by (auto simp: y_eq split: if_splits)
  ultimately have "year_count (year_start y + doy) div 365 = 100 * a + 4 * b + c"
    unfolding start using year_count_digits [of a b c doy] bounds doy(1) by blast
  with y_eq show ?thesis by simp
qed

lemma year_of_day:
  assumes "0 \<le> doe" "doe < 146097"
  obtains y where "0 \<le> y" "y < 400" "year_start y \<le> doe" "doe < year_start y + year_len y"
proof -
  have *: "n \<le> 399 \<Longrightarrow> doe < year_start (int n) \<Longrightarrow>
      \<exists>y. 0 \<le> y \<and> y < 400 \<and> year_start y \<le> doe \<and> doe < year_start y + year_len y" for n
  proof (induction n)
    case 0
    then show ?case using assms by (simp add: year_start_def)
  next
    case (Suc n)
    show ?case
    proof (cases "doe < year_start (int n)")
      case True
      then show ?thesis using Suc by simp
    next
      case False
      moreover have "doe < year_start (int n) + year_len (int n)"
        using Suc.prems year_start_step [of "int n"] by (simp add: add.commute)
      ultimately show ?thesis using Suc.prems by (intro exI [of _ "int n"]) auto
    qed
  qed
  show thesis
  proof (cases "doe < year_start 399")
    case True
    then show ?thesis using * [of 399] that by auto
  next
    case False
    then show ?thesis using assms by (intro that [of 399]) (auto simp: year_start_def year_len_def)
  qed
qed

lemma year_end_le: "0 \<le> y \<Longrightarrow> y < 400 \<Longrightarrow> year_start y + year_len y \<le> 146097"
proof (cases "y = 399")
  case True
  then show ?thesis by (simp add: year_start_def year_len_def)
next
  case False
  moreover assume "0 \<le> y" "y < 400"
  ultimately show ?thesis
    using year_start_step [of y] year_start_mono [of "y + 1" 399] by (simp add: year_start_def)
qed

lemma year_start_nonneg: "0 \<le> y \<Longrightarrow> 0 \<le> year_start y"
  using year_start_mono [of 0 y] by (simp add: year_start_def)

section \<open>Months counted from March\<close>

definition month_start :: "int \<Rightarrow> int" where
  "month_start m = (153 * m + 2) div 5"

lemma month_of_day: "(5 * doy + 2) div 153 = m \<longleftrightarrow> month_start m \<le> doy \<and> doy < month_start (m + 1)"
  by (auto simp: month_start_def)

definition from_march :: "int \<Rightarrow> int" where
  "from_march month = (if month > 2 then month - 3 else month + 9)"

definition leap_year :: "int \<Rightarrow> bool" where
  "leap_year year \<longleftrightarrow> year mod 4 = 0 \<and> (year mod 100 \<noteq> 0 \<or> year mod 400 = 0)"

lemma month_cases:
  assumes "1 \<le> month" "month \<le> (12::int)"
  shows "month \<in> {1, 2, 3, 4, 5, 6, 7, 8, 9, 10, 11, 12}"
  using assms unfolding insert_iff empty_iff by presburger

lemma days_in_month_from_march:
  assumes "1 \<le> month" "month \<le> 12"
  shows "days_in_month year month =
    Some (if month = 2 then 28 + of_bool (leap_year year)
          else month_start (from_march month + 1) - month_start (from_march month))"
  using month_cases [OF assms]
  by (auto simp: days_in_month_def leap_year_def from_march_def month_start_def)

lemma leap_year_len: "year_len (y mod 400) = 365 + of_bool (leap_year (y + 1))"
proof -
  have "y mod 400 mod 4 = y mod 4" "y mod 400 mod 100 = y mod 100"
    by (simp_all add: mod_mod_cancel)
  then show ?thesis
    by (simp add: year_len_def leap_year_def int_mod_succ_zero)
qed

section \<open>The closed forms\<close>

text \<open>Both conversions in terms of era, year of the era and day of the year.\<close>

lemma civil_from_days_parts:
  assumes "0 \<le> era" "0 \<le> yoe" "yoe < 400" "0 \<le> doy" "doy < year_len yoe"
    and z: "days + 719468 = era * 146097 + year_start yoe + doy" and "i32_ok days"
    and mp: "mp = (5 * doy + 2) div 153"
  shows "civil_from_days days =
    \<lparr>cd_year = era * 400 + yoe + of_bool (10 \<le> mp),
     cd_month = (if mp < 10 then mp + 3 else mp - 9), cd_day = doy - month_start mp + 1\<rparr>"
proof -
  define doe where "doe = year_start yoe + doy"
  have doe: "0 \<le> doe" "doe < 146097"
    using assms year_start_nonneg [of yoe] year_end_le [of yoe] by (auto simp: doe_def)
  have z': "days + 719468 = era * 146097 + doe" using z by (simp add: doe_def)
  have era: "(if days + 719468 \<ge> 0 then days + 719468 else days + 719468 - 146096) div 146097 = era"
    using doe assms(1) unfolding z' by simp
  have fit: "(case try_fit u32_ok (days + 719468 - era * 146097) of Some d \<Rightarrow> d | None \<Rightarrow> 0) = doe"
    using doe unfolding z' by (simp add: u32_ok_def)
  have yoe: "(doe - doe div 1460 + doe div 36524 - doe div 146096) div 365 = yoe"
    using year_count_correct [of yoe doy] assms by (simp add: year_count_def doe_def)
  have doy: "doe - (365 * yoe + yoe div 4 - yoe div 100) = doy"
    by (simp add: doe_def year_start_def)
  have mp_bounds: "0 \<le> mp" "mp \<le> 11"
    using assms(4,5) by (auto simp: mp year_len_def split: if_splits)
  have "era * 146097 \<le> 2147483647 + 719468"
    using \<open>i32_ok days\<close> z' doe by (simp add: i32_ok_def)
  then have year: "i32_ok (yoe + era * 400 + of_bool b)" for b
    using assms(1-3) by (auto simp: i32_ok_def of_bool_def)
  have month: "(if mp < 10 then mp + 3 else mp - 9) \<le> 2 \<longleftrightarrow> 10 \<le> mp"
    using mp_bounds by auto
  show ?thesis
    unfolding civil_from_days_def Let_def era fit yoe doy mp [symmetric] month month_start_def
    using year by simp
qed

text \<open>\<open>days_from_civil\<close> accepts exactly the dates of the calendar.\<close>

lemma days_from_civil_parts:
  assumes "valid_date \<lparr>cd_year = year, cd_month = month, cd_day = day\<rparr>"
    and y: "y = (if month \<le> 2 then year - 1 else year)"
    and doy: "doy = month_start (from_march month) + day - 1"
  shows "days_from_civil year month day =
      Some (y div 400 * 146097 + year_start (y mod 400) + doy - 719468)"
    and "0 \<le> y" and "0 \<le> doy" and "doy < year_len (y mod 400)"
    and "(5 * doy + 2) div 153 = from_march month"
proof -
  have v: "1 \<le> year" "year \<le> 9999" "1 \<le> month" "month \<le> 12" "1 \<le> day"
    using assms(1) by (auto simp: valid_date_def MIN_YEAR_def MAX_YEAR_def)
  define l where "l = (if month = 2 then 28 + of_bool (leap_year year)
          else month_start (from_march month + 1) - month_start (from_march month))"
  have l: "days_in_month year month = Some l"
    using days_in_month_from_march [OF v(3,4)] by (simp add: l_def)
  have day: "day \<le> l" using assms(1) l by (simp add: valid_date_def)
  show y0: "0 \<le> y" using v y by auto
  have "0 \<le> from_march month" using v by (simp add: from_march_def)
  then have "0 \<le> month_start (from_march month)" by (simp add: month_start_def)
  then show d0: "0 \<le> doy" using v doy by simp
  have len: "year_len (y mod 400) = 365 + of_bool (leap_year (y + 1))" by (rule leap_year_len)
  show d1: "doy < year_len (y mod 400)"
    unfolding len using month_cases [OF v(3,4)] day y doy
    by (auto simp: l_def from_march_def month_start_def of_bool_def split: if_splits)
  show "(5 * doy + 2) div 153 = from_march month"
    using month_cases [OF v(3,4)] day v(5) doy unfolding month_of_day
    by (auto simp: l_def from_march_def month_start_def of_bool_def split: if_splits)
  have era: "(if y \<ge> 0 then y else y - 399) div 400 = y div 400" using y0 by simp
  have fit: "try_fit u32_ok (y - y div 400 * 400) = Some (y mod 400)"
    by (simp add: minus_div_mult_eq_mod u32_ok_def)
  have doe: "y mod 400 * 365 + y mod 400 div 4 - y mod 400 div 100 + doy = year_start (y mod 400) + doy"
    by (simp add: year_start_def)
  have "i32_ok (year_start (y mod 400) + doy)"
    using d0 d1 year_end_le [of "y mod 400"] year_start_nonneg [of "y mod 400"]
    by (simp add: i32_ok_def)
  then show "days_from_civil year month day =
      Some (y div 400 * 146097 + year_start (y mod 400) + doy - 719468)"
    using v l day
    unfolding days_from_civil_def Let_def y [symmetric] from_march_def [symmetric]
      month_start_def [symmetric] doy [symmetric] era fit MIN_YEAR_def MAX_YEAR_def
    by (simp add: doe)
qed

lemma days_from_civil_valid:
  assumes "0 \<le> day" "days_from_civil year month day = Some n"
  shows "valid_date \<lparr>cd_year = year, cd_month = month, cd_day = day\<rparr>"
  using assms unfolding days_from_civil_def valid_date_def
  by (auto split: if_splits option.splits)

lemma days_from_civil_bounds:
  assumes "0 \<le> day" "days_from_civil year month day = Some n"
  shows "- 719162 \<le> n \<and> n \<le> 2932896"
proof -
  note v = days_from_civil_valid [OF assms]
  define y where "y = (if month \<le> 2 then year - 1 else year)"
  define doy where "doy = month_start (from_march month) + day - 1"
  note p = days_from_civil_parts [OF v y_def doy_def]
  have n: "n = y div 400 * 146097 + year_start (y mod 400) + doy - 719468"
    using p(1) assms(2) by simp
  have y: "0 \<le> y" "y \<le> 9999" and low: "y = 0 \<Longrightarrow> month \<le> 2" and high: "y = 9999 \<Longrightarrow> 2 < month"
    using v by (auto simp: y_def valid_date_def MIN_YEAR_def MAX_YEAR_def split: if_splits)
  have m: "1 \<le> month" "month \<le> 12" using v by (simp_all add: valid_date_def)
  have early: "month \<le> 2 \<longleftrightarrow> 306 \<le> doy"
    using m p(5) unfolding month_of_day by (auto simp: from_march_def month_start_def split: if_splits)
  have "-719162 \<le> n"
  proof (cases "y = 0")
    case True
    then show ?thesis using low early n by (simp add: year_start_def)
  next
    case False
    have "365 \<le> y div 400 * 146097 + year_start (y mod 400)"
    proof (cases "y < 400")
      case True
      then show ?thesis using \<open>y \<noteq> 0\<close> y year_start_mono [of 1 y] by (simp add: year_start_def)
    next
      case False
      then have "1 \<le> y div 400" by simp
      then show ?thesis using year_start_nonneg [of "y mod 400"] by simp
    qed
    then show ?thesis using n p(3) by simp
  qed
  moreover have "n \<le> 2932896"
  proof (cases "y = 9999")
    case True
    then show ?thesis using high early n by (simp add: year_start_def)
  next
    case False
    moreover have "y div 400 \<le> 24" using zdiv_mono1 [OF y(2), of 400] by simp
    moreover have "400 * (y div 400) + y mod 400 = y" by simp
    ultimately have "y div 400 < 24 \<or> y div 400 = 24 \<and> y mod 400 < 399" using y by linarith
    then show ?thesis
    proof
      assume "y div 400 < 24"
      then show ?thesis using n p(4) year_end_le [of "y mod 400"] by simp
    next
      assume a: "y div 400 = 24 \<and> y mod 400 < 399"
      then have "year_start (y mod 400) + year_len (y mod 400) \<le> year_start 399"
        using year_start_step [of "y mod 400"] year_start_mono [of "y mod 400 + 1" 399] by simp
      then show ?thesis using n p(4) a by (simp add: year_start_def)
    qed
  qed
  ultimately show ?thesis by simp
qed

lemma civil_from_days_of_civil:
  assumes "0 \<le> day" "days_from_civil year month day = Some n"
  shows "civil_from_days n = \<lparr>cd_year = year, cd_month = month, cd_day = day\<rparr>"
proof -
  note v = days_from_civil_valid [OF assms]
  define y where "y = (if month \<le> 2 then year - 1 else year)"
  define doy where "doy = month_start (from_march month) + day - 1"
  note p = days_from_civil_parts [OF v y_def doy_def]
  have n: "n + 719468 = y div 400 * 146097 + year_start (y mod 400) + doy"
    using p(1) assms(2) by simp
  have m: "1 \<le> month" "month \<le> 12" using v by (simp_all add: valid_date_def)
  have "i32_ok n" using days_from_civil_bounds [OF assms] by (simp add: i32_ok_def)
  from civil_from_days_parts [OF _ _ _ p(3,4) n this p(5) [symmetric]]
  have "civil_from_days n = \<lparr>cd_year = y div 400 * 400 + y mod 400 + of_bool (10 \<le> from_march month),
     cd_month = (if from_march month < 10 then from_march month + 3 else from_march month - 9),
     cd_day = doy - month_start (from_march month) + 1\<rparr>"
    using p(2) by simp
  then show ?thesis using m by (auto simp: y_def doy_def from_march_def)
qed

text \<open>Every day count from 0000-03-01 on is a date of the calendar, and the
  conversion back returns the count.\<close>

lemma civil_from_days_decompose:
  assumes "i32_ok days" "0 \<le> days + 719468"
  obtains era yoe doy mp where
    "0 \<le> era" "0 \<le> yoe" "yoe < 400" "0 \<le> doy" "doy < year_len yoe"
    "days + 719468 = era * 146097 + year_start yoe + doy"
    "mp = (5 * doy + 2) div 153" "0 \<le> mp" "mp \<le> 11"
    "civil_from_days days =
      \<lparr>cd_year = era * 400 + yoe + of_bool (10 \<le> mp),
       cd_month = (if mp < 10 then mp + 3 else mp - 9), cd_day = doy - month_start mp + 1\<rparr>"
proof -
  define z where "z = days + 719468"
  obtain yoe where y: "0 \<le> yoe" "yoe < 400" "year_start yoe \<le> z mod 146097"
      "z mod 146097 < year_start yoe + year_len yoe"
    using year_of_day [of "z mod 146097"] by auto
  define doy where "doy = z mod 146097 - year_start yoe"
  define mp where "mp = (5 * doy + 2) div 153"
  have d: "0 \<le> doy" "doy < year_len yoe" using y by (simp_all add: doy_def)
  have z: "days + 719468 = z div 146097 * 146097 + year_start yoe + doy"
    by (simp add: doy_def z_def)
  have e: "0 \<le> z div 146097" using assms by (simp add: z_def pos_imp_zdiv_nonneg_iff)
  have m: "0 \<le> mp" "mp \<le> 11" using d by (auto simp: mp_def year_len_def split: if_splits)
  show thesis
    by (rule that [OF e y(1,2) d z mp_def m civil_from_days_parts [OF e y(1,2) d z assms(1) mp_def]])
qed

lemma days_of_civil_from_days:
  assumes "i32_ok days" "0 \<le> days + 719468" "in_range days"
  shows "valid_date (civil_from_days days) \<and>
    days_from_civil (cd_year (civil_from_days days)) (cd_month (civil_from_days days))
      (cd_day (civil_from_days days)) = Some days"
proof -
  obtain era yoe doy mp where
    b: "0 \<le> era" "0 \<le> yoe" "yoe < 400" "0 \<le> doy" "doy < year_len yoe"
    and z: "days + 719468 = era * 146097 + year_start yoe + doy"
    and mp: "mp = (5 * doy + 2) div 153" and m: "0 \<le> mp" "mp \<le> 11"
    and c: "civil_from_days days = \<lparr>cd_year = era * 400 + yoe + of_bool (10 \<le> mp),
       cd_month = (if mp < 10 then mp + 3 else mp - 9), cd_day = doy - month_start mp + 1\<rparr>"
    by (rule civil_from_days_decompose [OF assms(1,2)])
  define year month day y where "year = era * 400 + yoe + of_bool (10 \<le> mp)"
    and "month = (if mp < 10 then mp + 3 else mp - 9)" and "day = doy - month_start mp + 1"
    and "y = era * 400 + yoe"
  have month: "1 \<le> month" "month \<le> 12" and fm: "from_march month = mp"
    and le2: "month \<le> 2 \<longleftrightarrow> 10 \<le> mp" and m2: "month = 2 \<longleftrightarrow> mp = 11"
    using m by (auto simp: month_def from_march_def)
  have ym: "y mod 400 = yoe" "y div 400 = era" using b by (simp_all add: y_def)
  have ms: "month_start mp \<le> doy" "doy < month_start (mp + 1)"
    using mp month_of_day [of doy mp] by simp_all
  have leap: "year_len yoe = 365 + of_bool (leap_year (y + 1))" using leap_year_len [of y] ym by simp
  have "day \<le> (if month = 2 then 28 + of_bool (leap_year year)
      else month_start (from_march month + 1) - month_start (from_march month))"
    using b(5) leap ms m2 unfolding fm by (auto simp: day_def year_def y_def month_start_def)
  then have v: "valid_date \<lparr>cd_year = year, cd_month = month, cd_day = day\<rparr>"
    using assms(3) month ms days_in_month_from_march [OF month, of year]
    by (simp add: valid_date_def in_range_def c year_def [symmetric] day_def)
  have y: "y = (if month \<le> 2 then year - 1 else year)" using le2 by (simp add: y_def year_def)
  have d: "doy = month_start (from_march month) + day - 1" by (simp add: fm day_def)
  from days_from_civil_parts(1) [OF v y d]
  have "days_from_civil year month day = Some days" using z by (simp add: ym)
  with v show ?thesis by (simp add: c year_def month_def day_def)
qed

lemma civil_from_days_early:
  assumes "i32_ok days" "days + 719468 < 0"
  shows "cd_year (civil_from_days days) \<le> 0"
proof -
  define z era doe where "z = days + 719468" and "era = (z - 146096) div 146097"
    and "doe = z - era * 146097"
  have z: "z < 0" "- 2146764180 \<le> z" using assms by (simp_all add: z_def i32_ok_def)
  have "z - 146096 = era * 146097 + (z - 146096) mod 146097" by (simp add: era_def)
  moreover have "0 \<le> (z - 146096) mod 146097" "(z - 146096) mod 146097 \<le> 146096" by simp_all
  ultimately have doe: "146096 \<le> doe" "doe \<le> 292192" and era: "era \<le> - 1"
    using z unfolding doe_def by linarith+
  define yoe where "yoe = year_count doe div 365"
  have "year_count 146096 \<le> year_count doe" "year_count doe \<le> year_count 292192"
    using doe by (simp_all add: year_count_mono)
  then have "145999 \<le> year_count doe" "year_count doe \<le> 291998"
    by (simp_all add: year_count_def [of 146096] year_count_def [of 292192])
  from this [THEN zdiv_mono1, of 365] have yoe0: "399 \<le> yoe" "yoe \<le> 799"
    by (simp_all add: yoe_def)
  have top: "yoe + era * 400 \<le> - 1"
  proof (cases "era = - 1")
    case True
    then have "doe = 146096" using z doe unfolding doe_def by linarith
    with True show ?thesis by (simp add: yoe_def year_count_def)
  next
    case False
    then show ?thesis using era yoe0 by linarith
  qed
  have "era * 146097 \<ge> z - 292192" using doe by (simp add: doe_def)
  then have "- 15000 \<le> era" using z by linarith
  then have fits: "i32_ok (yoe + era * 400 + of_bool b)" for b
    using yoe0 top by (cases b) (simp_all add: i32_ok_def)
  have fit: "(case try_fit u32_ok (days + 719468 - era * 146097) of Some d \<Rightarrow> d | None \<Rightarrow> 0) = doe"
    using doe by (simp add: doe_def z_def u32_ok_def)
  have era': "(if days + 719468 \<ge> 0 then days + 719468 else days + 719468 - 146096) div 146097 = era"
    using assms by (simp add: era_def z_def)
  have yoe: "(doe - doe div 1460 + doe div 36524 - doe div 146096) div 365 = yoe"
    by (simp add: yoe_def year_count_def)
  have "\<exists>b. cd_year (civil_from_days days) =
      (case try_fit i32_ok (yoe + era * 400 + of_bool b) of Some y \<Rightarrow> y | None \<Rightarrow> 2147483647)"
    unfolding civil_from_days_def Let_def era' fit yoe civil_date.select_convs by blast
  then obtain b where "cd_year (civil_from_days days) = yoe + era * 400 + of_bool b"
    using fits by auto
  then show ?thesis using top by (simp add: of_bool_def)
qed

lemma in_range_iff:
  assumes "i32_ok days"
  shows "in_range days \<longleftrightarrow> - 719162 \<le> days \<and> days \<le> 2932896"
proof (cases "0 \<le> days + 719468")
  case True
  obtain era yoe doy mp where
    b: "0 \<le> era" "0 \<le> yoe" "yoe < 400" "0 \<le> doy" "doy < year_len yoe"
    and z: "days + 719468 = era * 146097 + year_start yoe + doy"
    and mp: "mp = (5 * doy + 2) div 153" and m: "0 \<le> mp" "mp \<le> 11"
    and c: "civil_from_days days = \<lparr>cd_year = era * 400 + yoe + of_bool (10 \<le> mp),
       cd_month = (if mp < 10 then mp + 3 else mp - 9), cd_day = doy - month_start mp + 1\<rparr>"
    by (rule civil_from_days_decompose [OF assms True])
  have late: "10 \<le> mp \<longleftrightarrow> 306 \<le> doy" by (auto simp: mp)
  have yend: "year_start yoe + year_len yoe \<le> 146097" using b by (simp add: year_end_le)
  have start: "0 \<le> year_start yoe" using b by (simp add: year_start_nonneg)
  have low: "1 \<le> era * 400 + yoe + of_bool (10 \<le> mp) \<longleftrightarrow> 306 \<le> days + 719468"
  proof (cases "era = 0 \<and> yoe = 0")
    case True
    then show ?thesis using late z by (simp add: year_start_def)
  next
    case False
    moreover have "1 \<le> yoe \<Longrightarrow> 365 \<le> year_start yoe"
      using year_start_mono [of 1 yoe] by (simp add: year_start_def)
    ultimately show ?thesis using b start z by (cases "era = 0") auto
  qed
  have high: "era * 400 + yoe + of_bool (10 \<le> mp) \<le> 9999 \<longleftrightarrow> days + 719468 \<le> 3652364"
  proof -
    consider "era < 24" | "era = 24" "yoe < 399" | "era = 24" "yoe = 399" | "25 \<le> era"
      using b by linarith
    then show ?thesis
    proof cases
      case 1
      then show ?thesis using b z yend by (auto simp: of_bool_def)
    next
      case 2
      then have "year_start yoe + year_len yoe \<le> year_start 399"
        using b year_start_step [of yoe] year_start_mono [of "yoe + 1" 399] by simp
      then show ?thesis using 2 b z by (auto simp: of_bool_def year_start_def)
    next
      case 3
      then show ?thesis using z late by (auto simp: of_bool_def year_start_def)
    next
      case 4
      then show ?thesis using b z start by (auto simp: of_bool_def)
    qed
  qed
  show ?thesis using low high by (auto simp: in_range_def c MIN_YEAR_def MAX_YEAR_def)
next
  case False
  then show ?thesis
    using civil_from_days_early [OF assms] by (simp add: in_range_def MIN_YEAR_def)
qed

lemma civil_in_range_roundtrip:
  assumes "i32_ok days" "in_range days"
  shows "valid_date (civil_from_days days) \<and>
    days_from_civil (cd_year (civil_from_days days)) (cd_month (civil_from_days days))
      (cd_day (civil_from_days days)) = Some days"
  using assms days_of_civil_from_days by (simp add: in_range_iff)

text \<open>The day after a valid date, through the closed form.\<close>

lemma days_from_civil_total:
  assumes "valid_date d"
  obtains n where "days_from_civil (cd_year d) (cd_month d) (cd_day d) = Some n"
  using assms days_from_civil_parts(1) [of "cd_year d" "cd_month d" "cd_day d"]
  by (cases d) auto

lemma days_from_civil_next:
  assumes v: "valid_date d" and v': "valid_date (next_date d)"
    and n: "days_from_civil (cd_year d) (cd_month d) (cd_day d) = Some n"
  shows "days_from_civil (cd_year (next_date d)) (cd_month (next_date d)) (cd_day (next_date d)) = Some (n + 1)"
proof -
  obtain year month day where d: "d = \<lparr>cd_year = year, cd_month = month, cd_day = day\<rparr>" by (cases d)
  have m: "1 \<le> month" "month \<le> 12" using v by (simp_all add: d valid_date_def)
  define l where "l = (if month = 2 then 28 + of_bool (leap_year year)
          else month_start (from_march month + 1) - month_start (from_march month))"
  have l: "days_in_month year month = Some l"
    using days_in_month_from_march [OF m] by (simp add: l_def)
  have day: "day \<le> l" using v l by (simp add: d valid_date_def)
  define y doy where "y = (if month \<le> 2 then year - 1 else year)"
    and "doy = month_start (from_march month) + day - 1"
  note p = days_from_civil_parts [OF v [unfolded d] y_def doy_def]
  have n: "n = y div 400 * 146097 + year_start (y mod 400) + doy - 719468" using n p(1) by (simp add: d)
  obtain year' month' day' where d': "next_date d = \<lparr>cd_year = year', cd_month = month', cd_day = day'\<rparr>"
    by (cases "next_date d")
  define y' doy' where "y' = (if month' \<le> 2 then year' - 1 else year')"
    and "doy' = month_start (from_march month') + day' - 1"
  note p' = days_from_civil_parts(1) [OF v' [unfolded d'] y'_def doy'_def]
  consider "month \<noteq> 2 \<or> day < l" | "month = 2" "day = l" using day by linarith
  then have "y' div 400 * 146097 + year_start (y' mod 400) + doy' =
      y div 400 * 146097 + year_start (y mod 400) + doy + 1"
  proof cases
    case 1
    then have "y' = y \<and> doy' = doy + 1"
      using d' day month_cases [OF m] l
      by (auto simp: d next_date_def y_def y'_def doy_def doy'_def l_def from_march_def
          month_start_def split: if_splits)
    then show ?thesis by simp
  next
    case 2
    then have e: "y' = y + 1" "doy' = 0" "year = y + 1" "doy = 364 + of_bool (leap_year year)"
      using d' l by (auto simp: d next_date_def y_def y'_def doy_def doy'_def l_def from_march_def
          month_start_def)
    show ?thesis
    proof (cases "y mod 400 = 399")
      case True
      then have "(y + 1) div 400 = y div 400 + 1" "(y + 1) mod 400 = 0"
        by (simp_all add: int_div_succ int_mod_succ_zero)
      then show ?thesis using leap_year_len [of y] e True by (simp add: year_start_def year_len_def)
    next
      case False
      then have "(y + 1) div 400 = y div 400" by (simp add: int_div_succ)
      moreover from this have "(y + 1) mod 400 = y mod 400 + 1"
        by (simp add: minus_div_mult_eq_mod [symmetric])
      moreover have "y mod 400 < 399" using False pos_mod_bound [of 400 y] by linarith
      ultimately show ?thesis
        using leap_year_len [of y] e year_start_step [of "y mod 400"] by simp
    qed
  qed
  then show ?thesis using p' n by (simp add: d')
qed

lemma next_date_valid:
  assumes "valid_date d" "\<not> (cd_year d = 9999 \<and> cd_month d = 12 \<and> cd_day d = 31)"
  shows "valid_date (next_date d)"
proof -
  have len: "\<exists>l. days_in_month y k = Some l \<and> 1 \<le> l" if "1 \<le> k" "k \<le> 12" for y k
    using month_cases [OF that] by (auto simp: days_in_month_def)
  have v: "1 \<le> cd_month d" "cd_month d \<le> 12" "1 \<le> cd_year d" "cd_year d \<le> 9999" "1 \<le> cd_day d"
    using assms(1) by (simp_all add: valid_date_def MIN_YEAR_def MAX_YEAR_def)
  obtain l where l: "days_in_month (cd_year d) (cd_month d) = Some l" "cd_day d \<le> l"
    using len [OF v(1,2), of "cd_year d"] assms(1) by (auto simp: valid_date_def)
  consider "cd_day d < l" | "cd_day d = l" "cd_month d < 12" | "cd_day d = l" "cd_month d = 12"
    using l v by linarith
  then show ?thesis
  proof cases
    case 1
    then show ?thesis using l v by (simp add: valid_date_def next_date_def MIN_YEAR_def MAX_YEAR_def)
  next
    case 2
    then show ?thesis
      using l v len [of "cd_month d + 1" "cd_year d"]
      by (auto simp: valid_date_def next_date_def MIN_YEAR_def MAX_YEAR_def)
  next
    case 3
    then have "l = 31" using l by (simp add: days_in_month_def)
    with 3 show ?thesis
      using l v assms(2) len [of 1 "cd_year d + 1"]
      by (auto simp: valid_date_def next_date_def MIN_YEAR_def MAX_YEAR_def)
  qed
qed

section \<open>Properties\<close>

text \<open>\<open>days_from_civil\<close> then \<open>civil_from_days\<close> is the identity: every date the
  first accepts is the date the second prints for its day count. It accepts
  exactly the dates of the calendar in years 1 to 9999 (a day is a \<open>u32\<close>,
  so it is not negative).\<close>

theorem days_from_civil_roundtrip:
  assumes "0 \<le> day"
  shows "((\<exists>n. days_from_civil year month day = Some n) \<longleftrightarrow>
        valid_date \<lparr>cd_year = year, cd_month = month, cd_day = day\<rparr>) \<and>
      (\<forall>n. days_from_civil year month day = Some n \<longrightarrow>
        civil_from_days n = \<lparr>cd_year = year, cd_month = month, cd_day = day\<rparr>)"
  using days_from_civil_valid [OF assms]
    days_from_civil_total [of "\<lparr>cd_year = year, cd_month = month, cd_day = day\<rparr>"]
    civil_from_days_of_civil [OF assms]
  by force

theorem days_from_civil_roundtrip_witness:
  "days_from_civil 2024 2 29 = Some 19782 \<and>
   civil_from_days 19782 = \<lparr>cd_year = 2024, cd_month = 2, cd_day = 29\<rparr>"
proof -
  have d: "days_from_civil 2024 2 29 = Some 19782" by code_simp
  show ?thesis using d days_from_civil_roundtrip [of 29 2024 2] by simp
qed

text \<open>On day counts in the civil range \<open>civil_from_days\<close> yields a date of the
  calendar from which \<open>days_from_civil\<close> recovers the count, and the civil range
  of an \<open>i32\<close> day count is exactly 0001-01-01 to 9999-12-31.\<close>

theorem civil_range_exact:
  assumes "i32_ok days"
  shows "(in_range days \<longleftrightarrow> - 719162 \<le> days \<and> days \<le> 2932896) \<and>
    (in_range days \<longrightarrow> valid_date (civil_from_days days) \<and>
      days_from_civil (cd_year (civil_from_days days)) (cd_month (civil_from_days days))
        (cd_day (civil_from_days days)) = Some days)"
  using in_range_iff [OF assms] civil_in_range_roundtrip [OF assms] by blast

theorem civil_range_exact_witness:
  "i32_ok 2932896 \<and> in_range 2932896 \<and> \<not> in_range 2932897 \<and>
   valid_date (civil_from_days 2932896)"
  using civil_range_exact [of 2932896] civil_range_exact [of 2932897] by (simp add: i32_ok_def)

text \<open>Consecutive day counts are consecutive dates: \<open>civil_from_days\<close> steps
  through the calendar exactly as the month lengths and the leap-year rule say,
  from one end of the civil range to the other.\<close>

theorem civil_next_day:
  assumes "i32_ok days" "in_range days" "in_range (days + 1)"
  shows "civil_from_days (days + 1) = next_date (civil_from_days days)"
proof -
  define d where "d = civil_from_days days"
  have d: "valid_date d" "days_from_civil (cd_year d) (cd_month d) (cd_day d) = Some days"
    using civil_in_range_roundtrip [OF assms(1,2)] by (simp_all add: d_def)
  have "days \<le> 2932896" using in_range_iff [OF assms(1)] assms(2) by simp
  moreover have "i32_ok (days + 1)"
    using assms(1) calculation by (simp add: i32_ok_def)
  ultimately have "days \<noteq> 2932896" using in_range_iff assms(3) by force
  moreover have "days_from_civil 9999 12 31 = Some 2932896" by code_simp
  ultimately have "\<not> (cd_year d = 9999 \<and> cd_month d = 12 \<and> cd_day d = 31)" using d(2) by auto
  then have v: "valid_date (next_date d)" by (rule next_date_valid [OF d(1)])
  have "0 \<le> cd_day (next_date d)" using v by (simp add: valid_date_def)
  from civil_from_days_of_civil [OF this days_from_civil_next [OF d(1) v d(2)]]
  show ?thesis by (simp add: d_def)
qed

theorem civil_next_day_witness:
  "civil_from_days (19782 + 1) = next_date (civil_from_days 19782)"
  by (rule civil_next_day) (simp_all add: in_range_iff i32_ok_def)

end
