(* ===== verification/BN_Temporal_Text.thy ===== *)
theory BN_Temporal_Text
  imports BN_Civil
begin

text \<open>
  Temporal text: \<open>crates/bn_core_text/src/temporal.rs\<close>, the parsers of
  \<open>DATE\<close>, \<open>TIME\<close> and RFC 3339 \<open>TIMESTAMP\<close> text. A text is its UTF-8 bytes.
  Slicing is modelled with the panic Rust raises when a slice cuts a
  character, so a parser returns an \<open>outcome\<close> around its \<open>Option\<close>.
\<close>

section \<open>Definitions\<close>

text \<open>\<open>text.parse()\<close> on text that is digits only.\<close>

definition parse_digits :: "str \<Rightarrow> int option" where
  "parse_digits text =
     (if text = [] \<or> \<not> list_all is_ascii_digit text then None else parse_signed i64_ok text)"

text \<open>A slice and its digits: \<open>parse_digits(&text[a..b])?\<close>.\<close>

definition slice_digits :: "str \<Rightarrow> nat \<Rightarrow> nat \<Rightarrow> int option outcome" where
  "slice_digits text a b =
     (case str_slice text a b of Panic \<Rightarrow> Panic | Done s \<Rightarrow> Done (parse_digits s))"

definition parse_ymd :: "str \<Rightarrow> (int \<times> int \<times> int) option outcome" where
  "parse_ymd text =
     (if length text \<noteq> 10 \<or> text ! 4 \<noteq> CHR ''-'' \<or> text ! 7 \<noteq> CHR ''-'' then Done None
      else try_opt (slice_digits text 0 4) (\<lambda>year.
           try_opt (slice_digits text 5 7) (\<lambda>m. try_opt (Done (try_fit u32_ok m)) (\<lambda>month.
           try_opt (slice_digits text 8 10) (\<lambda>d. try_opt (Done (try_fit u32_ok d)) (\<lambda>day.
           try_opt (Done (try_fit i32_ok year)) (\<lambda>year'. Done (Some (year', month, day)))))))))"

definition parse_date :: "str \<Rightarrow> int option outcome" where
  "parse_date text =
     try_opt (parse_ymd text) (\<lambda>(year, month, day). Done (days_from_civil year month day))"

text \<open>The fraction of a second: up to three digits, padded with zeros, more
  digits only when they are zero.\<close>

definition fraction_millis :: "str \<Rightarrow> bool \<Rightarrow> int option" where
  "fraction_millis fraction require_millis =
     (if fraction = [] \<or> \<not> list_all is_ascii_digit fraction
         \<or> (require_millis \<and> length fraction \<noteq> 3)
         \<or> (3 \<le> length fraction \<and> (\<exists>c \<in> set (drop 3 fraction). c \<noteq> CHR ''0''))
      then None
      else Some (int (digits_value (take 3 fraction @ replicate (3 - length fraction) (CHR ''0'')))))"

definition parse_hms :: "str \<Rightarrow> bool \<Rightarrow> int option outcome" where
  "parse_hms text require_millis =
     (if length text < 8 \<or> text ! 2 \<noteq> CHR '':'' \<or> text ! 5 \<noteq> CHR '':'' then Done None
      else try_opt (slice_digits text 0 2) (\<lambda>h. try_opt (Done (try_fit u32_ok h)) (\<lambda>hour.
           try_opt (slice_digits text 3 5) (\<lambda>m. try_opt (Done (try_fit u32_ok m)) (\<lambda>minute.
           try_opt (slice_digits text 6 8) (\<lambda>s. try_opt (Done (try_fit u32_ok s)) (\<lambda>second.
           if hour > 23 \<or> minute > 59 \<or> second > 59 then Done None
           else
             try_opt (Done
               (if length text = 8 \<and> \<not> require_millis then Some 0
                else if 8 < length text \<and> text ! 8 = CHR ''.''
                then fraction_millis (drop 9 text) require_millis
                else None))
               (\<lambda>millis. Done (Some (hour * 3600000 + minute * 60000 + second * 1000 + millis))))))))))"

text \<open>\<open>rfind\<close> of a sign and \<open>find\<close> of a byte: the index, when there is one.\<close>

fun find_index :: "(char \<Rightarrow> bool) \<Rightarrow> str \<Rightarrow> nat option" where
  "find_index p [] = None"
| "find_index p (c # s) = (if p c then Some 0 else map_option Suc (find_index p s))"

definition rfind_index :: "(char \<Rightarrow> bool) \<Rightarrow> str \<Rightarrow> nat option" where
  "rfind_index p s = map_option (\<lambda>i. length s - 1 - i) (find_index p (rev s))"

definition split_offset :: "str \<Rightarrow> (str \<times> int) option outcome" where
  "split_offset text =
     (case strip_suffix ''Z'' text of
        Some time \<Rightarrow> Done (Some (time, 0))
      | None \<Rightarrow>
          (case rfind_index (\<lambda>c. c = CHR ''+'' \<or> c = CHR ''-'') text of
             None \<Rightarrow> Done None
           | Some sign_index \<Rightarrow>
               if sign_index < 8 then Done None
               else
                 let time = take sign_index text;
                     offset_text = drop sign_index text;
                     sign = (if take 1 offset_text = ''+'' then 1 else - 1);
                     offset = drop 1 offset_text
                 in if length offset \<noteq> 5 \<or> offset ! 2 \<noteq> CHR '':'' then Done None
                    else try_opt (slice_digits offset 0 2) (\<lambda>h. try_opt (Done (try_fit i32_ok h)) (\<lambda>hours.
                         try_opt (slice_digits offset 3 5) (\<lambda>m. try_opt (Done (try_fit i32_ok m)) (\<lambda>minutes.
                         if hours > 23 \<or> minutes > 59 then Done None
                         else Done (Some (time, sign * (hours * 3600000 + minutes * 60000)))))))))"

definition parse_rfc3339 :: "str \<Rightarrow> int option outcome" where
  "parse_rfc3339 text =
     try_opt (Done (find_index (\<lambda>c. c = CHR ''T'') text)) (\<lambda>separator.
     let date = take separator text; rest = drop (separator + 1) text
     in try_opt (split_offset rest) (\<lambda>(time, offset).
        try_opt (parse_ymd date) (\<lambda>(year, month, day).
        try_opt (Done (days_from_civil year month day)) (\<lambda>days.
        try_opt (parse_hms time False) (\<lambda>millis.
        try_opt (Done (try_fit i64_ok (days * DAY_MS + millis - offset))) (\<lambda>timestamp.
        try_opt (Done (try_fit i32_ok (timestamp div DAY_MS))) (\<lambda>utc_days.
        Done (if in_range utc_days then Some timestamp else None))))))))"

section \<open>Slices and digits\<close>

lemma slice_digits_ascii:
  "list_all is_ascii text \<Longrightarrow> a \<le> b \<Longrightarrow> b \<le> length text \<Longrightarrow>
   slice_digits text a b = Done (parse_digits (take (b - a) (drop a text)))"
  by (simp add: slice_digits_def str_slice_at_boundary ascii_char_boundary)

lemma parse_digits_small:
  assumes "list_all is_ascii_digit s" "s \<noteq> []" "length s \<le> 18"
  shows "parse_digits s = Some (int (digits_value s))"
proof -
  have "digits_value s < 10 ^ 18"
    using digits_value_bound [OF assms(1)] power_increasing [OF assms(3), of "10::nat"] by simp
  then have "i64_ok (int (digits_value s))" by (simp add: i64_ok_def)
  with assms show ?thesis by (simp add: parse_digits_def parse_signed_digits)
qed

lemma parse_digits_SomeE:
  assumes "parse_digits s = Some v"
  shows "list_all is_ascii_digit s" "v = int (digits_value s)" "0 \<le> v"
  using assms by (auto simp: parse_digits_def parse_signed_digits split: if_splits)

lemma slice_digits_SomeE:
  assumes "slice_digits text a b = Done (Some v)"
  shows "0 \<le> v" "v = int (digits_value (take (b - a) (drop a text)))"
    "list_all is_ascii_digit (take (b - a) (drop a text))"
  using assms parse_digits_SomeE [of "take (b - a) (drop a text)" v]
  by (auto simp: slice_digits_def str_slice_def split: outcome.splits if_splits)

lemma slice_digits_no_panic:
  assumes "a \<le> b" "b \<le> length text" "is_char_boundary text a" "is_char_boundary text b"
  shows "slice_digits text a b \<noteq> Panic"
  using assms by (simp add: slice_digits_def str_slice_at_boundary)

text \<open>The three date fields and the four time fields of fixed width.\<close>

lemma parse_ymd_fields:
  assumes "list_all is_ascii_digit y" "list_all is_ascii_digit m" "list_all is_ascii_digit d"
    "length y = 4" "length m = 2" "length d = 2"
  shows "parse_ymd (y @ ''-'' @ m @ ''-'' @ d) =
    Done (Some (int (digits_value y), int (digits_value m), int (digits_value d)))"
proof -
  obtain y0 y1 y2 y3 where y: "y = [y0, y1, y2, y3]" using assms(4) by (rule length4E)
  obtain m0 m1 where m: "m = [m0, m1]" using assms(5) by (rule length2E)
  obtain d0 d1 where d: "d = [d0, d1]" using assms(6) by (rule length2E)
  define input where "input = y @ ''-'' @ m @ ''-'' @ d"
  have ascii: "list_all is_ascii input" using assms by (simp add: input_def digits_are_ascii)
  have len: "length input = 10" using assms by (simp add: input_def)
  have "take (4 - 0) (drop 0 input) = y" "take (7 - 5) (drop 5 input) = m" "take (10 - 8) (drop 8 input) = d"
    "input ! 4 = CHR ''-''" "input ! 7 = CHR ''-''"
    by (simp_all add: input_def y m d)
  moreover have "parse_digits y = Some (int (digits_value y))" "parse_digits m = Some (int (digits_value m))"
    "parse_digits d = Some (int (digits_value d))"
    using assms by (simp_all add: parse_digits_small y m d)
  moreover have "digits_value y < 10000" "digits_value m < 100" "digits_value d < 100"
    using digits_value_bound [OF assms(1)] digits_value_bound [OF assms(2)]
      digits_value_bound [OF assms(3)] assms(4-6) by simp_all
  ultimately have "parse_ymd input = Done (Some (int (digits_value y), int (digits_value m), int (digits_value d)))"
    using assms(6)
    by (simp add: parse_ymd_def len slice_digits_ascii [OF ascii] u32_ok_def i32_ok_def)
  then show ?thesis by (simp add: input_def)
qed

lemma parse_hms_fields:
  assumes "list_all is_ascii_digit h" "list_all is_ascii_digit m" "list_all is_ascii_digit s"
    "list_all is_ascii_digit f" "length h = 2" "length m = 2" "length s = 2" "length f = 3"
    and r: "digits_value h \<le> 23" "digits_value m \<le> 59" "digits_value s \<le> 59"
  shows "parse_hms (h @ '':'' @ m @ '':'' @ s @ ''.'' @ f) req =
    Done (Some (int (digits_value h) * 3600000 + int (digits_value m) * 60000 +
      int (digits_value s) * 1000 + int (digits_value f)))"
proof -
  obtain h0 h1 where h: "h = [h0, h1]" using assms(5) by (rule length2E)
  obtain m0 m1 where m: "m = [m0, m1]" using assms(6) by (rule length2E)
  obtain s0 s1 where s: "s = [s0, s1]" using assms(7) by (rule length2E)
  obtain f0 f1 f2 where f: "f = [f0, f1, f2]" using assms(8) by (rule length3E)
  define input where "input = h @ '':'' @ m @ '':'' @ s @ ''.'' @ f"
  have ascii: "list_all is_ascii input" using assms by (simp add: input_def digits_are_ascii)
  have len: "length input = 12" using assms by (simp add: input_def)
  have "take (2 - 0) (drop 0 input) = h" "take (5 - 3) (drop 3 input) = m" "take (8 - 6) (drop 6 input) = s"
    "input ! 2 = CHR '':''" "input ! 5 = CHR '':''" "input ! 8 = CHR ''.''" "drop 9 input = f"
    by (simp_all add: input_def h m s f)
  moreover have "parse_digits h = Some (int (digits_value h))" "parse_digits m = Some (int (digits_value m))"
    "parse_digits s = Some (int (digits_value s))"
    using assms by (simp_all add: parse_digits_small h m s)
  moreover have "fraction_millis f req = Some (int (digits_value f))"
    using assms by (auto simp: fraction_millis_def)
  ultimately have "parse_hms input req = Done (Some (int (digits_value h) * 3600000 + int (digits_value m) * 60000 +
      int (digits_value s) * 1000 + int (digits_value f)))"
    using r by (simp add: parse_hms_def len slice_digits_ascii [OF ascii] u32_ok_def)
  then show ?thesis by (simp add: input_def)
qed

section \<open>The printed forms parse back\<close>

lemma format_date_fields:
  assumes "i32_ok days" "in_range days"
  obtains y m d where "format_date days = y @ ''-'' @ m @ ''-'' @ d"
    "list_all is_ascii_digit y" "list_all is_ascii_digit m" "list_all is_ascii_digit d"
    "length y = 4" "length m = 2" "length d = 2"
    "int (digits_value y) = cd_year (civil_from_days days)"
    "int (digits_value m) = cd_month (civil_from_days days)"
    "int (digits_value d) = cd_day (civil_from_days days)"
proof -
  define c where "c = civil_from_days days"
  have "valid_date c" using civil_in_range_roundtrip [OF assms] by (simp add: c_def)
  then have b: "1 \<le> cd_year c" "cd_year c \<le> 9999" "1 \<le> cd_month c" "cd_month c \<le> 12" "1 \<le> cd_day c"
      "cd_day c \<le> 31"
    by (auto simp: valid_date_def MIN_YEAR_def MAX_YEAR_def days_in_month_def split: if_splits)
  show thesis
    using b that [of "show_pad 4 (cd_year c)" "show_pad 2 (cd_month c)" "show_pad 2 (cd_day c)"]
    by (simp add: format_date_def c_def [symmetric] Let_def show_pad_nonneg length_show_pad)
qed

lemma parse_date_format:
  assumes "i32_ok days" "in_range days"
  shows "parse_date (format_date days) = Done (Some days)"
    and "try_opt (parse_ymd (format_date days)) (\<lambda>(y, m, d). Done (days_from_civil y m d)) = Done (Some days)"
proof -
  obtain y m d where f: "format_date days = y @ ''-'' @ m @ ''-'' @ d"
    and p: "list_all is_ascii_digit y" "list_all is_ascii_digit m" "list_all is_ascii_digit d"
      "length y = 4" "length m = 2" "length d = 2"
    and v: "int (digits_value y) = cd_year (civil_from_days days)"
      "int (digits_value m) = cd_month (civil_from_days days)"
      "int (digits_value d) = cd_day (civil_from_days days)"
    by (rule format_date_fields [OF assms])
  show "try_opt (parse_ymd (format_date days)) (\<lambda>(y, m, d). Done (days_from_civil y m d)) = Done (Some days)"
    unfolding f parse_ymd_fields [OF p] v using civil_in_range_roundtrip [OF assms] by simp
  then show "parse_date (format_date days) = Done (Some days)"
    unfolding parse_date_def .
qed

lemma parse_hms_format:
  assumes "0 \<le> millis" "millis < DAY_MS"
  shows "parse_hms (format_time millis) req = Done (Some millis)"
proof -
  define h m s f where "h = millis div 3600000" and "m = millis mod 3600000 div 60000"
    and "s = millis mod 60000 div 1000" and "f = millis mod 1000"
  have "millis mod 3600000 mod 60000 = millis mod 60000" "millis mod 60000 mod 1000 = f"
    by (simp_all add: mod_mod_cancel f_def)
  then have "3600000 * h + millis mod 3600000 = millis" "60000 * m + millis mod 60000 = millis mod 3600000"
    "1000 * s + f = millis mod 60000"
    using mult_div_mod_eq [of 60000 "millis mod 3600000"] mult_div_mod_eq [of 1000 "millis mod 60000"]
    by (simp_all add: h_def m_def s_def)
  then have sum: "h * 3600000 + m * 60000 + s * 1000 + f = millis" by linarith
  have up: "x div k \<le> c div k" if "x \<le> c" "0 < k" for x k c :: int using that by (rule zdiv_mono1)
  have b: "0 \<le> h" "h \<le> 23" "0 \<le> m" "m \<le> 59" "0 \<le> s" "s \<le> 59" "0 \<le> f" "f \<le> 999"
    using assms up [of millis 86399999 3600000] up [of "millis mod 3600000" 3599999 60000]
      up [of "millis mod 60000" 59999 1000]
    by (simp_all add: h_def m_def s_def f_def DAY_MS_def pos_imp_zdiv_nonneg_iff)
  have "parse_hms (show_pad 2 h @ '':'' @ show_pad 2 m @ '':'' @ show_pad 2 s @ ''.'' @ show_pad 3 f) req =
      Done (Some (h * 3600000 + m * 60000 + s * 1000 + f))"
    using b by (subst parse_hms_fields) (simp_all add: show_pad_nonneg length_show_pad)
  then show ?thesis
    unfolding format_time_def civil_time_def sum by (simp add: h_def m_def s_def f_def)
qed

lemma find_index_append:
  "\<forall>c \<in> set xs. \<not> p c \<Longrightarrow> p c \<Longrightarrow> find_index p (xs @ c # ys) = Some (length xs)"
  by (induction xs) auto

lemma digits_no_separator:
  "list_all is_ascii_digit s \<Longrightarrow> \<forall>c \<in> set s. c \<noteq> CHR ''T''"
  by (auto simp: list_all_iff is_ascii_digit_def byte_def)

lemma format_date_no_separator:
  assumes "i32_ok days" "in_range days"
  shows "\<forall>c \<in> set (format_date days). c \<noteq> CHR ''T''"
  by (rule format_date_fields [OF assms]) (auto dest: digits_no_separator)

lemma civil_split_SomeE:
  assumes "civil_split t = Some (days, millis)"
  shows "i32_ok days" "in_range days" "0 \<le> millis" "millis < DAY_MS" "t = days * DAY_MS + millis"
  using assms by (auto simp: civil_split_def DAY_MS_def split: option.splits if_splits)

lemma split_offset_Z: "split_offset (time @ ''Z'') = Done (Some (time, 0))"
  unfolding split_offset_def strip_suffix_append by simp

lemma parse_rfc3339_parts:
  assumes "i32_ok days" "in_range days" "0 \<le> millis" "millis < DAY_MS"
    and tail: "split_offset (format_time millis @ suffix) = Done (Some (format_time millis, offset))"
    and t: "t = days * DAY_MS + millis - offset" "i64_ok t" "civil_split t \<noteq> None"
  shows "parse_rfc3339 (format_date days @ CHR ''T'' # (format_time millis @ suffix)) = Done (Some t)"
    (is "parse_rfc3339 ?s = _")
proof -
  have i: "find_index (\<lambda>c. c = CHR ''T'') ?s = Some (length (format_date days))"
    by (rule find_index_append) (use format_date_no_separator [OF assms(1,2)] in auto)
  have rest: "take (length (format_date days)) ?s = format_date days"
      "drop (length (format_date days) + 1) ?s = format_time millis @ suffix"
    by simp_all
  obtain ymd where ymd: "parse_ymd (format_date days) = Done (Some ymd)"
      and days: "(case ymd of (y, m, d) \<Rightarrow> Done (days_from_civil y m d)) = Done (Some days)"
    using parse_date_format(2) [OF assms(1,2)] by (elim try_opt_SomeE) auto
  have "i32_ok (t div DAY_MS)" "in_range (t div DAY_MS)"
    using t(3) by (auto simp: civil_split_def split: option.splits if_splits)
  then show ?thesis
    using days t(2)
    unfolding parse_rfc3339_def i try_opt.simps Let_def rest tail ymd
    by (simp add: case_prod_beta' parse_hms_format assms(3,4) flip: t(1))
qed

lemma parse_rfc3339_of_rfc3339:
  assumes "i64_ok t" "rfc3339 t = Some s"
  shows "parse_rfc3339 s = Done (Some t)"
proof -
  obtain days millis where sp: "civil_split t = Some (days, millis)"
      and s: "s = format_date days @ CHR ''T'' # (format_time millis @ ''Z'')"
    using assms(2) by (auto simp: rfc3339_def split: option.splits)
  note c = civil_split_SomeE [OF sp]
  show ?thesis
    unfolding s using c assms(1) sp
    by (intro parse_rfc3339_parts [where offset = 0]) (simp_all add: split_offset_Z)
qed

text \<open>The numeric offset: the last sign of the text starts it.\<close>

lemma rfind_index_last:
  assumes "\<forall>c \<in> set ys. \<not> p c" "p c"
  shows "rfind_index p (xs @ c # ys) = Some (length xs)"
  using find_index_append [of "rev ys" p c "rev xs"] assms by (simp add: rfind_index_def)

lemma split_offset_signed:
  assumes "list_all is_ascii_digit h" "list_all is_ascii_digit m" "length h = 2" "length m = 2"
    and "digits_value h \<le> 23" "digits_value m \<le> 59" "8 \<le> length time"
    and sign: "sign = CHR ''+'' \<and> k = 1 \<or> sign = CHR ''-'' \<and> k = - 1"
  shows "split_offset (time @ sign # (h @ '':'' @ m)) =
    Done (Some (time, k * (int (digits_value h) * 3600000 + int (digits_value m) * 60000)))"
proof -
  obtain h0 h1 where h: "h = [h0, h1]" using assms(3) by (rule length2E)
  obtain m0 m1 where m: "m = [m0, m1]" using assms(4) by (rule length2E)
  define offset where "offset = h @ '':'' @ m"
  have digit: "\<not> (c = CHR ''+'' \<or> c = CHR ''-'')" "c \<noteq> CHR ''Z''" if "is_ascii_digit c" for c
    using that by (auto simp: is_ascii_digit_def byte_def)
  have nz: "strip_suffix ''Z'' (time @ sign # offset) = None"
    using digit(2) [of m1] assms(2) strip_suffix_snoc_neq [of "CHR ''Z''" m1 "time @ sign # (h @ '':'' @ [m0])"]
    by (simp add: offset_def m)
  have r: "rfind_index (\<lambda>c. c = CHR ''+'' \<or> c = CHR ''-'') (time @ sign # offset) = Some (length time)"
    by (rule rfind_index_last) (use sign digit(1) assms(1,2) in \<open>auto simp: offset_def h m\<close>)
  have ascii: "list_all is_ascii offset"
    using assms(1,2) by (simp add: offset_def digits_are_ascii)
  have parts: "length offset = 5" "offset ! 2 = CHR '':''" "take (2 - 0) (drop 0 offset) = h"
      "take (5 - 3) (drop 3 offset) = m"
    by (simp_all add: offset_def h m)
  have small: "i32_ok (int (digits_value h))" "i32_ok (int (digits_value m))"
    using assms(5,6) by (simp_all add: i32_ok_def)
  have pd: "parse_digits h = Some (int (digits_value h))" "parse_digits m = Some (int (digits_value m))"
    using assms(1-4) by (simp_all add: parse_digits_small h m)
  have sd: "slice_digits offset 0 2 = Done (Some (int (digits_value h)))"
      "slice_digits offset 3 5 = Done (Some (int (digits_value m)))"
    using parts assms(4) by (simp_all add: slice_digits_ascii [OF ascii] pd)
  have "split_offset (time @ sign # offset) =
      Done (Some (time, k * (int (digits_value h) * 3600000 + int (digits_value m) * 60000)))"
    using sign assms(5-7) parts(2) sd
    unfolding split_offset_def nz r option.case
    by (elim disjE) (simp_all add: Let_def parts(1) parts(2) [unfolded numeral_2_eq_2] small)
  then show ?thesis by (simp add: offset_def)
qed

section \<open>Ranges and panics\<close>

lemma fraction_millis_range:
  assumes "fraction_millis f req = Some v" shows "0 \<le> v \<and> v < 1000"
proof -
  have f: "list_all is_ascii_digit f"
    and v: "v = int (digits_value (take 3 f @ replicate (3 - length f) (CHR ''0'')))"
    using assms by (auto simp: fraction_millis_def split: if_splits)
  have "digits_value (take 3 f @ replicate (3 - length f) (CHR ''0'')) <
      10 ^ length (take 3 f @ replicate (3 - length f) (CHR ''0''))"
    using f by (intro digits_value_bound) simp
  also have "length (take 3 f @ replicate (3 - length f) (CHR ''0'')) = 3" by simp
  finally show ?thesis by (simp add: v)
qed

lemma parse_hms_range:
  assumes "parse_hms input req = Done (Some v)" shows "0 \<le> v \<and> v < DAY_MS"
  using assms unfolding parse_hms_def
  by (auto elim!: try_opt_SomeE dest!: slice_digits_SomeE(1) fraction_millis_range
      simp: DAY_MS_def split: if_splits)

lemma parse_ymd_no_panic: "valid_utf8 input \<Longrightarrow> parse_ymd input \<noteq> Panic"
proof (cases "length input \<noteq> 10 \<or> input ! 4 \<noteq> CHR ''-'' \<or> input ! 7 \<noteq> CHR ''-''")
  case True
  then show ?thesis by (simp add: parse_ymd_def)
next
  case False
  assume v: "valid_utf8 input"
  from False have len: "length input = 10" and c: "input ! 4 = CHR ''-''" "input ! 7 = CHR ''-''" by auto
  have b: "is_char_boundary input 0" "is_char_boundary input 10"
    using len by (simp_all add: is_char_boundary_def)
  have b': "is_char_boundary input 4" "is_char_boundary input 7" "is_char_boundary input 5"
      "is_char_boundary input 8"
    using len c boundary_after_ascii [OF v, of 4] boundary_after_ascii [OF v, of 7]
    by (simp_all add: boundary_at_ascii)
  have "slice_digits input 0 4 \<noteq> Panic" "slice_digits input 5 7 \<noteq> Panic" "slice_digits input 8 10 \<noteq> Panic"
    using b b' len by (intro slice_digits_no_panic; simp)+
  moreover have "parse_ymd input = try_opt (slice_digits input 0 4) (\<lambda>year.
           try_opt (slice_digits input 5 7) (\<lambda>m. try_opt (Done (try_fit u32_ok m)) (\<lambda>month.
           try_opt (slice_digits input 8 10) (\<lambda>d. try_opt (Done (try_fit u32_ok d)) (\<lambda>day.
           try_opt (Done (try_fit i32_ok year)) (\<lambda>year'. Done (Some (year', month, day))))))))"
    using False by (simp add: parse_ymd_def)
  ultimately show ?thesis by (simp only:) (intro try_opt_no_panic; simp)
qed

text \<open>A time panics exactly when its two hours and two minutes are digits and
  byte 8 is inside a character.\<close>

lemma slice_digits_value:
  assumes "a < b" "b \<le> length input" "b - a \<le> 18" "is_char_boundary input a" "is_char_boundary input b"
  shows "slice_digits input a b =
    Done (if list_all is_ascii_digit (take (b - a) (drop a input))
          then Some (int (digits_value (take (b - a) (drop a input)))) else None)"
  using assms by (auto simp: slice_digits_def str_slice_at_boundary parse_digits_small)
    (auto simp: parse_digits_def)

lemma parse_hms_panic_iff:
  assumes v: "valid_utf8 input"
  shows "parse_hms input req = Panic \<longleftrightarrow>
    8 \<le> length input \<and> input ! 2 = CHR '':'' \<and> input ! 5 = CHR '':'' \<and>
    list_all is_ascii_digit (take 2 input) \<and> list_all is_ascii_digit (take 2 (drop 3 input)) \<and>
    \<not> is_char_boundary input 8"
proof (cases "length input < 8 \<or> input ! 2 \<noteq> CHR '':'' \<or> input ! 5 \<noteq> CHR '':''")
  case True
  then show ?thesis by (auto simp: parse_hms_def)
next
  case False
  then have len: "8 \<le> length input" and c: "input ! 2 = CHR '':''" "input ! 5 = CHR '':''" by auto
  have b: "is_char_boundary input 0" "is_char_boundary input 2" "is_char_boundary input 5"
      "is_char_boundary input 3" "is_char_boundary input 6"
    using len c boundary_after_ascii [OF v, of 2] boundary_after_ascii [OF v, of 5]
      boundary_at_ascii [of 2 input] boundary_at_ascii [of 5 input]
    by (simp_all add: is_char_boundary_def [of input 0])
  have h: "slice_digits input 0 2 = Done (if list_all is_ascii_digit (take 2 input)
      then Some (int (digits_value (take 2 input))) else None)"
    using b len by (subst slice_digits_value) simp_all
  have m: "slice_digits input 3 5 = Done (if list_all is_ascii_digit (take 2 (drop 3 input))
      then Some (int (digits_value (take 2 (drop 3 input)))) else None)"
    using b len by (subst slice_digits_value) simp_all
  have s: "slice_digits input 6 8 = Panic \<longleftrightarrow> \<not> is_char_boundary input 8"
    using b len by (auto simp: slice_digits_def str_slice_def)
  have small: "u32_ok (int (digits_value (take 2 t)))" if "list_all is_ascii_digit (take 2 t)" for t
    using digits_value_bound [OF that] power_increasing [of "length (take 2 t)" 2 "10::nat"]
    by (simp add: u32_ok_def)
  have tail: "try_opt m' f = Panic \<longleftrightarrow> m' = Panic" if "\<And>x. f x \<noteq> Panic"
    for m' :: "int option outcome" and f :: "int \<Rightarrow> int option outcome"
    using that by (cases "(m', f)" rule: try_opt.cases) auto
  show ?thesis
    using False small [of input] small [of "drop 3 input"]
    unfolding parse_hms_def h m
    by (auto simp: s tail try_opt_Done_eq split: option.splits if_splits)
qed

lemma parse_date_no_panic: "valid_utf8 input \<Longrightarrow> parse_date input \<noteq> Panic"
  unfolding parse_date_def by (intro try_opt_no_panic parse_ymd_no_panic) (auto split: prod.splits)

lemma parse_rfc3339_printable:
  assumes "parse_rfc3339 input = Done (Some t)" shows "i64_ok t \<and> rfc3339 t \<noteq> None"
proof -
  have "i64_ok t" "i32_ok (t div DAY_MS)" "in_range (t div DAY_MS)"
    using assms unfolding parse_rfc3339_def Let_def
    by (auto elim!: try_opt_SomeE split: prod.splits if_splits)
  moreover have "u32_ok (t mod DAY_MS)"
    using pos_mod_bound [of DAY_MS t] by (simp add: u32_ok_def DAY_MS_def)
  ultimately show ?thesis by (simp add: rfc3339_def civil_split_def)
qed

section \<open>Properties\<close>

text \<open>\<open>parse_rfc3339\<close> inverts \<open>rfc3339\<close>: the canonical text of a timestamp in
  the civil range parses to the same timestamp, and it has one exactly when its
  UTC day lies in years 1 to 9999.\<close>

theorem rfc3339_roundtrip:
  assumes "i64_ok t" "rfc3339 t = Some s"
  shows "parse_rfc3339 s = Done (Some t)"
  using assms by (rule parse_rfc3339_of_rfc3339)

theorem rfc3339_roundtrip_witness:
  "rfc3339 1709210096789 = Some ''2024-02-29T12:34:56.789Z'' \<and>
   parse_rfc3339 ''2024-02-29T12:34:56.789Z'' = Done (Some 1709210096789)"
proof -
  have r: "rfc3339 1709210096789 = Some ''2024-02-29T12:34:56.789Z''" by code_simp
  have "i64_ok 1709210096789" by (simp add: i64_ok_def)
  from rfc3339_roundtrip [OF this r] r show ?thesis by blast
qed

text \<open>\<open>DATE\<close> and \<open>TIME\<close> text round-trips: printing a day count of the civil
  range or a time of day and parsing the text, with or without the
  requirement of a fraction, returns the value.\<close>

theorem date_time_text_roundtrip:
  assumes "i32_ok days" "in_range days" "0 \<le> millis" "millis < DAY_MS"
  shows "parse_date (format_date days) = Done (Some days) \<and>
    parse_hms (format_time millis) req = Done (Some millis)"
  using parse_date_format(1) [OF assms(1,2)] parse_hms_format [OF assms(3,4)] by simp

theorem date_time_text_roundtrip_witness:
  "parse_date (format_date (- 719162)) = Done (Some (- 719162)) \<and>
   parse_hms (format_time 86399999) True = Done (Some 86399999)"
  using date_time_text_roundtrip [of "- 719162" 86399999 True]
  by (simp add: in_range_iff i32_ok_def DAY_MS_def)

text \<open>What the parsers accept is in range: a parsed time of day is less than
  a day, and a parsed timestamp is one \<open>rfc3339\<close> can print.\<close>

theorem parsed_temporal_in_range:
  "(\<forall>v. parse_hms input req = Done (Some v) \<longrightarrow> 0 \<le> v \<and> v < DAY_MS) \<and>
   (\<forall>t. parse_rfc3339 input = Done (Some t) \<longrightarrow> i64_ok t \<and> rfc3339 t \<noteq> None)"
  using parse_hms_range parse_rfc3339_printable by blast

theorem parsed_temporal_in_range_witness:
  "parse_rfc3339 ''2024-02-29T23:34:56.5-02:30'' = Done (Some 1709258696500) \<and>
   rfc3339 1709258696500 \<noteq> None"
proof -
  have p: "parse_rfc3339 ''2024-02-29T23:34:56.5-02:30'' = Done (Some 1709258696500)" by code_simp
  with parsed_temporal_in_range [of "''2024-02-29T23:34:56.5-02:30''"] show ?thesis by blast
qed

text \<open>On well-formed UTF-8 text the date parser never panics, and the time
  parser panics exactly when the text has the shape \<open>dd:dd:\<close> of digits and
  colons and its byte 8 lies inside a character: \<open>00:00:0\<close> followed by a
  two-byte letter does.\<close>

theorem temporal_panics:
  assumes "valid_utf8 input"
  shows "parse_date input \<noteq> Panic \<and>
    (parse_hms input req = Panic \<longleftrightarrow>
      8 \<le> length input \<and> input ! 2 = CHR '':'' \<and> input ! 5 = CHR '':'' \<and>
      list_all is_ascii_digit (take 2 input) \<and> list_all is_ascii_digit (take 2 (drop 3 input)) \<and>
      \<not> is_char_boundary input 8)"
  using parse_hms_panic_iff [OF assms] parse_date_no_panic [OF assms] by blast

theorem temporal_panics_witness:
  "valid_utf8 (''00:00:0'' @ [char_of (195::nat), char_of (169::nat)]) \<and>
   parse_hms (''00:00:0'' @ [char_of (195::nat), char_of (169::nat)]) False = Panic"
proof -
  have v: "valid_utf8 (''00:00:0'' @ [char_of (195::nat), char_of (169::nat)])" by code_simp
  have "\<not> is_char_boundary (''00:00:0'' @ [char_of (195::nat), char_of (169::nat)]) 8" by code_simp
  then show ?thesis
    using v temporal_panics [OF v, of False] by (simp add: is_ascii_digit_def byte_def)
qed

end
