(* ===== verification/BN_Time_Zone.thy ===== *)
theory BN_Time_Zone
  imports BN_Temporal_Text
begin

text \<open>
  Time zones: \<open>crates/bn_core_text/src/timezone.rs\<close> and \<open>is_timezone_id\<close> of
  \<open>crates/bn_types/src/text.rs\<close>. The table of zones is the source's, one
  definition per region; the daylight-saving rules, the conversion of a UTC
  timestamp to zone text and of a local time to UTC follow the code. A name is
  its UTF-8 bytes, so \<open>lookup_timezone\<close> can panic where \<open>split_at\<close> does. All
  integers are exact: the code's \<open>i32\<close> and \<open>i64\<close> values stay far from their
  bounds once a day count comes from \<open>days_from_civil\<close> or \<open>split\<close>.
\<close>

section \<open>Definitions\<close>

definition SECONDS_PER_MINUTE :: int where "SECONDS_PER_MINUTE = 60"
definition SECONDS_PER_HOUR :: int where "SECONDS_PER_HOUR = 3600"
definition MILLIS_PER_SECOND :: int where "MILLIS_PER_SECOND = 1000"
definition MILLIS_PER_HOUR :: int where "MILLIS_PER_HOUR = 3600000"
definition MILLIS_PER_DAY :: int where "MILLIS_PER_DAY = 86400000"
definition ONE_HOUR_DST_SECS :: int where "ONE_HOUR_DST_SECS = 3600"

lemmas zone_consts = SECONDS_PER_MINUTE_def SECONDS_PER_HOUR_def MILLIS_PER_SECOND_def
  MILLIS_PER_HOUR_def MILLIS_PER_DAY_def ONE_HOUR_DST_SECS_def

datatype dst_rule = NoDst | UsCanada | EuUk | Brazil | AuEast | Nz

record time_zone_info =
  base_offset :: int
  rule :: dst_rule

definition TIMEZONES_UTC :: "(str \<times> time_zone_info) list" where
  "TIMEZONES_UTC =
     [(''UTC'', \<lparr>base_offset = 0, rule = NoDst\<rparr>),
      (''Etc/UTC'', \<lparr>base_offset = 0, rule = NoDst\<rparr>),
      (''Etc/GMT'', \<lparr>base_offset = 0, rule = NoDst\<rparr>),
      (''GMT'', \<lparr>base_offset = 0, rule = NoDst\<rparr>)]"

definition TIMEZONES_NORTH_AMERICA :: "(str \<times> time_zone_info) list" where
  "TIMEZONES_NORTH_AMERICA =
     [(''America/New_York'', \<lparr>base_offset = - 5 * SECONDS_PER_HOUR, rule = UsCanada\<rparr>),
      (''America/Detroit'', \<lparr>base_offset = - 5 * SECONDS_PER_HOUR, rule = UsCanada\<rparr>),
      (''America/Chicago'', \<lparr>base_offset = - 6 * SECONDS_PER_HOUR, rule = UsCanada\<rparr>),
      (''America/Denver'', \<lparr>base_offset = - 7 * SECONDS_PER_HOUR, rule = UsCanada\<rparr>),
      (''America/Phoenix'', \<lparr>base_offset = - 7 * SECONDS_PER_HOUR, rule = NoDst\<rparr>),
      (''America/Los_Angeles'', \<lparr>base_offset = - 8 * SECONDS_PER_HOUR, rule = UsCanada\<rparr>),
      (''America/Anchorage'', \<lparr>base_offset = - 9 * SECONDS_PER_HOUR, rule = UsCanada\<rparr>),
      (''America/Honolulu'', \<lparr>base_offset = - 10 * SECONDS_PER_HOUR, rule = NoDst\<rparr>),
      (''America/Toronto'', \<lparr>base_offset = - 5 * SECONDS_PER_HOUR, rule = UsCanada\<rparr>),
      (''America/Vancouver'', \<lparr>base_offset = - 8 * SECONDS_PER_HOUR, rule = UsCanada\<rparr>)]"

definition TIMEZONES_EUROPE :: "(str \<times> time_zone_info) list" where
  "TIMEZONES_EUROPE =
     [(''Europe/London'', \<lparr>base_offset = 0, rule = EuUk\<rparr>),
      (''Europe/Dublin'', \<lparr>base_offset = 0, rule = EuUk\<rparr>),
      (''Europe/Lisbon'', \<lparr>base_offset = 0, rule = EuUk\<rparr>),
      (''Europe/Paris'', \<lparr>base_offset = SECONDS_PER_HOUR, rule = EuUk\<rparr>),
      (''Europe/Berlin'', \<lparr>base_offset = SECONDS_PER_HOUR, rule = EuUk\<rparr>),
      (''Europe/Rome'', \<lparr>base_offset = SECONDS_PER_HOUR, rule = EuUk\<rparr>),
      (''Europe/Madrid'', \<lparr>base_offset = SECONDS_PER_HOUR, rule = EuUk\<rparr>),
      (''Europe/Amsterdam'', \<lparr>base_offset = SECONDS_PER_HOUR, rule = EuUk\<rparr>),
      (''Europe/Brussels'', \<lparr>base_offset = SECONDS_PER_HOUR, rule = EuUk\<rparr>),
      (''Europe/Vienna'', \<lparr>base_offset = SECONDS_PER_HOUR, rule = EuUk\<rparr>),
      (''Europe/Stockholm'', \<lparr>base_offset = SECONDS_PER_HOUR, rule = EuUk\<rparr>),
      (''Europe/Oslo'', \<lparr>base_offset = SECONDS_PER_HOUR, rule = EuUk\<rparr>),
      (''Europe/Copenhagen'', \<lparr>base_offset = SECONDS_PER_HOUR, rule = EuUk\<rparr>),
      (''Europe/Warsaw'', \<lparr>base_offset = SECONDS_PER_HOUR, rule = EuUk\<rparr>),
      (''Europe/Prague'', \<lparr>base_offset = SECONDS_PER_HOUR, rule = EuUk\<rparr>),
      (''Europe/Budapest'', \<lparr>base_offset = SECONDS_PER_HOUR, rule = EuUk\<rparr>),
      (''Europe/Athens'', \<lparr>base_offset = 2 * SECONDS_PER_HOUR, rule = EuUk\<rparr>),
      (''Europe/Helsinki'', \<lparr>base_offset = 2 * SECONDS_PER_HOUR, rule = EuUk\<rparr>),
      (''Europe/Bucharest'', \<lparr>base_offset = 2 * SECONDS_PER_HOUR, rule = EuUk\<rparr>),
      (''Europe/Kyiv'', \<lparr>base_offset = 2 * SECONDS_PER_HOUR, rule = EuUk\<rparr>)]"

definition TIMEZONES_SOUTH_AMERICA :: "(str \<times> time_zone_info) list" where
  "TIMEZONES_SOUTH_AMERICA =
     [(''America/Sao_Paulo'', \<lparr>base_offset = - 3 * SECONDS_PER_HOUR, rule = Brazil\<rparr>),
      (''America/Buenos_Aires'', \<lparr>base_offset = - 3 * SECONDS_PER_HOUR, rule = NoDst\<rparr>),
      (''America/Argentina/Buenos_Aires'', \<lparr>base_offset = - 3 * SECONDS_PER_HOUR, rule = NoDst\<rparr>),
      (''America/Santiago'', \<lparr>base_offset = - 4 * SECONDS_PER_HOUR, rule = NoDst\<rparr>),
      (''America/Bogota'', \<lparr>base_offset = - 5 * SECONDS_PER_HOUR, rule = NoDst\<rparr>),
      (''America/Lima'', \<lparr>base_offset = - 5 * SECONDS_PER_HOUR, rule = NoDst\<rparr>),
      (''America/Montevideo'', \<lparr>base_offset = - 3 * SECONDS_PER_HOUR, rule = NoDst\<rparr>)]"

definition TIMEZONES_ASIA :: "(str \<times> time_zone_info) list" where
  "TIMEZONES_ASIA =
     [(''Asia/Tokyo'', \<lparr>base_offset = 9 * SECONDS_PER_HOUR, rule = NoDst\<rparr>),
      (''Asia/Seoul'', \<lparr>base_offset = 9 * SECONDS_PER_HOUR, rule = NoDst\<rparr>),
      (''Asia/Shanghai'', \<lparr>base_offset = 8 * SECONDS_PER_HOUR, rule = NoDst\<rparr>),
      (''Asia/Hong_Kong'', \<lparr>base_offset = 8 * SECONDS_PER_HOUR, rule = NoDst\<rparr>),
      (''Asia/Singapore'', \<lparr>base_offset = 8 * SECONDS_PER_HOUR, rule = NoDst\<rparr>),
      (''Asia/Taipei'', \<lparr>base_offset = 8 * SECONDS_PER_HOUR, rule = NoDst\<rparr>),
      (''Asia/Manila'', \<lparr>base_offset = 8 * SECONDS_PER_HOUR, rule = NoDst\<rparr>),
      (''Asia/Kolkata'', \<lparr>base_offset = 5 * SECONDS_PER_HOUR + 30 * SECONDS_PER_MINUTE, rule = NoDst\<rparr>),
      (''Asia/Bangkok'', \<lparr>base_offset = 7 * SECONDS_PER_HOUR, rule = NoDst\<rparr>),
      (''Asia/Jakarta'', \<lparr>base_offset = 7 * SECONDS_PER_HOUR, rule = NoDst\<rparr>),
      (''Asia/Dubai'', \<lparr>base_offset = 4 * SECONDS_PER_HOUR, rule = NoDst\<rparr>)]"

definition TIMEZONES_OCEANIA :: "(str \<times> time_zone_info) list" where
  "TIMEZONES_OCEANIA =
     [(''Australia/Sydney'', \<lparr>base_offset = 10 * SECONDS_PER_HOUR, rule = AuEast\<rparr>),
      (''Australia/Melbourne'', \<lparr>base_offset = 10 * SECONDS_PER_HOUR, rule = AuEast\<rparr>),
      (''Australia/Brisbane'', \<lparr>base_offset = 10 * SECONDS_PER_HOUR, rule = NoDst\<rparr>),
      (''Australia/Perth'', \<lparr>base_offset = 8 * SECONDS_PER_HOUR, rule = NoDst\<rparr>),
      (''Australia/Adelaide'', \<lparr>base_offset = 9 * SECONDS_PER_HOUR + 30 * SECONDS_PER_MINUTE, rule = AuEast\<rparr>),
      (''Pacific/Auckland'', \<lparr>base_offset = 12 * SECONDS_PER_HOUR, rule = Nz\<rparr>),
      (''Pacific/Honolulu'', \<lparr>base_offset = - 10 * SECONDS_PER_HOUR, rule = NoDst\<rparr>),
      (''Pacific/Fiji'', \<lparr>base_offset = 12 * SECONDS_PER_HOUR, rule = NoDst\<rparr>)]"

definition TIMEZONES_AFRICA :: "(str \<times> time_zone_info) list" where
  "TIMEZONES_AFRICA =
     [(''Africa/Cairo'', \<lparr>base_offset = 2 * SECONDS_PER_HOUR, rule = NoDst\<rparr>),
      (''Africa/Johannesburg'', \<lparr>base_offset = 2 * SECONDS_PER_HOUR, rule = NoDst\<rparr>),
      (''Africa/Lagos'', \<lparr>base_offset = SECONDS_PER_HOUR, rule = NoDst\<rparr>),
      (''Africa/Nairobi'', \<lparr>base_offset = 3 * SECONDS_PER_HOUR, rule = NoDst\<rparr>)]"

definition TIMEZONES :: "(str \<times> time_zone_info) list" where
  "TIMEZONES = TIMEZONES_UTC @ TIMEZONES_NORTH_AMERICA @ TIMEZONES_EUROPE @ TIMEZONES_SOUTH_AMERICA @
     TIMEZONES_ASIA @ TIMEZONES_OCEANIA @ TIMEZONES_AFRICA"

lemmas zone_tables = TIMEZONES_def TIMEZONES_UTC_def TIMEZONES_NORTH_AMERICA_def TIMEZONES_EUROPE_def
  TIMEZONES_SOUTH_AMERICA_def TIMEZONES_ASIA_def TIMEZONES_OCEANIA_def TIMEZONES_AFRICA_def

definition lookup_timezone :: "str \<Rightarrow> time_zone_info option outcome" where
  "lookup_timezone name =
     (case map_of TIMEZONES name of
        Some info \<Rightarrow> Done (Some info)
      | None \<Rightarrow>
          (case strip_prefix ''Etc/GMT'' name of
             None \<Rightarrow> Done None
           | Some suffix \<Rightarrow>
               if suffix = [] then Done (Some \<lparr>base_offset = 0, rule = NoDst\<rparr>)
               else if \<not> is_char_boundary suffix 1 then Panic
               else
                 let sign = take 1 suffix; digits = drop 1 suffix
                 in case parse_signed i32_ok digits of
                      None \<Rightarrow> Done None
                    | Some hours \<Rightarrow>
                        if 1 \<le> hours \<and> hours \<le> 14
                        then if sign = ''+''
                             then Done (Some \<lparr>base_offset = - hours * SECONDS_PER_HOUR, rule = NoDst\<rparr>)
                             else if sign = ''-''
                             then Done (Some \<lparr>base_offset = hours * SECONDS_PER_HOUR, rule = NoDst\<rparr>)
                             else Done None
                        else Done None))"

definition is_known_timezone :: "str \<Rightarrow> bool outcome" where
  "is_known_timezone name = bind_outcome (lookup_timezone name) (\<lambda>r. Done (r \<noteq> None))"

definition weekday_sunday_zero :: "int \<Rightarrow> int" where
  "weekday_sunday_zero days = (days + 4) mod 7"

definition nth_sunday_of_month :: "int \<Rightarrow> int \<Rightarrow> int \<Rightarrow> int option" where
  "nth_sunday_of_month year month n =
     (case days_from_civil year month 1 of
        None \<Rightarrow> None
      | Some first_day \<Rightarrow>
          let w = weekday_sunday_zero first_day;
              first_sunday = 1 + (7 - w) mod 7
          in Some (first_sunday + (n - 1) * 7))"

definition last_sunday_of_month :: "int \<Rightarrow> int \<Rightarrow> int option" where
  "last_sunday_of_month year month =
     (case (if month \<in> {1, 3, 5, 7, 8, 10, 12} then Some 31
            else if month \<in> {4, 6, 9, 11} then Some 30
            else if month = 2 \<and> (year mod 4 = 0 \<and> (year mod 100 \<noteq> 0 \<or> year mod 400 = 0)) then Some 29
            else if month = 2 then Some 28 else None) of
        None \<Rightarrow> None
      | Some last_day_num \<Rightarrow>
          (case days_from_civil year month last_day_num of
             None \<Rightarrow> None
           | Some last_day \<Rightarrow> Some (last_day_num - weekday_sunday_zero last_day)))"

text \<open>\<open>let Some(x) = e else { return false };\<close>\<close>

definition or_false :: "int option \<Rightarrow> (int \<Rightarrow> bool) \<Rightarrow> bool" where
  "or_false m f = (case m of None \<Rightarrow> False | Some x \<Rightarrow> f x)"

definition us_canada_dst :: "int \<Rightarrow> int \<Rightarrow> int \<Rightarrow> bool" where
  "us_canada_dst base year timestamp =
     or_false (nth_sunday_of_month year 3 2) (\<lambda>start_day.
     or_false (days_from_civil year 3 start_day) (\<lambda>start_days.
     let start_utc_ms = start_days * MILLIS_PER_DAY + 2 * MILLIS_PER_HOUR - base * MILLIS_PER_SECOND
     in or_false (nth_sunday_of_month year 11 1) (\<lambda>end_day.
        or_false (days_from_civil year 11 end_day) (\<lambda>end_days.
        let end_utc_ms = end_days * MILLIS_PER_DAY + 2 * MILLIS_PER_HOUR
              - (base + ONE_HOUR_DST_SECS) * MILLIS_PER_SECOND
        in start_utc_ms \<le> timestamp \<and> timestamp < end_utc_ms))))"

definition eu_uk_dst :: "int \<Rightarrow> int \<Rightarrow> bool" where
  "eu_uk_dst year timestamp =
     or_false (last_sunday_of_month year 3) (\<lambda>start_day.
     or_false (days_from_civil year 3 start_day) (\<lambda>start_days.
     let start_utc_ms = start_days * MILLIS_PER_DAY + MILLIS_PER_HOUR
     in or_false (last_sunday_of_month year 10) (\<lambda>end_day.
        or_false (days_from_civil year 10 end_day) (\<lambda>end_days.
        let end_utc_ms = end_days * MILLIS_PER_DAY + MILLIS_PER_HOUR
        in start_utc_ms \<le> timestamp \<and> timestamp < end_utc_ms))))"

definition brazil_dst :: "int \<Rightarrow> int \<Rightarrow> bool" where
  "brazil_dst year timestamp =
     (if year \<ge> 2019 then False
      else
        or_false (nth_sunday_of_month year 10 3) (\<lambda>start_day.
        or_false (days_from_civil year 10 start_day) (\<lambda>start_days.
        let start_utc_ms = start_days * MILLIS_PER_DAY + 3 * MILLIS_PER_HOUR
        in or_false (nth_sunday_of_month (year + 1) 2 3) (\<lambda>end_day.
           or_false (days_from_civil (year + 1) 2 end_day) (\<lambda>end_days.
           let end_utc_ms = end_days * MILLIS_PER_DAY + 2 * MILLIS_PER_HOUR
           in if start_utc_ms \<le> timestamp \<and> timestamp < end_utc_ms then True
              else
                or_false (nth_sunday_of_month year 2 3) (\<lambda>prev_end_day.
                or_false (days_from_civil year 2 prev_end_day) (\<lambda>prev_end_days.
                let prev_end_utc_ms = prev_end_days * MILLIS_PER_DAY + 2 * MILLIS_PER_HOUR
                in timestamp < prev_end_utc_ms)))))))"

definition au_east_dst :: "int \<Rightarrow> int \<Rightarrow> int \<Rightarrow> bool" where
  "au_east_dst base year timestamp =
     or_false (nth_sunday_of_month year 10 1) (\<lambda>start_day.
     or_false (days_from_civil year 10 start_day) (\<lambda>start_days.
     let start_utc_ms = start_days * MILLIS_PER_DAY + 2 * MILLIS_PER_HOUR - base * MILLIS_PER_SECOND
     in or_false (nth_sunday_of_month (year + 1) 4 1) (\<lambda>end_day.
        or_false (days_from_civil (year + 1) 4 end_day) (\<lambda>end_days.
        let end_utc_ms = end_days * MILLIS_PER_DAY + 3 * MILLIS_PER_HOUR
              - (base + ONE_HOUR_DST_SECS) * MILLIS_PER_SECOND
        in if start_utc_ms \<le> timestamp \<and> timestamp < end_utc_ms then True
           else
             or_false (nth_sunday_of_month year 4 1) (\<lambda>prev_end_day.
             or_false (days_from_civil year 4 prev_end_day) (\<lambda>prev_end_days.
             let prev_end_utc_ms = prev_end_days * MILLIS_PER_DAY + 3 * MILLIS_PER_HOUR
                   - (base + ONE_HOUR_DST_SECS) * MILLIS_PER_SECOND
             in timestamp < prev_end_utc_ms))))))"

definition nz_dst :: "int \<Rightarrow> int \<Rightarrow> int \<Rightarrow> bool" where
  "nz_dst base year timestamp =
     or_false (last_sunday_of_month year 9) (\<lambda>start_day.
     or_false (days_from_civil year 9 start_day) (\<lambda>start_days.
     let start_utc_ms = start_days * MILLIS_PER_DAY + 2 * MILLIS_PER_HOUR - base * MILLIS_PER_SECOND
     in or_false (nth_sunday_of_month (year + 1) 4 1) (\<lambda>end_day.
        or_false (days_from_civil (year + 1) 4 end_day) (\<lambda>end_days.
        let end_utc_ms = end_days * MILLIS_PER_DAY + 3 * MILLIS_PER_HOUR
              - (base + ONE_HOUR_DST_SECS) * MILLIS_PER_SECOND
        in if start_utc_ms \<le> timestamp \<and> timestamp < end_utc_ms then True
           else
             or_false (nth_sunday_of_month year 4 1) (\<lambda>prev_end_day.
             or_false (days_from_civil year 4 prev_end_day) (\<lambda>prev_end_days.
             let prev_end_utc_ms = prev_end_days * MILLIS_PER_DAY + 3 * MILLIS_PER_HOUR
                   - (base + ONE_HOUR_DST_SECS) * MILLIS_PER_SECOND
             in timestamp < prev_end_utc_ms))))))"

definition is_dst_active :: "time_zone_info \<Rightarrow> int \<Rightarrow> bool" where
  "is_dst_active info timestamp =
     (case civil_split timestamp of
        None \<Rightarrow> False
      | Some (days, _) \<Rightarrow>
          let year = cd_year (civil_from_days days)
          in case rule info of
               NoDst \<Rightarrow> False
             | UsCanada \<Rightarrow> us_canada_dst (base_offset info) year timestamp
             | EuUk \<Rightarrow> eu_uk_dst year timestamp
             | Brazil \<Rightarrow> brazil_dst year timestamp
             | AuEast \<Rightarrow> au_east_dst (base_offset info) year timestamp
             | Nz \<Rightarrow> nz_dst (base_offset info) year timestamp)"

definition timezone_offset :: "str \<Rightarrow> int \<Rightarrow> int option outcome" where
  "timezone_offset name timestamp =
     try_opt (lookup_timezone name) (\<lambda>info.
     Done (Some (if is_dst_active info timestamp then base_offset info + ONE_HOUR_DST_SECS
                 else base_offset info)))"

definition timezone_is_dst :: "str \<Rightarrow> int \<Rightarrow> bool option outcome" where
  "timezone_is_dst name timestamp =
     try_opt (lookup_timezone name) (\<lambda>info. Done (Some (is_dst_active info timestamp)))"

definition format_at_zone :: "int \<Rightarrow> str \<Rightarrow> str option outcome" where
  "format_at_zone timestamp timezone_name =
     try_opt (timezone_offset timezone_name timestamp) (\<lambda>offset_secs.
     try_opt (Done (try_fit i64_ok (timestamp + offset_secs * MILLIS_PER_SECOND))) (\<lambda>local_timestamp.
     try_opt (Done (civil_split local_timestamp)) (\<lambda>(days, millis).
     let date_str = format_date days; time_str = format_time millis
     in if offset_secs = 0 then Done (Some (date_str @ ''T'' @ time_str @ ''Z''))
        else
          let sign = (if offset_secs < 0 then CHR ''-'' else CHR ''+'');
              abs_secs = \<bar>offset_secs\<bar>;
              hours = abs_secs div SECONDS_PER_HOUR;
              minutes = abs_secs mod SECONDS_PER_HOUR div SECONDS_PER_MINUTE
          in Done (Some (date_str @ ''T'' @ time_str @ [sign] @ show_pad 2 hours @ '':'' @ show_pad 2 minutes)))))"

definition timestamp_from_local :: "int \<Rightarrow> int \<Rightarrow> str \<Rightarrow> int option outcome" where
  "timestamp_from_local days millis timezone_name =
     try_opt (lookup_timezone timezone_name) (\<lambda>info.
     let local_ms = totimestamp days millis;
         approx_utc = local_ms - base_offset info * MILLIS_PER_SECOND
     in try_opt (timezone_offset timezone_name approx_utc) (\<lambda>offset1.
        let utc1 = local_ms - offset1 * MILLIS_PER_SECOND
        in try_opt (timezone_offset timezone_name utc1) (\<lambda>offset2.
           let final_utc = (if offset2 = offset1 then utc1 else local_ms - offset2 * MILLIS_PER_SECOND)
           in try_opt (Done (civil_split final_utc)) (\<lambda>(utc_days, _).
              Done (if in_range utc_days then Some final_utc else None)))))"

text \<open>\<open>bn_types::text::is_timezone_id\<close>; \<open>split('/')\<close> keeps empty parts.\<close>

fun split_on :: "char \<Rightarrow> str \<Rightarrow> str list" where
  "split_on c [] = [[]]"
| "split_on c (x # xs) =
     (if x = c then [] # split_on c xs
      else case split_on c xs of [] \<Rightarrow> [[x]] | part # parts \<Rightarrow> (x # part) # parts)"

definition is_timezone_part :: "str \<Rightarrow> bool" where
  "is_timezone_part part =
     (case part of
        [] \<Rightarrow> False
      | first # characters \<Rightarrow>
          is_ascii_alphabetic first \<and>
          list_all (\<lambda>c. is_ascii_alphabetic c \<or> is_ascii_digit c \<or> c \<in> {CHR ''_'', CHR ''-'', CHR ''+''}) characters)"

definition is_timezone_id :: "str \<Rightarrow> bool" where
  "is_timezone_id s \<longleftrightarrow>
     s = ''UTC'' \<or> 2 \<le> length (split_on (CHR ''/'') s) \<and> list_all is_timezone_part (split_on (CHR ''/'') s)"

section \<open>The zone table\<close>

lemma table_zones_aligned:
  "list_all (\<lambda>(_, info). base_offset info mod 60 = 0 \<and> \<bar>base_offset info\<bar> \<le> 43200) TIMEZONES"
  by (simp add: zone_tables zone_consts)

text \<open>The cases of a successful lookup: the table, or \<open>Etc/GMT\<close> with whole hours.\<close>

lemma lookup_timezone_cases:
  assumes "lookup_timezone name = Done (Some info)"
  obtains "map_of TIMEZONES name = Some info"
  | hours where "info = \<lparr>base_offset = hours * 3600, rule = NoDst\<rparr>" "- 14 \<le> hours" "hours \<le> 14"
proof (cases "map_of TIMEZONES name")
  case (Some i)
  then show ?thesis using assms that(1) by (simp add: lookup_timezone_def)
next
  case None
  show ?thesis
  proof (cases "strip_prefix ''Etc/GMT'' name")
    case pre: (Some suffix)
    show ?thesis
    proof (cases "parse_signed i32_ok (drop (Suc 0) suffix)")
      case h: (Some hours)
      show ?thesis
        using assms that(2) [of "- hours"] that(2) [of hours] that(2) [of 0]
        by (simp add: lookup_timezone_def None pre h Let_def SECONDS_PER_HOUR_def split: if_splits)
    qed (use assms that(2) [of 0] in \<open>simp add: lookup_timezone_def None pre Let_def split: if_splits\<close>)
  qed (use assms in \<open>simp add: lookup_timezone_def None\<close>)
qed

lemma lookup_timezone_aligned:
  assumes "lookup_timezone name = Done (Some info)"
  shows "base_offset info mod 60 = 0 \<and> \<bar>base_offset info\<bar> \<le> 50400 \<and>
    (rule info \<noteq> NoDst \<longrightarrow> \<bar>base_offset info\<bar> \<le> 43200)"
  using assms
proof (cases rule: lookup_timezone_cases)
  case 1
  then show ?thesis
    using table_zones_aligned [unfolded list_all_iff, rule_format, OF map_of_SomeD] by force
next
  case (2 hours)
  have "60 dvd hours * 3600" by (rule dvd_mult) simp
  then show ?thesis using 2 by (simp add: dvd_imp_mod_0)
qed

lemma timezone_offset_SomeE:
  assumes "timezone_offset name t = Done (Some offset)"
  obtains info where "lookup_timezone name = Done (Some info)"
    "offset = base_offset info + (if is_dst_active info t then ONE_HOUR_DST_SECS else 0)"
  using assms unfolding timezone_offset_def by (auto elim!: try_opt_SomeE split: if_splits)

lemma dst_needs_rule: "is_dst_active info t \<Longrightarrow> rule info \<noteq> NoDst"
  by (auto simp: is_dst_active_def split: option.splits)

lemma timezone_offset_range:
  assumes "timezone_offset name t = Done (Some offset)"
  shows "offset mod 60 = 0" "- 50400 \<le> offset" "offset \<le> 50400"
proof -
  obtain info where l: "lookup_timezone name = Done (Some info)"
    and o: "offset = base_offset info + (if is_dst_active info t then ONE_HOUR_DST_SECS else 0)"
    using assms by (rule timezone_offset_SomeE)
  have a: "base_offset info mod 60 = 0" "\<bar>base_offset info\<bar> \<le> 50400"
      "rule info \<noteq> NoDst \<longrightarrow> \<bar>base_offset info\<bar> \<le> 43200"
    using lookup_timezone_aligned [OF l] by simp_all
  show "offset mod 60 = 0"
    using a(1) by (auto simp: o ONE_HOUR_DST_SECS_def)
  show "- 50400 \<le> offset" "offset \<le> 50400"
    using a(2,3) dst_needs_rule [of info t] by (auto simp: o ONE_HOUR_DST_SECS_def)
qed

section \<open>Sundays\<close>

lemma days_from_civil_in_month:
  assumes f: "days_from_civil year month first = Some n" and d: "0 \<le> first" "1 \<le> day"
    and l: "days_in_month year month = Some len" "day \<le> len"
  shows "days_from_civil year month day = Some (n + day - first)"
proof -
  note v = days_from_civil_valid [OF d(1) f]
  have v': "valid_date \<lparr>cd_year = year, cd_month = month, cd_day = day\<rparr>"
    using v d l by (simp add: valid_date_def)
  show ?thesis
    using days_from_civil_parts(1) [OF v refl refl] days_from_civil_parts(1) [OF v' refl refl] f by simp
qed

lemma days_in_month_bounds:
  "1 \<le> month \<Longrightarrow> month \<le> 12 \<Longrightarrow> \<exists>len. days_in_month year month = Some len \<and> 28 \<le> len \<and> len \<le> 31"
  using month_cases [of month] by (auto simp: days_in_month_def)

lemma nth_sunday_correct:
  assumes "nth_sunday_of_month year month n = Some day" "1 \<le> n" "n \<le> 4"
  shows "7 * (n - 1) < day \<and> day \<le> 7 * n \<and>
    (\<exists>k. days_from_civil year month day = Some k \<and> weekday_sunday_zero k = 0)"
proof -
  obtain f where f: "days_from_civil year month 1 = Some f"
    and day: "day = 1 + (7 - weekday_sunday_zero f) mod 7 + (n - 1) * 7"
    using assms(1) by (auto simp: nth_sunday_of_month_def Let_def split: option.splits)
  have m: "1 \<le> month" "month \<le> 12"
    using days_from_civil_valid [OF _ f] by (simp_all add: valid_date_def)
  obtain len where len: "days_in_month year month = Some len" "28 \<le> len"
    using days_in_month_bounds [OF m] by blast
  have r: "0 \<le> (7 - weekday_sunday_zero f) mod 7" "(7 - weekday_sunday_zero f) mod 7 \<le> 6"
    using pos_mod_bound [of 7 "7 - weekday_sunday_zero f"] by simp_all
  have b: "1 \<le> day" "day \<le> len" using assms(2,3) r len(2) by (auto simp: day)
  have "days_from_civil year month day = Some (f + day - 1)"
    using days_from_civil_in_month [OF f _ b(1) len(1) b(2)] by simp
  moreover have "weekday_sunday_zero (f + day - 1) = 0"
    unfolding weekday_sunday_zero_def day by presburger
  ultimately show ?thesis using r by (simp add: day)
qed

lemma last_sunday_correct:
  assumes "last_sunday_of_month year month = Some day"
  shows "\<exists>len k. days_in_month year month = Some len \<and> len < day + 7 \<and> day \<le> len \<and>
    days_from_civil year month day = Some k \<and> weekday_sunday_zero k = 0"
proof -
  obtain len l where len: "days_in_month year month = Some len"
    and l: "days_from_civil year month len = Some l" and day: "day = len - weekday_sunday_zero l"
    using assms by (auto simp: last_sunday_of_month_def days_in_month_def split: option.splits if_splits)
  have w: "0 \<le> weekday_sunday_zero l" "weekday_sunday_zero l \<le> 6"
    using pos_mod_bound [of 7 "l + 4"] by (simp_all add: weekday_sunday_zero_def)
  have "28 \<le> len" using len by (auto simp: days_in_month_def split: if_splits)
  then have "days_from_civil year month day = Some (l + day - len)"
    using w by (intro days_from_civil_in_month [OF l _ _ len]) (auto simp: day)
  moreover have "weekday_sunday_zero (l + day - len) = 0"
    unfolding weekday_sunday_zero_def day by presburger
  ultimately show ?thesis using w len by (auto simp: day)
qed

section \<open>Text and local time\<close>

lemma length_format_time:
  assumes "0 \<le> millis" "millis < DAY_MS"
  shows "8 \<le> length (format_time millis)"
proof -
  have pad: "2 \<le> length (show_pad 2 x)" if "0 \<le> x" for x using that by (simp add: show_pad_def)
  have "0 \<le> millis div 3600000" "0 \<le> millis mod 3600000 div 60000" "0 \<le> millis mod 60000 div 1000"
    using assms by (simp_all add: pos_imp_zdiv_nonneg_iff)
  from this [THEN pad] show ?thesis
    unfolding format_time_def civil_time_def prod.case length_append list.size by linarith
qed

lemma parse_rfc3339_format_at_zone:
  assumes "i64_ok t" "civil_split t \<noteq> None" "format_at_zone t zone = Done (Some s)"
  shows "parse_rfc3339 s = Done (Some t)"
proof -
  obtain offset days millis where o: "timezone_offset zone t = Done (Some offset)"
      and sp: "civil_split (t + offset * 1000) = Some (days, millis)"
      and s: "s = (if offset = 0 then format_date days @ CHR ''T'' # (format_time millis @ ''Z'')
        else format_date days @ CHR ''T'' # (format_time millis @
          (if offset < 0 then CHR ''-'' else CHR ''+'') #
          (show_pad 2 (\<bar>offset\<bar> div 3600) @ '':'' @ show_pad 2 (\<bar>offset\<bar> mod 3600 div 60))))"
    using assms(3) unfolding format_at_zone_def
    by (auto elim!: try_opt_SomeE simp: Let_def zone_consts split: if_splits)
  note c = civil_split_SomeE [OF sp]
  note r = timezone_offset_range [OF o]
  define a where "a = \<bar>offset\<bar>"
  have a: "0 \<le> a" "a \<le> 50400" "a mod 60 = 0"
    using r by (auto simp: a_def abs_if zmod_zminus1_not_zero)
  have parts: "0 \<le> a div 3600" "a div 3600 \<le> 14" "0 \<le> a mod 3600 div 60" "a mod 3600 div 60 \<le> 59"
    using a(1,2) zdiv_mono1 [of a 50400 3600] zdiv_mono1 [of "a mod 3600" 3599 60]
    by (simp_all add: pos_imp_zdiv_nonneg_iff)
  have "a mod 3600 mod 60 = 0" using a(3) by (simp add: mod_mod_cancel)
  then have "60 * (a mod 3600 div 60) = a mod 3600"
    using mult_div_mod_eq [of 60 "a mod 3600"] by simp
  then have sum: "3600 * (a div 3600) + 60 * (a mod 3600 div 60) = a"
    using mult_div_mod_eq [of 3600 a] by simp
  let ?k = "if offset < 0 then - 1 else 1 :: int"
  have "split_offset (format_time millis @ (if offset < 0 then CHR ''-'' else CHR ''+'') #
      (show_pad 2 (a div 3600) @ '':'' @ show_pad 2 (a mod 3600 div 60))) =
      Done (Some (format_time millis, ?k * (int (digits_value (show_pad 2 (a div 3600))) * 3600000 +
        int (digits_value (show_pad 2 (a mod 3600 div 60))) * 60000)))"
    using parts length_format_time [OF c(3,4)]
    by (intro split_offset_signed) (simp_all add: show_pad_nonneg length_show_pad)
  also have "?k * (int (digits_value (show_pad 2 (a div 3600))) * 3600000 +
        int (digits_value (show_pad 2 (a mod 3600 div 60))) * 60000) = offset * 1000"
    using parts sum by (auto simp: show_pad_nonneg a_def)
  finally show ?thesis
    unfolding s a_def using c assms(1,2)
    by (cases "offset = 0")
       (simp_all add: parse_rfc3339_parts [where offset = 0 and t = t]
          parse_rfc3339_parts [where offset = "offset * 1000" and t = t] split_offset_Z)
qed

lemma totimestamp_split:
  assumes "i64_ok t" "civil_split t = Some (days, millis)"
  shows "totimestamp days millis = t"
proof -
  note c = civil_split_SomeE [OF assms(2)]
  have "u32_ok millis" using c(3,4) by (simp add: u32_ok_def DAY_MS_def)
  then show ?thesis using c(5) assms(1) by (simp add: totimestamp_def)
qed

lemma timezone_offset_info:
  assumes "lookup_timezone zone = Done (Some info)"
  shows "timezone_offset zone t =
    Done (Some (base_offset info + (if is_dst_active info t then 3600 else 0)))"
  using assms by (simp add: timezone_offset_def ONE_HOUR_DST_SECS_def)

lemma civil_split_in_range:
  "civil_split t = Some (days, millis) \<Longrightarrow> in_range days"
  by (auto simp: civil_split_def split: option.splits if_splits)

lemma split_on_chars: "set s \<subseteq> insert c (\<Union> (set ` set (split_on c s)))"
proof (induction s)
  case (Cons a s)
  then show ?case by (cases "split_on c s") auto
qed simp

lemma timezone_part_ascii: "is_timezone_part p \<Longrightarrow> list_all is_ascii p"
  by (auto simp: is_timezone_part_def list_all_iff is_ascii_alphabetic_def is_ascii_digit_def is_ascii_def
      byte_def split: list.splits)

lemma timezone_id_ascii:
  assumes "is_timezone_id s" shows "list_all is_ascii s"
proof (cases "s = ''UTC''")
  case False
  with assms have "\<forall>p \<in> set (split_on (CHR ''/'') s). list_all is_ascii p"
    using timezone_part_ascii by (auto simp: is_timezone_id_def list_all_iff)
  moreover have "is_ascii (CHR ''/'')" by (simp add: is_ascii_def byte_def)
  ultimately show ?thesis using split_on_chars [of s "CHR ''/''"] by (fastforce simp: list_all_iff)
qed (simp add: is_ascii_def byte_def)

lemma lookup_timezone_ascii:
  assumes "list_all is_ascii s" shows "lookup_timezone s \<noteq> Panic"
proof -
  have "is_char_boundary suffix (Suc 0)" if "strip_prefix ''Etc/GMT'' s = Some suffix" "suffix \<noteq> []" for suffix
    using that assms by (intro ascii_char_boundary) (auto simp: strip_prefix_eq_Some Suc_le_eq)
  then show ?thesis by (auto simp: lookup_timezone_def Let_def split: option.splits)
qed

section \<open>Properties\<close>

text \<open>C11: zone text is RFC 3339 text for the same instant: what \<open>format_at_zone\<close>
  prints for a timestamp of the civil range, in any zone it knows and on
  either side of a daylight-saving change, parses back to that timestamp.\<close>

theorem format_at_zone_roundtrip:
  assumes "i64_ok t" "rfc3339 t \<noteq> None" "format_at_zone t zone = Done (Some s)"
  shows "parse_rfc3339 s = Done (Some t)"
proof -
  have "civil_split t \<noteq> None" using assms(2) by (auto simp: rfc3339_def split: option.splits)
  then show ?thesis using assms(1,3) by (intro parse_rfc3339_format_at_zone)
qed

theorem format_at_zone_roundtrip_witness:
  "format_at_zone 1720000000000 ''America/New_York'' = Done (Some ''2024-07-03T05:46:40.000-04:00'') \<and>
   parse_rfc3339 ''2024-07-03T05:46:40.000-04:00'' = Done (Some 1720000000000)"
proof -
  have f: "format_at_zone 1720000000000 ''America/New_York'' = Done (Some ''2024-07-03T05:46:40.000-04:00'')"
    by code_simp
  have "rfc3339 1720000000000 \<noteq> None" by code_simp
  from format_at_zone_roundtrip [OF _ this f] f show ?thesis by (simp add: i64_ok_def)
qed

text \<open>Local time converts back to UTC: the local date and time of an instant
  give the instant again, except in the hour that daylight saving repeats,
  where the later instant (standard time) is chosen; nothing is returned only
  when that instant is outside the civil range.\<close>

theorem timestamp_from_local_inverse:
  assumes "lookup_timezone zone = Done (Some info)"
    and "timezone_offset zone t = Done (Some offset)"
    and "i64_ok (t + offset * 1000)" "civil_split (t + offset * 1000) = Some (days, millis)"
    and "u = (if is_dst_active info t \<and> \<not> is_dst_active info (t + 3600000) then t + 3600000 else t)"
  shows "timestamp_from_local days millis zone = Done (if civil_split u = None then None else Some u)"
proof -
  have o: "offset = base_offset info + (if is_dst_active info t then 3600 else 0)"
    using assms(2) by (simp add: timezone_offset_info [OF assms(1)])
  have l: "totimestamp days millis = t + offset * 1000"
    by (rule totimestamp_split [OF assms(3,4)])
  show ?thesis
    using assms(5) unfolding timestamp_from_local_def assms(1) try_opt.simps Let_def
      timezone_offset_info [OF assms(1)] l
    by (cases "is_dst_active info t"; cases "is_dst_active info (t + 3600000)"; cases "civil_split u")
       (auto simp: o MILLIS_PER_SECOND_def algebra_simps civil_split_in_range)
qed

theorem timestamp_from_local_inverse_witness:
  "timestamp_from_local 19907 20800000 ''America/New_York'' = Done (Some 1720000000000) \<and>
   timestamp_from_local 20030 5400000 ''Europe/Paris'' = Done (Some 1730593800000)"
proof -
  have a: "lookup_timezone ''America/New_York'' = Done (Some \<lparr>base_offset = - 18000, rule = UsCanada\<rparr>)"
    "timezone_offset ''America/New_York'' 1720000000000 = Done (Some (- 14400))"
    "civil_split (1720000000000 + - 14400 * 1000) = Some (19907, 20800000)"
    "is_dst_active \<lparr>base_offset = - 18000, rule = UsCanada\<rparr> (1720000000000 + 3600000)"
    "civil_split 1720000000000 \<noteq> None"
    by code_simp+
  have b: "lookup_timezone ''Europe/Paris'' = Done (Some \<lparr>base_offset = 3600, rule = EuUk\<rparr>)"
    "timezone_offset ''Europe/Paris'' 1730593800000 = Done (Some 3600)"
    "civil_split (1730593800000 + 3600 * 1000) = Some (20030, 5400000)"
    "\<not> is_dst_active \<lparr>base_offset = 3600, rule = EuUk\<rparr> 1730593800000"
    "civil_split 1730593800000 \<noteq> None"
    by code_simp+
  show ?thesis
    using timestamp_from_local_inverse [OF a(1,2) _ a(3) refl] a(4,5)
      timestamp_from_local_inverse [OF b(1,2) _ b(3) refl] b(4,5)
    by (simp add: i64_ok_def)
qed

text \<open>The Sundays that start and end daylight saving: the n-th Sunday of a
  month is a Sunday in the n-th week, the last Sunday is a Sunday with no later
  one in the month. Day 0 (1970-01-01) is a Thursday.\<close>

theorem sundays_correct:
  "weekday_sunday_zero 0 = 4 \<and>
   (\<forall>day. 1 \<le> n \<and> n \<le> 4 \<and> nth_sunday_of_month year month n = Some day \<longrightarrow>
      7 * (n - 1) < day \<and> day \<le> 7 * n \<and>
      (\<exists>k. days_from_civil year month day = Some k \<and> weekday_sunday_zero k = 0)) \<and>
   (\<forall>day. last_sunday_of_month year month = Some day \<longrightarrow>
      (\<exists>len k. days_in_month year month = Some len \<and> len < day + 7 \<and> day \<le> len \<and>
        days_from_civil year month day = Some k \<and> weekday_sunday_zero k = 0))"
  using nth_sunday_correct last_sunday_correct by (intro conjI allI impI) (simp add: weekday_sunday_zero_def, blast+)

theorem sundays_correct_witness:
  "nth_sunday_of_month 2024 3 2 = Some 10 \<and>
   (\<exists>k. days_from_civil 2024 3 10 = Some k \<and> weekday_sunday_zero k = 0)"
proof -
  have "nth_sunday_of_month 2024 3 2 = Some 10" by code_simp
  with sundays_correct [of 2 2024 3] show ?thesis by simp
qed

text \<open>An identifier \<open>TimeZone.Parse\<close> accepts never panics in the lookup, and
  every offset the zones yield is a whole number of minutes within 14 hours of
  UTC.\<close>

theorem timezone_lookup_safe:
  "(is_timezone_id zone \<longrightarrow> lookup_timezone zone \<noteq> Panic) \<and>
   (\<forall>offset. timezone_offset zone t = Done (Some offset) \<longrightarrow>
      offset mod 60 = 0 \<and> - 50400 \<le> offset \<and> offset \<le> 50400)"
  using lookup_timezone_ascii [OF timezone_id_ascii] timezone_offset_range by blast

theorem timezone_lookup_safe_witness:
  "is_timezone_id ''Etc/GMT+12'' \<and> lookup_timezone ''Etc/GMT+12'' \<noteq> Panic \<and>
   \<not> is_timezone_id (''Etc/GMT'' @ [char_of (195::nat), char_of (169::nat)]) \<and>
   lookup_timezone (''Etc/GMT'' @ [char_of (195::nat), char_of (169::nat)]) = Panic"
proof -
  have "is_timezone_id ''Etc/GMT+12''" by code_simp
  moreover have "\<not> is_timezone_id (''Etc/GMT'' @ [char_of (195::nat), char_of (169::nat)])"
    "lookup_timezone (''Etc/GMT'' @ [char_of (195::nat), char_of (169::nat)]) = Panic"
    by code_simp+
  ultimately show ?thesis using timezone_lookup_safe [of "''Etc/GMT+12''"] by blast
qed

end
