(* ===== verification/BN_Arc_Core.thy ===== *)
theory BN_Arc_Core
  imports BN_Prelude
begin

text \<open>
  The ARC core: \<open>crates/bn_rt/src/arc.rs\<close>, the strong counts and liveness of
  every object, shared by the interpreter and the native backend. Slots, free
  list, trace switch and first generation are the fields of \<open>ArcCore\<close>; the
  trace lines a run writes to standard error are kept in \<open>arc_stderr\<close>. An
  operation that can panic (an index out of range, \<open>expect\<close>, an overflowing
  \<open>u64\<close> count) returns an \<open>outcome\<close>; \<open>Err\<close> is \<open>Inl\<close> and leaves the core as
  it was. A Rust \<open>Vec\<close> used as a stack grows at the end of the list.
\<close>

unbundle bit_operations_syntax

section \<open>Object identities\<close>

type_synonym object_id = "64 word"

definition from_parts :: "32 word \<Rightarrow> 32 word \<Rightarrow> object_id" where
  "from_parts index generation = push_bit 32 (ucast index) OR ucast generation"

definition id_slot :: "object_id \<Rightarrow> 32 word" where
  "id_slot oid = ucast (drop_bit 32 oid)"

definition id_bits :: "object_id \<Rightarrow> 64 word" where
  "id_bits oid = oid"

definition id_index :: "object_id \<Rightarrow> nat" where
  "id_index oid = unat (drop_bit 32 oid)"

definition id_generation :: "object_id \<Rightarrow> 32 word" where
  "id_generation oid = ucast oid"

definition show_object_id :: "object_id \<Rightarrow> str" where
  "show_object_id oid = ''#'' @ show_nat (id_index oid)"

datatype arc_error = NotAlive object_id

definition show_arc_error :: "arc_error \<Rightarrow> str" where
  "show_arc_error e =
     (case e of NotAlive oid \<Rightarrow> ''ARC operation on object '' @ show_object_id oid @ '', which is not alive'')"

section \<open>The core\<close>

record object_info =
  info_id :: object_id
  info_class :: str
  info_strong :: nat

record arc_slot =
  generation :: "32 word"
  strong :: nat
  destroying :: bool
  slot_class :: str
  address :: "64 word"

record site =
  site_line :: nat
  site_column :: nat

definition show_site :: "site \<Rightarrow> str" where
  "show_site at = show_nat (site_line at) @ '':'' @ show_nat (site_column at)"

record arc_core =
  slots :: "arc_slot list"
  free :: "32 word list"
  trace :: bool
  first_generation :: "32 word"
  arc_stderr :: "str list"

definition with_first_generation :: "32 word \<Rightarrow> arc_core" where
  "with_first_generation g =
     \<lparr>slots = [], free = [], trace = False,
      first_generation = (if g = 0 then 1 else g), arc_stderr = []\<rparr>"

definition arc_new :: arc_core where
  "arc_new = with_first_generation 1"

definition set_trace :: "bool \<Rightarrow> arc_core \<Rightarrow> arc_core" where
  "set_trace on core = core\<lparr>trace := on\<rparr>"

definition trace_line :: "str \<Rightarrow> str \<Rightarrow> object_id \<Rightarrow> nat \<Rightarrow> site \<Rightarrow> str" where
  "trace_line event cls oid count at =
     ''arc '' @ event @ '' '' @ cls @ show_object_id oid @ '' strong='' @ show_nat count @ '' at '' @ show_site at"

definition arc_trace :: "arc_core \<Rightarrow> str \<Rightarrow> object_id \<Rightarrow> site \<Rightarrow> arc_core outcome" where
  "arc_trace core event oid at =
     (if \<not> trace core then Done core
      else if length (slots core) \<le> id_index oid then Panic
      else let s = slots core ! id_index oid
           in Done (core\<lparr>arc_stderr := arc_stderr core @ [trace_line event (slot_class s) oid (strong s) at]\<rparr>))"

definition arc_register :: "arc_core \<Rightarrow> str \<Rightarrow> 64 word \<Rightarrow> site \<Rightarrow> (arc_core \<times> object_id) outcome" where
  "arc_register core cls addr at =
     bind_outcome
       (if free core \<noteq> [] then
          let index = last (free core)
          in if length (slots core) \<le> unat index then Panic
             else let s = slots core ! unat index;
                      s' = s\<lparr>strong := 1, destroying := False, address := addr, slot_class := cls\<rparr>
                  in Done (core\<lparr>free := butlast (free core), slots := (slots core)[unat index := s']\<rparr>,
                           from_parts index (generation s))
        else if 2 ^ 32 \<le> length (slots core) then Panic
        else Done (core\<lparr>slots := slots core @ [\<lparr>generation = first_generation core, strong = 1,
                      destroying = False, slot_class = cls, address = addr\<rparr>]\<rparr>,
                   from_parts (word_of_nat (length (slots core))) (first_generation core)))
       (\<lambda>(core', oid). bind_outcome (arc_trace core' ''new'' oid at) (\<lambda>c. Done (c, oid)))"

definition live_addresses :: "arc_core \<Rightarrow> 64 word list" where
  "live_addresses core = map address (filter (\<lambda>s. strong s > 0) (slots core))"

text \<open>The slot of a live object, or of one whose destructor is running.\<close>

definition find_slot :: "arc_core \<Rightarrow> object_id \<Rightarrow> arc_error + arc_slot" where
  "find_slot core oid =
     (if id_index oid < length (slots core) \<and>
         generation (slots core ! id_index oid) = id_generation oid \<and>
         (strong (slots core ! id_index oid) > 0 \<or> destroying (slots core ! id_index oid))
      then Inr (slots core ! id_index oid) else Inl (NotAlive oid))"

definition put_slot :: "arc_core \<Rightarrow> object_id \<Rightarrow> arc_slot \<Rightarrow> arc_core" where
  "put_slot core oid s = core\<lparr>slots := (slots core)[id_index oid := s]\<rparr>"

definition arc_retain :: "arc_core \<Rightarrow> object_id \<Rightarrow> site \<Rightarrow> (arc_error + (arc_core \<times> nat)) outcome" where
  "arc_retain core oid at =
     (case find_slot core oid of
        Inl e \<Rightarrow> Done (Inl e)
      | Inr s \<Rightarrow>
          if destroying s then Done (Inr (core, strong s))
          else if 2 ^ 64 - 1 \<le> strong s then Panic
          else bind_outcome (arc_trace (put_slot core oid (s\<lparr>strong := strong s + 1\<rparr>)) ''retain'' oid at)
                 (\<lambda>c. Done (Inr (c, strong s + 1))))"

definition arc_release :: "arc_core \<Rightarrow> object_id \<Rightarrow> site \<Rightarrow> (arc_error + (arc_core \<times> bool)) outcome" where
  "arc_release core oid at =
     (case find_slot core oid of
        Inl e \<Rightarrow> Done (Inl e)
      | Inr s \<Rightarrow>
          if destroying s then Done (Inr (core, False))
          else if strong s = 0 then Panic
          else
            let final = (strong s - 1 = 0);
                core' = put_slot core oid (s\<lparr>strong := strong s - 1, destroying := final\<rparr>)
            in bind_outcome (arc_trace core' ''release'' oid at) (\<lambda>c.
               bind_outcome (if final then arc_trace c ''destroy'' oid at else Done c) (\<lambda>c'.
               Done (Inr (c', final)))))"

definition next_generation :: "32 word \<Rightarrow> 32 word" where
  "next_generation g = max (g + 1) 1"

definition finish_destroy :: "arc_core \<Rightarrow> object_id \<Rightarrow> arc_error + arc_core" where
  "finish_destroy core oid =
     (case find_slot core oid of
        Inl e \<Rightarrow> Inl e
      | Inr s \<Rightarrow>
          if \<not> destroying s then Inl (NotAlive oid)
          else let core' = put_slot core oid
                     (s\<lparr>destroying := False, generation := next_generation (generation s), slot_class := ''''\<rparr>)
               in Inr (core'\<lparr>free := free core' @ [id_slot oid]\<rparr>))"

definition alive :: "arc_core \<Rightarrow> object_id \<Rightarrow> bool" where
  "alive core oid \<longleftrightarrow>
     id_index oid < length (slots core) \<and>
     generation (slots core ! id_index oid) = id_generation oid \<and> strong (slots core ! id_index oid) > 0"

definition arc_address :: "arc_core \<Rightarrow> object_id \<Rightarrow> 64 word" where
  "arc_address core oid = (if alive core oid then address (slots core ! id_index oid) else 0)"

definition arc_info :: "arc_core \<Rightarrow> object_id \<Rightarrow> object_info option" where
  "arc_info core oid =
     (if alive core oid
      then let s = slots core ! id_index oid
           in Some \<lparr>info_id = oid, info_class = slot_class s, info_strong = strong s\<rparr>
      else None)"

definition snapshot :: "arc_core \<Rightarrow> object_info list" where
  "snapshot core =
     map (\<lambda>(index, s). \<lparr>info_id = from_parts (word_of_nat index) (generation s),
            info_class = slot_class s, info_strong = strong s\<rparr>)
       (filter (\<lambda>(_, s). strong s > 0) (enumerate 0 (slots core)))"

definition trace_enabled :: "str option \<Rightarrow> bool" where
  "trace_enabled v \<longleftrightarrow> (case v of None \<Rightarrow> False | Some s \<Rightarrow> s \<noteq> [] \<and> s \<noteq> ''0'')"

section \<open>Invariant and abstraction\<close>

text \<open>What every operation keeps: a slot holds a live object, one being
  destroyed, or none, in which case the free list has its index once; slot
  numbers fit 32 bits and generations are never zero.\<close>

definition vacant :: "arc_slot \<Rightarrow> bool" where
  "vacant s \<longleftrightarrow> strong s = 0 \<and> \<not> destroying s"

definition slot_ok :: "arc_slot \<Rightarrow> bool" where
  "slot_ok s \<longleftrightarrow> generation s \<noteq> 0 \<and> strong s < 2 ^ 64 \<and> (strong s > 0 \<longrightarrow> \<not> destroying s)"

definition arc_inv :: "arc_core \<Rightarrow> bool" where
  "arc_inv core \<longleftrightarrow>
     length (slots core) \<le> 2 ^ 32 \<and> first_generation core \<noteq> 0 \<and> distinct (free core) \<and>
     (\<forall>i \<in> set (free core). unat i < length (slots core)) \<and>
     (\<forall>i < length (slots core). slot_ok (slots core ! i) \<and>
        (word_of_nat i \<in> set (free core) \<longleftrightarrow> vacant (slots core ! i)))"

text \<open>The abstract view of a core: the strong count of every identity (zero
  when it names no live object) and the identities being destroyed.\<close>

definition arc_count :: "arc_core \<Rightarrow> object_id \<Rightarrow> nat" where
  "arc_count core oid =
     (if id_index oid < length (slots core) \<and> generation (slots core ! id_index oid) = id_generation oid
      then strong (slots core ! id_index oid) else 0)"

definition arc_dying :: "arc_core \<Rightarrow> object_id \<Rightarrow> bool" where
  "arc_dying core oid \<longleftrightarrow>
     id_index oid < length (slots core) \<and> generation (slots core ! id_index oid) = id_generation oid \<and>
     destroying (slots core ! id_index oid)"

section \<open>Identities\<close>

lemma id_slot_from_parts [simp]: "id_slot (from_parts i g) = i"
  unfolding id_slot_def from_parts_def
  by (rule bit_word_eqI) (auto simp: bit_simps dest: bit_imp_le_length)

lemma id_generation_from_parts [simp]: "id_generation (from_parts i g) = g"
  unfolding id_generation_def from_parts_def by (rule bit_word_eqI) (auto simp: bit_simps)

lemma from_parts_id [simp]: "from_parts (id_slot oid) (id_generation oid) = oid"
  unfolding id_slot_def id_generation_def from_parts_def
  by (rule bit_word_eqI) (auto simp: bit_simps)

lemma id_index_slot: "id_index oid = unat (id_slot oid)"
proof -
  have "unat (drop_bit 32 oid) = unat oid div 2 ^ 32"
    by (simp add: drop_bit_eq_div unat_div)
  moreover have "unat oid div 2 ^ 32 < 2 ^ 32"
    by (rule less_mult_imp_div_less, rule order_less_le_trans [OF unsigned_less]) simp
  ultimately show ?thesis
    by (simp add: id_index_def id_slot_def unsigned_ucast_eq take_bit_eq_mod)
qed

lemma id_index_from_parts [simp]: "id_index (from_parts i g) = unat i"
  by (simp add: id_index_slot)

lemma object_id_eqI: "id_index a = id_index b \<Longrightarrow> id_generation a = id_generation b \<Longrightarrow> a = b"
  by (metis from_parts_id id_index_slot word_eq_iff_unsigned)

lemma object_id_neq:
  "x \<noteq> oid \<Longrightarrow> id_index oid = id_index x \<Longrightarrow> id_generation x \<noteq> id_generation oid"
  using object_id_eqI by metis

lemma next_generation_nonzero [simp]: "next_generation g \<noteq> 0"
  by (auto simp: next_generation_def max_def)

lemma next_generation_changes: "next_generation g \<noteq> g"
  by (auto simp: next_generation_def max_def word_le_nat_alt split: if_splits)

section \<open>The trace changes nothing but its lines\<close>

lemma arc_stderr_irrelevant [simp]:
  "arc_inv (core\<lparr>arc_stderr := l\<rparr>) = arc_inv core"
  "arc_count (core\<lparr>arc_stderr := l\<rparr>) = arc_count core"
  "arc_dying (core\<lparr>arc_stderr := l\<rparr>) = arc_dying core"
  "alive (core\<lparr>arc_stderr := l\<rparr>) = alive core"
  by (simp_all add: arc_inv_def arc_count_def arc_dying_def alive_def fun_eq_iff)

lemma arc_trace_Done:
  assumes "id_index oid < length (slots core)"
  obtains l where "arc_trace core event oid at = Done (core\<lparr>arc_stderr := l\<rparr>)"
proof (cases "trace core")
  case True
  then show ?thesis using assms that by (simp add: arc_trace_def Let_def)
next
  case False
  then show ?thesis using that [of "arc_stderr core"] by (simp add: arc_trace_def)
qed

section \<open>Slots\<close>

lemma find_slot_Inr:
  "find_slot core oid = Inr s \<longleftrightarrow>
     id_index oid < length (slots core) \<and> s = slots core ! id_index oid \<and>
     generation s = id_generation oid \<and> \<not> vacant s"
  by (auto simp: find_slot_def vacant_def)

lemma find_slot_Inl:
  "arc_inv core \<Longrightarrow> find_slot core oid = Inl e \<longleftrightarrow>
     e = NotAlive oid \<and> arc_count core oid = 0 \<and> \<not> arc_dying core oid"
  by (auto simp: find_slot_def arc_count_def arc_dying_def split: if_splits)

lemma alive_iff_count: "alive core oid \<longleftrightarrow> 0 < arc_count core oid"
  by (auto simp: alive_def arc_count_def)

lemma slots_put_slot [simp]: "slots (put_slot core oid s) = (slots core)[id_index oid := s]"
  "free (put_slot core oid s) = free core"
  "first_generation (put_slot core oid s) = first_generation core"
  by (simp_all add: put_slot_def)

lemma arc_inv_slot:
  "arc_inv core \<Longrightarrow> i < length (slots core) \<Longrightarrow> slot_ok (slots core ! i)"
  by (simp add: arc_inv_def)

lemma arc_inv_put_slot:
  assumes "arc_inv core" "slot_ok s" "id_index oid < length (slots core)"
    and "vacant s \<longleftrightarrow> vacant (slots core ! id_index oid)"
  shows "arc_inv (put_slot core oid s)"
  using assms by (simp add: arc_inv_def nth_list_update)

lemma count_put_slot:
  assumes "id_index oid < length (slots core)" "generation s = id_generation oid"
    "generation (slots core ! id_index oid) = id_generation oid"
  shows "arc_count (put_slot core oid s) = (arc_count core)(oid := strong s)"
    and "arc_dying (put_slot core oid s) = (arc_dying core)(oid := destroying s)"
  using assms by (auto simp: arc_count_def arc_dying_def fun_eq_iff nth_list_update dest: object_id_neq)

lemma live_slot:
  assumes "arc_inv core" "0 < arc_count core oid"
  shows "find_slot core oid = Inr (slots core ! id_index oid)"
    and "id_index oid < length (slots core)"
    and "strong (slots core ! id_index oid) = arc_count core oid"
    and "\<not> destroying (slots core ! id_index oid)"
    and "generation (slots core ! id_index oid) = id_generation oid"
    and "slot_ok (slots core ! id_index oid)"
proof -
  from assms(2) show *: "id_index oid < length (slots core)"
    "strong (slots core ! id_index oid) = arc_count core oid"
    "generation (slots core ! id_index oid) = id_generation oid"
    by (auto simp: arc_count_def split: if_splits)
  then show ok: "slot_ok (slots core ! id_index oid)" using arc_inv_slot [OF assms(1)] by simp
  then show "\<not> destroying (slots core ! id_index oid)" using *(2) assms(2) by (simp add: slot_ok_def)
  show "find_slot core oid = Inr (slots core ! id_index oid)"
    using * assms(2) by (simp add: find_slot_def)
qed

lemma live_not_dying: "arc_inv core \<Longrightarrow> 0 < arc_count core oid \<Longrightarrow> \<not> arc_dying core oid"
  using live_slot(4) by (auto simp: arc_dying_def)

section \<open>The operations on the abstract view\<close>

lemma arc_retain_live:
  assumes "arc_inv core" "0 < arc_count core oid" "arc_count core oid < 2 ^ 64 - 1"
  obtains core' where "arc_retain core oid at = Done (Inr (core', arc_count core oid + 1))"
    "arc_inv core'" "arc_count core' = (arc_count core)(oid := arc_count core oid + 1)"
    "arc_dying core' = arc_dying core"
proof -
  note s = live_slot [OF assms(1,2)]
  define s' where "s' = (slots core ! id_index oid)\<lparr>strong := arc_count core oid + 1\<rparr>"
  obtain l where t: "arc_trace (put_slot core oid s') ''retain'' oid at =
      Done ((put_slot core oid s')\<lparr>arc_stderr := l\<rparr>)"
    by (rule arc_trace_Done [of oid "put_slot core oid s'"]) (use s(2) in simp)
  have inv: "arc_inv (put_slot core oid s')"
    using s assms by (intro arc_inv_put_slot) (auto simp: s'_def slot_ok_def vacant_def)
  have "arc_retain core oid at =
      Done (Inr ((put_slot core oid s')\<lparr>arc_stderr := l\<rparr>, arc_count core oid + 1))"
    using s assms(3) t unfolding s'_def by (simp add: arc_retain_def)
  then show thesis
    using that inv count_put_slot [OF s(2) _ s(5), of s'] live_not_dying [OF assms(1,2)] s(4,5)
    by (auto simp: s'_def fun_upd_idem)
qed

lemma arc_release_live:
  assumes "arc_inv core" "0 < arc_count core oid"
  obtains core' where "arc_release core oid at = Done (Inr (core', arc_count core oid = 1))"
    "arc_inv core'" "arc_count core' = (arc_count core)(oid := arc_count core oid - 1)"
    "arc_dying core' = (arc_dying core)(oid := arc_count core oid = 1)"
proof -
  note s = live_slot [OF assms]
  define s' where "s' = (slots core ! id_index oid)\<lparr>strong := arc_count core oid - 1,
    destroying := arc_count core oid - 1 = 0\<rparr>"
  obtain l where t: "arc_trace (put_slot core oid s') ''release'' oid at =
      Done ((put_slot core oid s')\<lparr>arc_stderr := l\<rparr>)"
    by (rule arc_trace_Done [of oid "put_slot core oid s'"]) (use s(2) in simp)
  obtain l' where t': "arc_trace ((put_slot core oid s')\<lparr>arc_stderr := l\<rparr>) ''destroy'' oid at =
      Done ((put_slot core oid s')\<lparr>arc_stderr := l'\<rparr>)"
    by (rule arc_trace_Done [of oid "(put_slot core oid s')\<lparr>arc_stderr := l\<rparr>"]) (use s(2) in auto)
  have inv: "arc_inv (put_slot core oid s')"
    using s assms by (intro arc_inv_put_slot) (auto simp: s'_def slot_ok_def vacant_def)
  have one: "arc_count core oid - Suc 0 = 0 \<longleftrightarrow> arc_count core oid = 1" using assms(2) by auto
  have "\<exists>l''. arc_release core oid at =
      Done (Inr ((put_slot core oid s')\<lparr>arc_stderr := l''\<rparr>, arc_count core oid = 1))"
    using s assms(2) t t' one unfolding s'_def by (auto simp: arc_release_def Let_def)
  then show thesis
    using that inv count_put_slot [OF s(2) _ s(5), of s'] s(5) one by (auto simp: s'_def)
qed

lemma dying_slot:
  assumes "arc_dying core oid" "arc_inv core"
  shows "find_slot core oid = Inr (slots core ! id_index oid)"
    and "id_index oid < length (slots core)"
    and "generation (slots core ! id_index oid) = id_generation oid"
    and "destroying (slots core ! id_index oid)"
    and "strong (slots core ! id_index oid) = 0"
    and "slot_ok (slots core ! id_index oid)"
    and "arc_count core oid = 0"
  using assms arc_inv_slot [OF assms(2), of "id_index oid"]
  by (auto simp: arc_dying_def arc_count_def slot_ok_def find_slot_Inr vacant_def)

text \<open>While the destructor runs the count is frozen.\<close>

lemma arc_frozen:
  assumes "arc_inv core" "arc_dying core oid"
  shows "arc_retain core oid at = Done (Inr (core, 0))" and "arc_release core oid at = Done (Inr (core, False))"
  using dying_slot [OF assms(2,1)] by (simp_all add: arc_retain_def arc_release_def)

lemma arc_dead:
  assumes "arc_inv core" "arc_count core oid = 0" "\<not> arc_dying core oid"
  shows "arc_retain core oid at = Done (Inl (NotAlive oid))" "arc_release core oid at = Done (Inl (NotAlive oid))"
    "finish_destroy core oid = Inl (NotAlive oid)"
proof -
  have "find_slot core oid = Inl (NotAlive oid)" using find_slot_Inl [OF assms(1)] assms(2,3) by blast
  then show "arc_retain core oid at = Done (Inl (NotAlive oid))"
    "arc_release core oid at = Done (Inl (NotAlive oid))" "finish_destroy core oid = Inl (NotAlive oid)"
    by (simp_all add: arc_retain_def arc_release_def finish_destroy_def)
qed

lemma word_index_inj: "i < 2 ^ 32 \<Longrightarrow> unat (word_of_nat i :: 32 word) = i"
  by (simp add: unat_of_nat take_bit_nat_eq_self)

lemma finish_destroy_dying:
  assumes "arc_inv core" "arc_dying core oid"
  obtains core' where "finish_destroy core oid = Inr core'" "arc_inv core'"
    "arc_count core' = arc_count core" "arc_dying core' = (arc_dying core)(oid := False)"
    "generation (slots core' ! id_index oid) = next_generation (id_generation oid)"
proof -
  note s = dying_slot [OF assms(2,1)]
  define s' where "s' = (slots core ! id_index oid)\<lparr>destroying := False,
    generation := next_generation (id_generation oid), slot_class := ''''\<rparr>"
  define core' where "core' = (put_slot core oid s')\<lparr>free := free core @ [id_slot oid]\<rparr>"
  have sl: "slots core' = (slots core)[id_index oid := s']" "free core' = free core @ [id_slot oid]"
    "first_generation core' = first_generation core"
    by (simp_all add: core'_def)
  have i: "unat (id_slot oid) = id_index oid" "word_of_nat (id_index oid) = id_slot oid"
    by (simp_all add: id_index_slot)
  have fr: "id_slot oid \<notin> set (free core)"
    using assms(1) s(2,4) i(2) by (auto simp: arc_inv_def vacant_def)
  have wi: "word_of_nat j = id_slot oid \<longleftrightarrow> j = id_index oid" if "j < length (slots core)" for j
    using that assms(1) word_index_inj [of j] i by (auto simp: arc_inv_def)
  have "arc_inv core'"
    using assms(1) s fr wi
    by (auto simp: arc_inv_def sl nth_list_update i s'_def slot_ok_def vacant_def)
  moreover have "arc_count core' = arc_count core" "arc_dying core' = (arc_dying core)(oid := False)"
    using s
    by (auto simp: arc_count_def arc_dying_def fun_eq_iff sl nth_list_update s'_def dest: object_id_neq)
  moreover have "finish_destroy core oid = Inr core'"
    using s by (simp add: finish_destroy_def Let_def core'_def s'_def)
  ultimately show thesis using that s(2) by (auto simp: sl s'_def)
qed

lemma finish_destroy_live:
  "arc_inv core \<Longrightarrow> 0 < arc_count core oid \<Longrightarrow> finish_destroy core oid = Inl (NotAlive oid)"
  using live_slot [of core oid] by (simp add: finish_destroy_def)

lemma new_slot_abs:
  assumes "id_index oid = i" "i \<le> length sl"
    and "i < length sl \<Longrightarrow> vacant (sl ! i) \<and> generation (sl ! i) = id_generation oid"
    and "slots core = sl" "generation s = id_generation oid" "\<not> destroying s"
    and "slots core' = (if i < length sl then sl[i := s] else sl @ [s])"
  shows "arc_count core oid = 0" "\<not> arc_dying core oid"
    "arc_count core' = (arc_count core)(oid := strong s)" "arc_dying core' = arc_dying core"
proof -
  have neq: "x \<noteq> oid \<Longrightarrow> id_index x = i \<Longrightarrow> id_generation x \<noteq> id_generation oid" for x
    using object_id_eqI assms(1) by metis
  show "arc_count core oid = 0" "\<not> arc_dying core oid"
    using assms by (auto simp: arc_count_def arc_dying_def vacant_def)
  show "arc_count core' = (arc_count core)(oid := strong s)" "arc_dying core' = arc_dying core"
    using assms
    by (auto simp: arc_count_def arc_dying_def fun_eq_iff nth_list_update nth_append vacant_def dest: neq)
qed

text \<open>A new object: a vacant slot of the free list, or a slot at the end.\<close>

lemma register_reuse:
  assumes inv: "arc_inv core" and f: "free core = fs @ [w]"
    and s: "s = (slots core ! unat w)\<lparr>strong := 1, destroying := False, address := addr, slot_class := cls\<rparr>"
    and oid: "oid = from_parts w (generation s)"
    and core': "core' = core\<lparr>free := fs, slots := (slots core)[unat w := s]\<rparr>"
  shows "unat w < length (slots core)" and "arc_inv core'" and "arc_count core oid = 0"
    and "\<not> arc_dying core oid" and "arc_count core' = (arc_count core)(oid := 1)"
    and "arc_dying core' = arc_dying core" and "generation s \<noteq> 0"
    and "\<exists>l. arc_register core cls addr at = Done (core'\<lparr>arc_stderr := l\<rparr>, oid)"
proof -
  show len: "unat w < length (slots core)" using inv f by (simp add: arc_inv_def)
  have old: "slot_ok (slots core ! unat w)" "vacant (slots core ! unat w)"
    using inv len f by (auto simp: arc_inv_def)
  have wi: "word_of_nat j = w \<longleftrightarrow> j = unat w" if "j < length (slots core)" for j
    using that inv word_index_inj [of j] by (auto simp: arc_inv_def)
  show "generation s \<noteq> 0" using old by (simp add: s slot_ok_def)
  have w: "w \<notin> set fs" "distinct fs" using inv f by (auto simp: arc_inv_def)
  have s': "slot_ok s" "\<not> vacant s" using old by (simp_all add: s slot_ok_def vacant_def)
  have "slot_ok (slots core' ! j) \<and> (word_of_nat j \<in> set fs \<longleftrightarrow> vacant (slots core' ! j))"
    if "j < length (slots core)" for j
    using that w s' inv wi [OF that] f len
    by (cases "j = unat w") (auto simp: core' arc_inv_def)
  then show "arc_inv core'"
    using inv f w(2) by (simp add: arc_inv_def core')
  have oi: "id_index oid = unat w" "id_generation oid = generation s" by (simp_all add: oid)
  have sf: "strong s = 1" "\<not> destroying s" "generation (slots core ! unat w) = generation s" by (simp_all add: s)
  have sl: "slots core' = (if unat w < length (slots core) then (slots core)[unat w := s] else slots core @ [s])"
    using len by (simp add: core')
  show "arc_count core oid = 0" "\<not> arc_dying core oid" "arc_count core' = (arc_count core)(oid := 1)"
    "arc_dying core' = arc_dying core"
    using new_slot_abs [OF oi(1) less_imp_le [OF len] _ refl oi(2) [symmetric] sf(2) sl] old(2) len sf oi(2)
    by simp_all
  obtain l where "arc_trace core' ''new'' oid at = Done (core'\<lparr>arc_stderr := l\<rparr>)"
    by (rule arc_trace_Done [of oid core' "''new''" at]) (simp add: oid core' len)
  then show "\<exists>l. arc_register core cls addr at = Done (core'\<lparr>arc_stderr := l\<rparr>, oid)"
    using f len by (auto simp: arc_register_def Let_def oid core' s)
qed

lemma register_grow:
  assumes inv: "arc_inv core" and f: "free core = []" and len: "length (slots core) < 2 ^ 32"
    and s: "s = \<lparr>generation = first_generation core, strong = 1, destroying = False,
      slot_class = cls, address = addr\<rparr>"
    and oid: "oid = from_parts (word_of_nat (length (slots core))) (first_generation core)"
    and core': "core' = core\<lparr>slots := slots core @ [s]\<rparr>"
  shows "arc_inv core'" and "arc_count core oid = 0" and "\<not> arc_dying core oid"
    and "arc_count core' = (arc_count core)(oid := 1)" and "arc_dying core' = arc_dying core"
    and "\<exists>l. arc_register core cls addr at = Done (core'\<lparr>arc_stderr := l\<rparr>, oid)"
proof -
  note i = word_index_inj [OF len]
  show "arc_inv core'"
    using inv f len by (auto simp: arc_inv_def core' s slot_ok_def vacant_def nth_append less_Suc_eq)
  show "arc_count core oid = 0" "\<not> arc_dying core oid" "arc_count core' = (arc_count core)(oid := 1)"
    "arc_dying core' = arc_dying core"
    using new_slot_abs [of oid "length (slots core)" "slots core" core s core'] i by (simp_all add: oid core' s)
  obtain l where "arc_trace core' ''new'' oid at = Done (core'\<lparr>arc_stderr := l\<rparr>)"
    by (rule arc_trace_Done [of oid core' "''new''" at]) (simp add: oid core' i)
  then show "\<exists>l. arc_register core cls addr at = Done (core'\<lparr>arc_stderr := l\<rparr>, oid)"
    using f len by (auto simp: arc_register_def Let_def oid core' s)
qed

lemma from_parts_nonzero: "g \<noteq> 0 \<Longrightarrow> from_parts w g \<noteq> 0"
  using id_generation_from_parts [of w g] by (auto simp: id_generation_def)

lemma arc_register_new:
  assumes inv: "arc_inv core" and room: "free core \<noteq> [] \<or> length (slots core) < 2 ^ 32"
  obtains core' oid where "arc_register core cls addr at = Done (core', oid)" "arc_inv core'"
    "arc_count core oid = 0" "\<not> arc_dying core oid" "oid \<noteq> 0"
    "arc_count core' = (arc_count core)(oid := 1)" "arc_dying core' = arc_dying core"
proof (cases "free core" rule: rev_cases)
  case Nil
  with room have len: "length (slots core) < 2 ^ 32" by simp
  note r = register_grow [OF inv Nil len refl refl refl]
  then show ?thesis
    using that inv by (metis arc_stderr_irrelevant(1-3) arc_inv_def from_parts_nonzero)
next
  case (snoc fs w)
  note r = register_reuse [OF inv snoc refl refl refl]
  then show ?thesis using that by (metis arc_stderr_irrelevant(1-3) from_parts_nonzero)
qed

lemma arc_register_full:
  "free core = [] \<Longrightarrow> 2 ^ 32 \<le> length (slots core) \<Longrightarrow> arc_register core cls addr at = Panic"
  by (simp add: arc_register_def)

lemma arc_new_inv: "arc_inv (with_first_generation g)"
  by (simp add: arc_inv_def with_first_generation_def)

text \<open>No identity of the slot a new object takes was in use before.\<close>

lemma arc_register_slot:
  assumes inv: "arc_inv core" and r: "arc_register core cls addr at = Done (core', oid)"
    and x: "id_slot x = id_slot oid"
  shows "arc_count core x = 0 \<and> \<not> arc_dying core x"
proof (cases "free core" rule: rev_cases)
  case Nil
  then have len: "length (slots core) < 2 ^ 32" using r arc_register_full [of core] by force
  have "oid = from_parts (word_of_nat (length (slots core))) (first_generation core)"
    using register_grow(6) [OF inv Nil len refl refl refl, of cls addr at] r by auto
  then have "id_index x = length (slots core)" using word_index_inj [OF len] x by (simp add: id_index_slot)
  then show ?thesis by (simp add: arc_count_def arc_dying_def)
next
  case (snoc fs w)
  note u = register_reuse [OF inv snoc refl refl refl]
  have "id_slot oid = w" using u(8) [of cls addr at] r by auto
  then have i: "id_index x = unat w" using x by (simp add: id_index_slot)
  have "vacant (slots core ! unat w)" using inv snoc u(1) by (auto simp: arc_inv_def)
  then show ?thesis by (simp add: arc_count_def arc_dying_def i vacant_def)
qed

section \<open>Reference counting as an interface\<close>

text \<open>The specification the callers of the core rely on: a sequence of retains
  (\<open>True\<close>) and releases (\<open>False\<close>) on counted identities, on the counts alone.
  It yields the identities whose last reference went, in order; it has no result
  when an operation names an identity without references.\<close>

fun ref_spec :: "(bool \<times> 'i) list \<Rightarrow> ('i \<Rightarrow> nat) \<Rightarrow> (('i \<Rightarrow> nat) \<times> 'i list) option" where
  "ref_spec [] m = Some (m, [])"
| "ref_spec ((up, i) # ops) m =
     (if m i = 0 then None
      else if up then ref_spec ops (m(i := m i + 1))
      else map_option (\<lambda>(m', ds). (m', if m i = 1 then i # ds else ds)) (ref_spec ops (m(i := m i - 1))))"

text \<open>The same sequence through the operations of an implementation.\<close>

fun run_refs ::
  "('c \<Rightarrow> 'i \<Rightarrow> ('e + ('c \<times> nat)) outcome) \<Rightarrow> ('c \<Rightarrow> 'i \<Rightarrow> ('e + ('c \<times> bool)) outcome) \<Rightarrow>
   (bool \<times> 'i) list \<Rightarrow> 'c \<Rightarrow> ('c \<times> 'i list) option" where
  "run_refs retain release [] c = Some (c, [])"
| "run_refs retain release ((up, i) # ops) c =
     (if up
      then case retain c i of Done (Inr (c', _)) \<Rightarrow> run_refs retain release ops c' | _ \<Rightarrow> None
      else case release c i of
             Done (Inr (c', final)) \<Rightarrow>
               map_option (\<lambda>(c'', ds). (c'', if final then i # ds else ds)) (run_refs retain release ops c')
           | _ \<Rightarrow> None)"

locale ref_counting =
  fixes inv :: "'c \<Rightarrow> bool"
    and count :: "'c \<Rightarrow> 'i \<Rightarrow> nat"
    and dying :: "'c \<Rightarrow> 'i \<Rightarrow> bool"
    and limit :: nat
    and retain :: "'c \<Rightarrow> 'i \<Rightarrow> ('e + ('c \<times> nat)) outcome"
    and release :: "'c \<Rightarrow> 'i \<Rightarrow> ('e + ('c \<times> bool)) outcome"
  assumes retain_law: "inv c \<Longrightarrow> 0 < count c i \<Longrightarrow> count c i < limit \<Longrightarrow>
      \<exists>c'. retain c i = Done (Inr (c', count c i + 1)) \<and> inv c' \<and>
        count c' = (count c)(i := count c i + 1) \<and> dying c' = dying c"
    and release_law: "inv c \<Longrightarrow> 0 < count c i \<Longrightarrow>
      \<exists>c'. release c i = Done (Inr (c', count c i = 1)) \<and> inv c' \<and>
        count c' = (count c)(i := count c i - 1) \<and> dying c' = (dying c)(i := (count c i = 1))"
    and dying_law: "inv c \<Longrightarrow> 0 < count c i \<Longrightarrow> \<not> dying c i"
begin

lemma run_refines:
  assumes "inv c" "ref_spec ops (count c) = Some (m, ds)" "\<forall>i. count c i + length ops \<le> limit"
  shows "\<exists>c'. run_refs retain release ops c = Some (c', ds) \<and> inv c' \<and> count c' = m \<and>
    (\<forall>i. dying c' i \<longleftrightarrow> dying c i \<or> i \<in> set ds)"
  using assms
proof (induction ops arbitrary: c ds)
  case (Cons op ops)
  obtain up i where op: "op = (up, i)" by (cases op)
  have pos: "0 < count c i" using Cons.prems(2) by (auto simp: op split: if_splits)
  have lim: "count c i < limit" using Cons.prems(3) [rule_format, of i] by simp
  show ?case
  proof (cases up)
    case True
    obtain c1 where c1: "retain c i = Done (Inr (c1, count c i + 1))" "inv c1"
        "count c1 = (count c)(i := count c i + 1)" "dying c1 = dying c"
      using retain_law [OF Cons.prems(1) pos lim] by blast
    have "count c1 j + length ops \<le> limit" for j
      using Cons.prems(3) [rule_format, of j] by (auto simp: c1(3))
    moreover have "ref_spec ops (count c1) = Some (m, ds)"
      using Cons.prems(2) pos True by (simp add: op c1(3))
    ultimately show ?thesis
      using Cons.IH [OF c1(2), of ds] True by (simp add: op c1(1,4))
  next
    case False
    obtain c1 where c1: "release c i = Done (Inr (c1, count c i = 1))" "inv c1"
        "count c1 = (count c)(i := count c i - 1)" "dying c1 = (dying c)(i := (count c i = 1))"
      using release_law [OF Cons.prems(1) pos] by blast
    obtain ds1 where ds1: "ref_spec ops (count c1) = Some (m, ds1)"
        and ds: "ds = (if count c i = 1 then i # ds1 else ds1)"
      using Cons.prems(2) pos False by (auto simp: op c1(3))
    have "count c1 j + length ops \<le> limit" for j
      using Cons.prems(3) [rule_format, of j] by (auto simp: c1(3))
    then obtain c' where c': "run_refs retain release ops c1 = Some (c', ds1)" "inv c'" "count c' = m"
        "\<forall>i. dying c' i \<longleftrightarrow> dying c1 i \<or> i \<in> set ds1"
      using Cons.IH [OF c1(2) ds1] by blast
    moreover have "\<not> dying c i" by (rule dying_law [OF Cons.prems(1) pos])
    ultimately show ?thesis using False c1 by (auto simp: op ds)
  qed
qed simp

end

interpretation arc: ref_counting arc_inv arc_count arc_dying "2 ^ 64 - 1"
  "\<lambda>c i. arc_retain c i at" "\<lambda>c i. arc_release c i at" for at
proof unfold_locales
  fix c :: arc_core and i
  assume a: "arc_inv c" "0 < arc_count c i"
  then show "\<not> arc_dying c i" by (rule live_not_dying)
  show "\<exists>c'. arc_release c i at = Done (Inr (c', arc_count c i = 1)) \<and> arc_inv c' \<and>
      arc_count c' = (arc_count c)(i := arc_count c i - 1) \<and>
      arc_dying c' = (arc_dying c)(i := (arc_count c i = 1))"
    using a by (metis arc_release_live)
  assume "arc_count c i < 2 ^ 64 - 1"
  with a show "\<exists>c'. arc_retain c i at = Done (Inr (c', arc_count c i + 1)) \<and> arc_inv c' \<and>
      arc_count c' = (arc_count c)(i := arc_count c i + 1) \<and> arc_dying c' = arc_dying c"
    by (metis arc_retain_live)
qed

section \<open>Runs of the core\<close>

text \<open>Every operation that changes the core, as a labelled step; the label of a
  finished destruction names the object.\<close>

datatype arc_event = Registered object_id | Counted object_id | Finished object_id | Traced

inductive arc_step :: "arc_core \<Rightarrow> arc_event \<Rightarrow> arc_core \<Rightarrow> bool" where
  step_register: "arc_register c cls addr at = Done (c', oid) \<Longrightarrow> arc_step c (Registered oid) c'"
| step_retain: "arc_retain c oid at = Done (Inr (c', n)) \<Longrightarrow> arc_step c (Counted oid) c'"
| step_release: "arc_release c oid at = Done (Inr (c', final)) \<Longrightarrow> arc_step c (Counted oid) c'"
| step_finish: "finish_destroy c oid = Inr c' \<Longrightarrow> arc_step c (Finished oid) c'"
| step_trace: "arc_step c Traced (set_trace on c)"

inductive arc_run :: "arc_core \<Rightarrow> arc_event list \<Rightarrow> arc_core \<Rightarrow> bool" where
  run_nil: "arc_run c [] c"
| run_cons: "arc_step c e c' \<Longrightarrow> arc_run c' es c'' \<Longrightarrow> arc_run c (e # es) c''"

text \<open>How often a slot was freed in a run.\<close>

fun frees_of :: "nat \<Rightarrow> arc_event list \<Rightarrow> nat" where
  "frees_of i [] = 0"
| "frees_of i (Finished oid # es) = (if id_index oid = i then Suc (frees_of i es) else frees_of i es)"
| "frees_of i (_ # es) = frees_of i es"

lemma arc_inv_set_trace [simp]: "arc_inv (set_trace on c) = arc_inv c"
  by (simp add: arc_inv_def set_trace_def)

lemma arc_step_inv:
  assumes "arc_step c e c'" "arc_inv c"
  shows "arc_inv c'"
  using assms(1)
proof cases
  case (step_register cls addr at oid)
  then have "free c \<noteq> [] \<or> length (slots c) < 2 ^ 32" using arc_register_full [of c] by force
  from arc_register_new [OF assms(2) this, of cls addr at] step_register(2) show ?thesis by auto
next
  case (step_retain oid at n)
  consider "arc_dying c oid" | "0 < arc_count c oid" | "arc_count c oid = 0" "\<not> arc_dying c oid" by blast
  then show ?thesis
  proof cases
    case 2
    then have "arc_count c oid < 2 ^ 64 - 1"
      using step_retain(2) live_slot [OF assms(2) 2]
      by (intro notI [THEN not_le_imp_less]) (simp add: arc_retain_def)
    with 2 show ?thesis
      using step_retain(2) by (elim arc_retain_live [OF assms(2), of oid at]) auto
  qed (use step_retain(2) assms(2) arc_frozen [OF assms(2)] arc_dead [OF assms(2)] in auto)
next
  case (step_release oid at final)
  consider "arc_dying c oid" | "0 < arc_count c oid" | "arc_count c oid = 0" "\<not> arc_dying c oid" by blast
  then show ?thesis
  proof cases
    case 2
    then show ?thesis
      using step_release(2) by (elim arc_release_live [OF assms(2), of oid at]) simp
  qed (use step_release(2) assms(2) arc_frozen [OF assms(2)] arc_dead [OF assms(2)] in auto)
next
  case (step_finish oid)
  then have "arc_dying c oid"
    using finish_destroy_live [OF assms(2), of oid] arc_dead(3) [OF assms(2), of oid] by fastforce
  then show ?thesis
    using step_finish(2) by (elim finish_destroy_dying [OF assms(2)]) simp
next
  case (step_trace on)
  then show ?thesis using assms(2) by simp
qed

text \<open>Only a finished destruction changes a slot's generation.\<close>

lemma arc_trace_slots: "arc_trace core ev oid at = Done c \<Longrightarrow> slots c = slots core"
  by (auto simp: arc_trace_def Let_def split: if_splits)

lemma bind_outcome_DoneE:
  assumes "bind_outcome m f = Done y" obtains x where "m = Done x" "f x = Done y"
  using assms by (cases m) auto

lemma arc_step_generation:
  assumes "arc_step c e c'" "i < length (slots c)"
  shows "length (slots c) \<le> length (slots c') \<and>
    generation (slots c' ! i) = (next_generation ^^ frees_of i [e]) (generation (slots c ! i))"
  using assms(1)
proof cases
  case (step_register cls addr at oid)
  then show ?thesis using assms(2)
    by (auto simp: arc_register_def Let_def nth_list_update nth_append elim!: bind_outcome_DoneE
        dest!: arc_trace_slots split: if_splits)
next
  case (step_retain oid at n)
  then show ?thesis using assms(2)
    by (auto simp: arc_retain_def nth_list_update find_slot_Inr elim!: bind_outcome_DoneE
        dest!: arc_trace_slots split: if_splits sum.splits)
next
  case (step_release oid at final)
  then show ?thesis using assms(2)
    by (auto simp: arc_release_def Let_def nth_list_update find_slot_Inr elim!: bind_outcome_DoneE
        dest!: arc_trace_slots split: if_splits sum.splits)
next
  case (step_finish oid)
  then show ?thesis using assms(2)
    by (auto simp: finish_destroy_def Let_def nth_list_update find_slot_Inr split: if_splits sum.splits)
next
  case (step_trace on)
  then show ?thesis by (simp add: set_trace_def)
qed

lemma frees_of_Cons: "frees_of i (e # es) = frees_of i [e] + frees_of i es"
  by (cases e) simp_all

lemma arc_run_generation:
  "arc_run c es c' \<Longrightarrow> i < length (slots c) \<Longrightarrow>
   i < length (slots c') \<and>
   generation (slots c' ! i) = (next_generation ^^ frees_of i es) (generation (slots c ! i))"
proof (induction rule: arc_run.induct)
  case (run_cons c e c' es c'')
  note st = arc_step_generation [OF run_cons.hyps(1) run_cons.prems]
  then show ?case using run_cons.IH run_cons.prems
    by (simp add: frees_of_Cons [of i e es] add.commute [of "frees_of i [e]"] funpow_add)
qed simp

lemma arc_run_inv: "arc_run c es c' \<Longrightarrow> arc_inv c \<Longrightarrow> arc_inv c'"
  by (induction rule: arc_run.induct) (auto intro: arc_step_inv)

text \<open>Generations go through the \<open>2\<^sup>3\<^sup>2 - 1\<close> values other than zero in turn.\<close>

lemma unat_next_generation:
  assumes "g \<noteq> 0"
  shows "unat (next_generation g) = unat g mod (2 ^ 32 - 1) + 1"
proof (cases "g = - 1")
  case True
  then have "next_generation g = 1" by (simp add: next_generation_def max_def)
  then show ?thesis using True by (simp add: unsigned_minus_1_eq_mask mask_eq_exp_minus_1)
next
  case False
  have lt: "unat g < 2 ^ 32 - 1"
  proof -
    have "unat g \<noteq> unat (- 1 :: 32 word)" using False by (simp add: word_eq_iff_unsigned [where ?'a = nat])
    moreover have "unat g < 2 ^ 32" by (rule order_less_le_trans [OF unsigned_less]) simp
    ultimately show ?thesis by (simp add: unsigned_minus_1_eq_mask mask_eq_exp_minus_1)
  qed
  then have "unat (g + 1) = unat g + 1" by (simp add: unat_plus_if')
  moreover have "1 \<le> g + 1" using calculation by (simp add: word_le_nat_alt)
  ultimately show ?thesis using lt by (simp add: next_generation_def max_def)
qed

lemma unat_next_generation_power:
  assumes "g \<noteq> 0"
  shows "unat ((next_generation ^^ k) g) = (unat g - 1 + k) mod (2 ^ 32 - 1) + 1"
proof (induction k)
  case 0
  have "unat g < 2 ^ 32" by (rule order_less_le_trans [OF unsigned_less]) simp
  moreover have "0 < unat g" using assms by (simp add: unat_gt_0)
  ultimately show ?case by simp
next
  case (Suc k)
  have "(next_generation ^^ k) g \<noteq> 0"
    using Suc by (metis Suc_eq_plus1 nat.distinct(1) unsigned_0)
  then have "unat ((next_generation ^^ Suc k) g) = ((unat g - 1 + k) mod (2 ^ 32 - 1) + 1) mod (2 ^ 32 - 1) + 1"
    by (simp add: unat_next_generation Suc)
  then show ?case by (simp add: mod_add_left_eq mod_Suc_eq)
qed

lemma generation_cycle:
  assumes "g \<noteq> 0" "0 < k" "k < 2 ^ 32 - 1"
  shows "(next_generation ^^ k) g \<noteq> g"
proof
  assume "(next_generation ^^ k) g = g"
  then have "unat ((next_generation ^^ k) g) = unat ((next_generation ^^ 0) g)" by simp
  then have "(unat g - 1 + k) mod (2 ^ 32 - 1) = (unat g - 1) mod (2 ^ 32 - 1)"
    unfolding unat_next_generation_power [OF assms(1)] by simp
  then have "(2 ^ 32 - 1) dvd k" by (simp add: mod_eq_dvd_iff_nat)
  then show False using assms(2,3) by (auto dest: dvd_imp_le)
qed

lemma snapshot_live:
  assumes "arc_inv core"
  shows "info \<in> set (snapshot core) \<longleftrightarrow>
    alive core (info_id info) \<and> arc_info core (info_id info) = Some info"
proof -
  have len: "length (slots core) \<le> 2 ^ 32" using assms by (simp add: arc_inv_def)
  have mem: "info \<in> set (snapshot core) \<longleftrightarrow> (\<exists>i < length (slots core). 0 < strong (slots core ! i) \<and>
      info = \<lparr>info_id = from_parts (word_of_nat i) (generation (slots core ! i)),
        info_class = slot_class (slots core ! i), info_strong = strong (slots core ! i)\<rparr>)"
    by (auto simp: snapshot_def in_set_enumerate_eq image_iff)
  show ?thesis
  proof
    assume "info \<in> set (snapshot core)"
    then obtain i where i: "i < length (slots core)" "0 < strong (slots core ! i)"
        "info = \<lparr>info_id = from_parts (word_of_nat i) (generation (slots core ! i)),
          info_class = slot_class (slots core ! i), info_strong = strong (slots core ! i)\<rparr>"
      using mem by blast
    then have "id_index (info_id info) = i" using len word_index_inj [of i] by simp
    with i show "alive core (info_id info) \<and> arc_info core (info_id info) = Some info"
      by (simp add: alive_def arc_info_def Let_def)
  next
    assume a: "alive core (info_id info) \<and> arc_info core (info_id info) = Some info"
    define i where "i = id_index (info_id info)"
    have "word_of_nat i = id_slot (info_id info)" by (simp add: i_def id_index_slot)
    then have "from_parts (word_of_nat i) (generation (slots core ! i)) = info_id info"
      using a from_parts_id [of "info_id info"] by (simp add: alive_def i_def)
    with a show "info \<in> set (snapshot core)"
      unfolding mem by (intro exI [of _ i]) (auto simp: alive_def arc_info_def Let_def i_def)
  qed
qed

section \<open>Properties\<close>

text \<open>C5: the core implements reference counting: for every sequence of retains
  and releases that the counts permit, the core performs it without error or
  panic, its counts are those of the specification, and it reports as destroyed
  exactly the objects whose last reference went, in order.\<close>

theorem arc_refines_counting:
  assumes "arc_inv core" "ref_spec ops (arc_count core) = Some (m, ds)"
    and "\<forall>i. arc_count core i + length ops \<le> 2 ^ 64 - 1"
  shows "\<exists>core'. run_refs (\<lambda>c i. arc_retain c i at) (\<lambda>c i. arc_release c i at) ops core = Some (core', ds) \<and>
    arc_inv core' \<and> arc_count core' = m \<and> (\<forall>i. arc_dying core' i \<longleftrightarrow> arc_dying core i \<or> i \<in> set ds)"
  using arc.run_refines [OF assms] .

definition sample_core :: arc_core where
  "sample_core = \<lparr>slots = [\<lparr>generation = 1, strong = 1, destroying = False, slot_class = ''Node'', address = 0\<rparr>],
     free = [], trace = False, first_generation = 1, arc_stderr = []\<rparr>"

lemma sample_core_inv: "arc_inv sample_core"
  by (simp add: sample_core_def arc_inv_def slot_ok_def vacant_def)

lemma sample_core_count: "arc_count sample_core i = (if i = 1 then 1 else 0)"
proof -
  have "id_index 1 = 0" "id_generation 1 = 1" by (simp_all add: id_index_def id_generation_def drop_bit_eq_div)
  then show ?thesis using object_id_eqI [of i 1] by (auto simp: arc_count_def sample_core_def)
qed

theorem arc_refines_counting_witness:
  "\<exists>core'. run_refs (\<lambda>c i. arc_retain c i \<lparr>site_line = 1, site_column = 1\<rparr>)
      (\<lambda>c i. arc_release c i \<lparr>site_line = 1, site_column = 1\<rparr>)
      [(True, 1), (False, 1), (False, 1)] sample_core = Some (core', [1])"
proof -
  have m: "ref_spec [(True, 1), (False, 1), (False, 1)] (arc_count sample_core) =
      Some ((arc_count sample_core)(1 := 0), [1])"
    by (simp add: sample_core_count)
  have "\<forall>i. arc_count sample_core i + length [(True, 1), (False, 1), (False, 1 :: object_id)] \<le> 2 ^ 64 - 1"
    by (simp add: sample_core_count)
  from arc_refines_counting [OF sample_core_inv m this] show ?thesis by blast
qed

text \<open>C27: a weak reference never names another object: once an object's
  destruction is finished its identity is not alive and reads address zero in
  every later state of the core, through any operations, until its slot has
  been freed 4294967294 more times.\<close>

theorem arc_weak_reads_null:
  assumes "arc_inv core" "finish_destroy core oid = Inr core1" "arc_run core1 es core2"
    and "frees_of (id_index oid) es < 2 ^ 32 - 2"
  shows "\<not> alive core2 oid \<and> arc_address core2 oid = 0"
proof -
  have dying: "arc_dying core oid"
    using assms(2) finish_destroy_live [OF assms(1), of oid] arc_dead(3) [OF assms(1), of oid] by fastforce
  note s = dying_slot [OF dying assms(1)]
  have i: "id_index oid < length (slots core1)"
      "generation (slots core1 ! id_index oid) = next_generation (id_generation oid)"
    using arc_step_generation [OF step_finish [OF assms(2)] s(2)] s(2,3) by simp_all
  have "generation (slots core2 ! id_index oid) =
      (next_generation ^^ Suc (frees_of (id_index oid) es)) (id_generation oid)"
    using arc_run_generation [OF assms(3) i(1)] i(2) by (simp add: funpow_swap1)
  moreover have "id_generation oid \<noteq> 0" using s(3,6) by (simp add: slot_ok_def)
  then have "(next_generation ^^ Suc (frees_of (id_index oid) es)) (id_generation oid) \<noteq> id_generation oid"
    using assms(4) by (intro generation_cycle) simp_all
  ultimately have "\<not> alive core2 oid" by (simp add: alive_def)
  then show ?thesis by (simp add: arc_address_def)
qed

definition dying_core :: arc_core where
  "dying_core = \<lparr>slots = [\<lparr>generation = 1, strong = 0, destroying = True, slot_class = ''Node'', address = 7\<rparr>],
     free = [], trace = False, first_generation = 1, arc_stderr = []\<rparr>"

theorem arc_weak_reads_null_witness:
  "\<exists>core1 core2 oid. finish_destroy dying_core 1 = Inr core1 \<and>
     arc_run core1 [Registered oid] core2 \<and> \<not> alive core2 1 \<and> arc_address core2 1 = 0"
proof -
  have inv: "arc_inv dying_core" by (simp add: dying_core_def arc_inv_def slot_ok_def vacant_def)
  have d: "arc_dying dying_core 1"
    by (simp add: dying_core_def arc_dying_def id_index_def id_generation_def drop_bit_eq_div)
  obtain core1 where c1: "finish_destroy dying_core 1 = Inr core1" "arc_inv core1"
    by (rule finish_destroy_dying [OF inv d])
  then have "free core1 \<noteq> []" by (auto simp: finish_destroy_def Let_def split: sum.splits if_splits)
  then obtain core2 oid where "arc_register core1 ''Leaf'' 9 \<lparr>site_line = 1, site_column = 1\<rparr> = Done (core2, oid)"
    using arc_register_new [OF c1(2)] by metis
  then have r: "arc_run core1 [Registered oid] core2" by (auto intro: run_cons run_nil step_register)
  show ?thesis using arc_weak_reads_null [OF inv c1(1) r] c1(1) r by auto
qed

text \<open>C28: every state the core reaches from an empty one, through any sequence
  of operations, satisfies the invariant, and its snapshot lists exactly the
  live objects with their class and count.\<close>

theorem arc_reachable_wellformed:
  assumes "arc_run (with_first_generation g) es core"
  shows "arc_inv core \<and>
    (\<forall>info. info \<in> set (snapshot core) \<longleftrightarrow>
      alive core (info_id info) \<and> arc_info core (info_id info) = Some info)"
  using arc_run_inv [OF assms arc_new_inv] snapshot_live by blast

theorem arc_reachable_wellformed_witness:
  "\<exists>core oid. arc_run (with_first_generation 0) [Registered oid] core \<and> arc_inv core"
proof -
  have "length (slots (with_first_generation 0)) < 2 ^ 32" by (simp add: with_first_generation_def)
  then obtain core oid where
    "arc_register (with_first_generation 0) ''Node'' 0 \<lparr>site_line = 1, site_column = 1\<rparr> = Done (core, oid)"
    using arc_register_new [OF arc_new_inv disjI2] by metis
  then have "arc_run (with_first_generation 0) [Registered oid] core"
    by (auto intro: run_cons run_nil step_register)
  with arc_reachable_wellformed [OF this] show ?thesis by blast
qed

text \<open>Registering an object yields an identity that named nothing before
  (neither a live object nor one being destroyed) and is never zero, with one
  reference, and leaves every other object as it was; it panics exactly when
  \<open>2\<^sup>3\<^sup>2\<close> slots are in use.\<close>

theorem arc_register_fresh:
  assumes "arc_inv core"
  shows "(arc_register core cls addr at = Panic \<longleftrightarrow> free core = [] \<and> length (slots core) = 2 ^ 32) \<and>
    (\<forall>core' oid. arc_register core cls addr at = Done (core', oid) \<longrightarrow>
      arc_count core oid = 0 \<and> \<not> arc_dying core oid \<and> oid \<noteq> 0 \<and> arc_inv core' \<and>
      arc_count core' = (arc_count core)(oid := 1) \<and> arc_dying core' = arc_dying core)"
proof (cases "free core = [] \<and> \<not> length (slots core) < 2 ^ 32")
  case True
  moreover have "length (slots core) \<le> 2 ^ 32" using assms by (simp add: arc_inv_def)
  ultimately show ?thesis using arc_register_full [of core cls addr at] by auto
next
  case False
  then have "free core \<noteq> [] \<or> length (slots core) < 2 ^ 32" by blast
  then obtain core' oid where r: "arc_register core cls addr at = Done (core', oid)" "arc_inv core'"
      "arc_count core oid = 0" "\<not> arc_dying core oid" "oid \<noteq> 0"
      "arc_count core' = (arc_count core)(oid := 1)" "arc_dying core' = arc_dying core"
    by (rule arc_register_new [OF assms])
  show ?thesis unfolding r(1) using False r(2-7) by auto
qed

theorem arc_register_fresh_witness:
  "arc_register sample_core ''Leaf'' 0 \<lparr>site_line = 1, site_column = 1\<rparr> \<noteq> Panic"
  using arc_register_fresh [OF sample_core_inv, of "''Leaf''" 0 "\<lparr>site_line = 1, site_column = 1\<rparr>"]
  by (simp add: sample_core_def)

text \<open>Slot index and generation are exactly the two halves of an object
  identity.\<close>

theorem object_id_halves:
  "id_slot (from_parts i g) = i \<and> id_generation (from_parts i g) = g \<and>
   from_parts (id_slot oid) (id_generation oid) = oid \<and> id_index oid = unat (id_slot oid) \<and>
   (g \<noteq> 0 \<longrightarrow> from_parts i g \<noteq> 0)"
  using id_index_slot from_parts_nonzero by simp

theorem object_id_halves_witness: "from_parts 3 7 = 12884901895 \<and> from_parts 3 7 \<noteq> 0"
proof -
  have "from_parts 3 7 = 12884901895" by (simp add: from_parts_def push_bit_eq_mult)
  then show ?thesis using object_id_halves [of 3 7] by simp
qed

end
