(* ===== verification/BN_Class_Model.thy ===== *)
theory BN_Class_Model
  imports BN_Prelude "HOL-Library.AList"
begin

text \<open>
  Nominal subtyping: \<open>crates/bn_types/src/class_model.rs\<close>. The sorted maps are
  association lists with one entry per key (\<open>insert\<close> is \<open>AList.update\<close>), a
  \<open>BTreeSet\<close> of interfaces is a list without repetitions. The loop of
  \<open>ancestors\<close> terminates because each round adds a key to the visited set.
\<close>

section \<open>Definitions\<close>

record class_model =
  bases :: "(str \<times> str) list"
  interfaces :: "(str \<times> str list) list"

definition class_model_new :: class_model where
  "class_model_new = \<lparr>bases = [], interfaces = []\<rparr>"

definition add_base :: "str \<Rightarrow> str \<Rightarrow> class_model \<Rightarrow> class_model" where
  "add_base class_name base_name m = m\<lparr>bases := AList.update class_name base_name (bases m)\<rparr>"

definition add_interface :: "str \<Rightarrow> str \<Rightarrow> class_model \<Rightarrow> class_model" where
  "add_interface class_name interface_name m =
     (let old = (case map_of (interfaces m) class_name of None \<Rightarrow> [] | Some s \<Rightarrow> s)
      in m\<lparr>interfaces := AList.update class_name (List.insert interface_name old) (interfaces m)\<rparr>)"

function ancestors_loop :: "(str \<times> str) list \<Rightarrow> str \<Rightarrow> str list \<Rightarrow> str list" where
  "ancestors_loop bs cls visited =
     (if cls \<in> set visited then []
      else cls # (case map_of bs cls of None \<Rightarrow> [] | Some b \<Rightarrow> ancestors_loop bs b (cls # visited)))"
  by pat_completeness auto
termination
proof (relation "measure (\<lambda>(bs, cls, visited). card (fst ` set bs - set visited))")
  fix bs :: "(str \<times> str) list" and cls visited b
  assume a: "cls \<notin> set visited" "map_of bs cls = Some b"
  then have "cls \<in> fst ` set bs - set visited" using map_of_SomeD [OF a(2)] by force
  then have "fst ` set bs - set (cls # visited) \<subset> fst ` set bs - set visited" by auto
  then show "((bs, b, cls # visited), bs, cls, visited) \<in>
      measure (\<lambda>(bs, cls, visited). card (fst ` set bs - set visited))"
    by (simp add: psubset_card_mono)
qed simp

declare ancestors_loop.simps [simp del]

definition ancestors :: "class_model \<Rightarrow> str \<Rightarrow> str list" where
  "ancestors m class_name = ancestors_loop (bases m) class_name []"

definition implements :: "class_model \<Rightarrow> str \<Rightarrow> str \<Rightarrow> bool" where
  "implements m cls target = (case map_of (interfaces m) cls of None \<Rightarrow> False | Some ifaces \<Rightarrow> target \<in> set ifaces)"

definition is_upcast :: "class_model \<Rightarrow> str \<Rightarrow> str \<Rightarrow> bool" where
  "is_upcast m source target =
     (if source = target then True
      else \<exists>ancestor \<in> set (ancestors m source). ancestor = target \<or> implements m ancestor target)"

section \<open>The inheritance relation\<close>

definition extends :: "class_model \<Rightarrow> (str \<times> str) set" where
  "extends m = {(c, b). map_of (bases m) c = Some b}"

lemma ancestors_loop_sound:
  "d \<in> set (ancestors_loop bs c visited) \<Longrightarrow> (c, d) \<in> {(c, b). map_of bs c = Some b}\<^sup>*"
proof (induction bs c visited rule: ancestors_loop.induct)
  case (1 bs c visited)
  from "1.prems" consider "d = c"
    | b where "c \<notin> set visited" "map_of bs c = Some b" "d \<in> set (ancestors_loop bs b (c # visited))"
    using ancestors_loop.simps [of bs c visited] by (auto split: if_splits option.splits)
  then show ?case
  proof cases
    case (2 b)
    then have "(c, b) \<in> {(c, b). map_of bs c = Some b}" by simp
    then show ?thesis using "1.IH" [OF 2] by (rule converse_rtrancl_into_rtrancl)
  qed simp
qed

lemma ancestors_loop_complete:
  "(\<And>v b. v \<in> set visited \<Longrightarrow> map_of bs v = Some b \<Longrightarrow> b = c \<or> b \<in> set visited) \<Longrightarrow>
   (c, d) \<in> {(c, b). map_of bs c = Some b}\<^sup>* \<Longrightarrow>
   d \<in> set visited \<union> set (ancestors_loop bs c visited)"
proof (induction bs c visited rule: ancestors_loop.induct)
  case (1 bs c visited)
  let ?R = "{(c, b). map_of bs c = Some b}"
  show ?case
  proof (cases "c \<in> set visited")
    case True
    from "1.prems"(2) have "d \<in> set visited"
      by (induction rule: rtrancl_induct) (use True "1.prems"(1) in auto)
    then show ?thesis by simp
  next
    case False
    from "1.prems"(2) show ?thesis
    proof (cases rule: converse_rtranclE)
      case base
      then show ?thesis using False by (subst ancestors_loop.simps) simp
    next
      case (step b)
      then have b: "map_of bs c = Some b" by simp
      have "d \<in> set (c # visited) \<union> set (ancestors_loop bs b (c # visited))"
        by (rule "1.IH" [OF False b _ step(2)]) (use "1.prems"(1) b in auto)
      then show ?thesis using False b by (subst ancestors_loop.simps) auto
    qed
  qed
qed

lemma set_ancestors: "set (ancestors m c) = {d. (c, d) \<in> (extends m)\<^sup>*}"
  using ancestors_loop_sound [of _ "bases m" c "[]"] ancestors_loop_complete [of "[]" "bases m" c]
  by (auto simp: ancestors_def extends_def)

lemma ancestors_loop_fresh:
  "distinct (ancestors_loop bs c visited) \<and> set (ancestors_loop bs c visited) \<inter> set visited = {}"
proof (induction bs c visited rule: ancestors_loop.induct)
  case (1 bs c visited)
  then show ?case by (subst (1 2) ancestors_loop.simps) (auto split: option.splits)
qed

lemma is_upcast_iff:
  "is_upcast m source target \<longleftrightarrow>
     (\<exists>a. (source, a) \<in> (extends m)\<^sup>* \<and> (a = target \<or> implements m a target))"
  by (auto simp: is_upcast_def set_ancestors)

lemma extends_add_base: "extends (add_base c b m) = extends m - {c} \<times> UNIV \<union> {(c, b)}"
  by (auto simp: extends_def add_base_def update_Some_unfold)

lemma implements_add_interface:
  "implements (add_interface c i m) d t \<longleftrightarrow> implements m d t \<or> (d = c \<and> t = i)"
  by (auto simp: implements_def add_interface_def Let_def update_conv split: option.splits)

section \<open>Properties\<close>

text \<open>\<open>ancestors\<close> returns, without repetition and starting with the class,
  exactly the classes reachable through declared bases, also when the
  declarations form a cycle.\<close>

theorem ancestors_reachable:
  "distinct (ancestors m c) \<and> hd (ancestors m c) = c \<and> set (ancestors m c) = {d. (c, d) \<in> (extends m)\<^sup>*}"
  using set_ancestors ancestors_loop_fresh [of "bases m" c "[]"]
  by (simp add: ancestors_def ancestors_loop.simps)

text \<open>An upcast is allowed exactly when the target is a class reached
  through bases or an interface declared on one; so it is reflexive, follows
  bases, and recording an interface adds exactly the classes below it.\<close>

theorem upcast_characterised:
  "(is_upcast m source target \<longleftrightarrow>
      (\<exists>a. (source, a) \<in> (extends m)\<^sup>* \<and> (a = target \<or> implements m a target))) \<and>
   is_upcast m c c \<and>
   ((source, mid) \<in> (extends m)\<^sup>* \<and> is_upcast m mid target \<longrightarrow> is_upcast m source target) \<and>
   (is_upcast (add_interface cls iface m) source target \<longleftrightarrow>
      is_upcast m source target \<or> (target = iface \<and> (source, cls) \<in> (extends m)\<^sup>*))"
proof -
  have "extends (add_interface cls iface m) = extends m"
    by (simp add: extends_def add_interface_def Let_def)
  then show ?thesis
    by (auto simp: is_upcast_iff implements_add_interface intro: rtrancl_trans)
qed

theorem upcast_characterised_witness:
  "is_upcast (add_interface ''Base'' ''Shape'' (add_base ''Mid'' ''Base'' (add_base ''Sub'' ''Mid'' class_model_new)))
     ''Sub'' ''Shape''"
proof -
  let ?m = "add_base ''Mid'' ''Base'' (add_base ''Sub'' ''Mid'' class_model_new)"
  have "(''Sub'', ''Mid'') \<in> extends ?m" "(''Mid'', ''Base'') \<in> extends ?m"
    by (simp_all add: extends_add_base)
  then have "(''Sub'', ''Base'') \<in> (extends ?m)\<^sup>*" by (meson converse_rtrancl_into_rtrancl r_into_rtrancl)
  then show ?thesis
    using upcast_characterised [of ?m "''Sub''" "''Shape''" "''Sub''" "''Sub''" "''Base''" "''Shape''"] by blast
qed

end
