(* ===== verification/BN_Random.thy ===== *)
theory BN_Random
  imports BN_Prelude Complex_Main
begin

text \<open>
  \<open>HOST.Random\<close>: the xorshift64* generator of \<open>crates/bn_types/src/random.rs\<close>
  on 64-bit words. \<open>unit_interval\<close> divides a 53-bit number by \<open>2\<^sup>5\<^sup>3\<close>, which is
  exact in binary64, so it is the rational number itself.
\<close>

unbundle bit_operations_syntax

section \<open>Definitions\<close>

definition XORSHIFT64_STAR_MULTIPLIER :: "64 word" where
  "XORSHIFT64_STAR_MULTIPLIER = 0x2545F4914F6CDD1D"

definition MANTISSA_BITS :: nat where
  "MANTISSA_BITS = 53"

definition seed_state :: "64 word \<Rightarrow> 64 word" where
  "seed_state seed = (if seed = 0 then 1 else seed)"

definition next_state :: "64 word \<Rightarrow> 64 word" where
  "next_state state =
     (let next1 = state XOR drop_bit 12 state;
          next2 = next1 XOR push_bit 25 next1;
          next3 = next2 XOR drop_bit 27 next2
      in next3 * XORSHIFT64_STAR_MULTIPLIER)"

definition unit_interval :: "64 word \<Rightarrow> rat" where
  "unit_interval state = of_nat (unat (drop_bit (64 - MANTISSA_BITS) state)) / 2 ^ MANTISSA_BITS"

section \<open>Every step is invertible\<close>

lemma xor_shift_right_inj:
  assumes "0 < k" "x XOR drop_bit k x = (y :: 64 word) XOR drop_bit k y"
  shows "x = y"
proof -
  have "bit x n = bit y n" if "n \<le> 64" for n
    using that
  proof (induction "64 - n" arbitrary: n rule: less_induct)
    case less
    have "bit (x XOR drop_bit k x) n = bit (y XOR drop_bit k y) n" by (simp add: assms(2))
    then have e: "(bit x n \<noteq> bit x (k + n)) = (bit y n \<noteq> bit y (k + n))" by (simp add: bit_simps)
    show ?case
    proof (cases "k + n \<le> 64")
      case True
      then have "bit x (k + n) = bit y (k + n)" using less assms(1) by (intro less.hyps) auto
      with e show ?thesis by auto
    next
      case False
      then have "\<not> bit x (k + n)" "\<not> bit y (k + n)" by (auto dest: bit_imp_le_length)
      with e show ?thesis by simp
    qed
  qed
  then show ?thesis by (intro bit_word_eqI) simp
qed

lemma xor_shift_left_inj:
  assumes "0 < k" "x XOR push_bit k x = (y :: 64 word) XOR push_bit k y"
  shows "x = y"
proof -
  have "bit x n = bit y n" if "n < 64" for n
    using that
  proof (induction n rule: less_induct)
    case (less n)
    have "bit (x XOR push_bit k x) n = bit (y XOR push_bit k y) n" by (simp add: assms(2))
    then have e: "(bit x n \<noteq> (k \<le> n \<and> bit x (n - k))) = (bit y n \<noteq> (k \<le> n \<and> bit y (n - k)))"
      using less.prems by (simp add: bit_simps)
    show ?case
    proof (cases "k \<le> n")
      case True
      then have "bit x (n - k) = bit y (n - k)" using less assms(1) by (intro less.IH) auto
      with e True show ?thesis by auto
    qed (use e in auto)
  qed
  then show ?thesis by (intro bit_word_eqI) simp
qed

lemma multiplier_inverse: "z * XORSHIFT64_STAR_MULTIPLIER * 6415128727920758069 = z"
proof -
  have "XORSHIFT64_STAR_MULTIPLIER * 6415128727920758069 = 1"
    by (simp add: XORSHIFT64_STAR_MULTIPLIER_def)
  then show ?thesis by (metis mult.assoc mult.right_neutral)
qed

lemma multiplier_inj:
  assumes "x * XORSHIFT64_STAR_MULTIPLIER = y * XORSHIFT64_STAR_MULTIPLIER" shows "x = y"
  using arg_cong [OF assms, of "\<lambda>z. z * 6415128727920758069"] by (simp only: multiplier_inverse)

lemma next_state_inj: "inj next_state"
proof (rule injI)
  fix x y :: "64 word"
  define a b where "a z = z XOR drop_bit 12 z" and "b z = z XOR push_bit 25 z" for z :: "64 word"
  assume "next_state x = next_state y"
  then have "b (a x) XOR drop_bit 27 (b (a x)) = b (a y) XOR drop_bit 27 (b (a y))"
    unfolding next_state_def Let_def a_def b_def by (rule multiplier_inj)
  then have "b (a x) = b (a y)" by (rule xor_shift_right_inj [rotated]) simp
  then have "a x = a y" unfolding b_def by (rule xor_shift_left_inj [rotated]) simp
  then show "x = y" unfolding a_def by (rule xor_shift_right_inj [rotated]) simp
qed

lemma next_state_zero: "next_state 0 = 0"
  by (simp add: next_state_def)

section \<open>Properties\<close>

text \<open>The generator never gets stuck: one step is a bijection on the 64-bit
  states, the seeded state is not zero, and from there no number of steps
  reaches the zero state, which would repeat for ever.\<close>

theorem random_never_zero:
  "bij next_state \<and> (next_state ^^ n) (seed_state seed) \<noteq> 0"
proof -
  have bij: "bij next_state" using next_state_inj by (simp add: bij_def finite_UNIV_inj_surj)
  have "(next_state ^^ n) (seed_state seed) \<noteq> 0"
  proof (induction n)
    case (Suc n)
    then show ?case using injD [OF next_state_inj, of _ 0] next_state_zero by auto
  qed (simp add: seed_state_def)
  with bij show ?thesis by simp
qed

text \<open>\<open>Random()\<close> is in the half-open unit interval, a multiple of
  \<open>2\<^sup>-\<^sup>5\<^sup>3\<close>.\<close>

theorem unit_interval_range:
  "0 \<le> unit_interval s \<and> unit_interval s < 1 \<and> (\<exists>k :: nat. unit_interval s * 2 ^ 53 = of_nat k)"
proof -
  define k where "k = unat (drop_bit 11 s)"
  have "k = unat s div 2 ^ 11" by (simp add: k_def drop_bit_eq_div unat_div)
  moreover have "unat s div 2 ^ 11 < 2 ^ 53"
    by (rule less_mult_imp_div_less, rule order_less_le_trans [OF unsigned_less]) simp
  ultimately have "k < 2 ^ 53" by simp
  then have "(of_nat k :: rat) < of_nat (2 ^ 53)" by (simp only: of_nat_less_iff)
  moreover have "unit_interval s = of_nat k / 2 ^ 53"
    unfolding unit_interval_def MANTISSA_BITS_def k_def by simp
  ultimately show ?thesis by auto
qed

end
