(* ===== verification/BN_Types.thy ===== *)
theory BN_Types
  imports BN_Prelude
begin

text \<open>
  Language types and the rules both backends apply to them:
  \<open>crates/bn_types/src\<close> (\<open>lib.rs\<close>, \<open>alternatives.rs\<close>, \<open>numeric_abi.rs\<close>,
  \<open>literals.rs\<close>, \<open>text.rs\<close>, \<open>error_codes.rs\<close>, and \<open>check_restore\<close> of
  \<open>pointers.rs\<close>). A \<open>u64\<close> or \<open>u32\<close> value is an \<open>int\<close> with its range
  checked where the code checks it.
\<close>

section \<open>Types\<close>

datatype integer_type = Byte | Int8 | Int16 | Int32 | Int64 | UInt16 | UInt32 | UInt64

datatype float_type = Float32 | Float64

datatype pointer_length = LenOne | LenFixed int | LenDynamic

type_synonym module_id = int

datatype bn_type =
    TBoolean
  | TInteger integer_type
  | TIntegerLiteral str
  | TFloat float_type
  | TFloatLiteral
  | TString
  | TNull
  | TNotAvailable
  | TEndOfFile
  | THostClock
  | THostRandom
  | THostConsole
  | THostFileSystem
  | THostNet
  | THostExec
  | THostEnv
  | THostArgs
  | TNamed str
  | TTypeName str
  | TImportedNamed module_id str
  | TImportedTypeName module_id str
  | TModule module_id
  | TFunction "bn_type list" bn_type
  | TVector bn_type "int list"
  | TPointer bn_type pointer_length
  | TAlternative "bn_type list"
  | TUnknown

definition import_test_matches :: "module_id \<Rightarrow> str \<Rightarrow> str \<Rightarrow> bool" where
  "import_test_matches m name test \<longleftrightarrow> test = name \<or> test = ''#'' @ show_int m @ ''.'' @ name"

fun width :: "integer_type \<Rightarrow> nat" where
  "width Byte = 8" | "width Int8 = 8" | "width Int16 = 16" | "width UInt16 = 16"
| "width Int32 = 32" | "width UInt32 = 32" | "width Int64 = 64" | "width UInt64 = 64"

definition scalar_test_type :: "str \<Rightarrow> bn_type option" where
  "scalar_test_type test =
     (if test = ''INTEGER'' \<or> test = ''INT32'' then Some (TInteger Int32)
      else if test = ''BYTE'' then Some (TInteger Byte)
      else if test = ''INT8'' then Some (TInteger Int8)
      else if test = ''INT16'' then Some (TInteger Int16)
      else if test = ''INT64'' \<or> test = ''TIMESTAMP'' then Some (TInteger Int64)
      else if test = ''UINT16'' then Some (TInteger UInt16)
      else if test = ''UINT32'' then Some (TInteger UInt32)
      else if test = ''UINT64'' then Some (TInteger UInt64)
      else if test = ''FLOAT'' \<or> test = ''FLOAT64'' then Some (TFloat Float64)
      else if test = ''FLOAT32'' then Some (TFloat Float32)
      else if test = ''BOOLEAN'' then Some TBoolean
      else if test = ''STRING'' then Some TString
      else None)"

definition operator_spelling :: "str \<Rightarrow> str" where
  "operator_spelling operator =
     (case map_of [(''Percent'', ''%''), (''Slash'', ''/''), (''Plus'', ''+''), (''Minus'', ''-''),
        (''Star'', ''*''), (''Power'', ''**''), (''Assign'', ''=''), (''NotEqual'', ''<>''), (''Less'', ''<''),
        (''LessEqual'', ''<=''), (''Greater'', ''>''), (''GreaterEqual'', ''>='')] operator of
        Some s \<Rightarrow> s | None \<Rightarrow> operator)"

fun integer_type_name :: "integer_type \<Rightarrow> str" where
  "integer_type_name Byte = ''BYTE''" | "integer_type_name Int8 = ''INT8''"
| "integer_type_name Int16 = ''INT16''" | "integer_type_name Int32 = ''INT32''"
| "integer_type_name Int64 = ''INT64''" | "integer_type_name UInt16 = ''UINT16''"
| "integer_type_name UInt32 = ''UINT32''" | "integer_type_name UInt64 = ''UINT64''"

fun integer_byte_size :: "integer_type \<Rightarrow> int" where
  "integer_byte_size Byte = 1" | "integer_byte_size Int8 = 1"
| "integer_byte_size Int16 = 2" | "integer_byte_size UInt16 = 2"
| "integer_byte_size Int32 = 4" | "integer_byte_size UInt32 = 4"
| "integer_byte_size Int64 = 8" | "integer_byte_size UInt64 = 8"

text \<open>\<open>try_fold\<close> with \<open>checked_mul\<close> on \<open>u64\<close>.\<close>

fun checked_product :: "int \<Rightarrow> int list \<Rightarrow> int option" where
  "checked_product product [] = Some product"
| "checked_product product (d # ds) =
     (case try_fit u64_ok (product * d) of None \<Rightarrow> None | Some p \<Rightarrow> checked_product p ds)"

definition dimension_product :: "int list \<Rightarrow> int option" where
  "dimension_product dimensions =
     (if 18446744073709551615 \<in> set dimensions then None else checked_product 1 dimensions)"

fun static_size_of :: "bn_type \<Rightarrow> int option" where
  "static_size_of TBoolean = Some 1"
| "static_size_of (TInteger kind) = Some (integer_byte_size kind)"
| "static_size_of (TIntegerLiteral _) = Some 4"
| "static_size_of (TFloat Float32) = Some 4"
| "static_size_of (TFloat Float64) = Some 8"
| "static_size_of TFloatLiteral = Some 8"
| "static_size_of (TNamed name) = (if name = ''DATE'' \<or> name = ''TIME'' then Some 4 else None)"
| "static_size_of (TVector element dimensions) =
     (case static_size_of element of
        None \<Rightarrow> None
      | Some sz \<Rightarrow>
          (case dimension_product dimensions of
             None \<Rightarrow> None | Some p \<Rightarrow> try_fit u64_ok (p * sz)))"
| "static_size_of _ = None"

section \<open>Codes of the members of an alternative\<close>

definition OBJECT_CODE :: int where "OBJECT_CODE = 0x20"
definition FUNCTION_CODE :: int where "FUNCTION_CODE = 0x21"
definition VECTOR_CODE :: int where "VECTOR_CODE = 0x100"
definition POINTER_CODE :: int where "POINTER_CODE = 0x200"

definition named_code :: "str \<Rightarrow> int" where
  "named_code name =
     (if name = ''Error'' then 0x10 else if name = ''DATE'' then 0x11 else if name = ''TIME'' then 0x12
      else if name = ''TIMEZONE'' then 0x13 else OBJECT_CODE)"

fun integer_member_code :: "integer_type \<Rightarrow> int" where
  "integer_member_code Byte = 0x01" | "integer_member_code Int8 = 0x02"
| "integer_member_code Int16 = 0x03" | "integer_member_code Int32 = 0x04"
| "integer_member_code Int64 = 0x05" | "integer_member_code UInt16 = 0x06"
| "integer_member_code UInt32 = 0x07" | "integer_member_code UInt64 = 0x08"

fun member_code :: "bn_type \<Rightarrow> int option" and element_code :: "bn_type \<Rightarrow> int option" where
  "member_code (TInteger w) = Some (integer_member_code w)"
| "member_code (TFloat Float32) = Some 0x09"
| "member_code (TFloat Float64) = Some 0x0A"
| "member_code TBoolean = Some 0x0B"
| "member_code TString = Some 0x0C"
| "member_code TNull = Some 0x0D"
| "member_code TNotAvailable = Some 0x0E"
| "member_code TEndOfFile = Some 0x0F"
| "member_code (TNamed name) = Some (named_code name)"
| "member_code (TTypeName name) = Some (named_code name)"
| "member_code (TImportedNamed _ name) = Some (if name = ''Error'' then 0x10 else OBJECT_CODE)"
| "member_code (TImportedTypeName _ name) = Some (if name = ''Error'' then 0x10 else OBJECT_CODE)"
| "member_code (TFunction _ _) = Some FUNCTION_CODE"
| "member_code (TVector element _) = map_option (\<lambda>c. VECTOR_CODE + c) (element_code element)"
| "member_code (TPointer element _) = map_option (\<lambda>c. POINTER_CODE + c) (element_code element)"
| "member_code _ = None"
| "element_code element =
     (case member_code element of Some c \<Rightarrow> if c < VECTOR_CODE then Some c else None | None \<Rightarrow> None)"

section \<open>Codes of the numeric ABI\<close>

datatype numeric_element = NInteger integer_type | NFloat float_type

definition ELEMENTS :: "numeric_element list" where
  "ELEMENTS = [NInteger Byte, NInteger Int8, NInteger Int16, NInteger Int32, NInteger Int64,
     NInteger UInt16, NInteger UInt32, NInteger UInt64, NFloat Float32, NFloat Float64]"

definition STATISTICS :: "str list" where
  "STATISTICS = [''MEAN'', ''MEDIAN'', ''QUARTILE1'', ''QUARTILE3'', ''RANGE'', ''STDEV'', ''VARIANCE'',
     ''MODE'', ''PVariance'', ''PStdev'', ''Skewness'', ''Kurtosis'', ''PSkewness'', ''PKurtosis'']"

text \<open>\<open>iter().position(...)\<close>.\<close>

fun position :: "'a \<Rightarrow> 'a list \<Rightarrow> nat option" where
  "position x [] = None"
| "position x (y # ys) = (if y = x then Some 0 else map_option Suc (position x ys))"

definition nth_code :: "'a list \<Rightarrow> int \<Rightarrow> 'a option" where
  "nth_code table code = (if 0 \<le> code \<and> nat code < length table then Some (table ! nat code) else None)"

fun numeric_element_of :: "bn_type \<Rightarrow> numeric_element option" where
  "numeric_element_of (TInteger kind) = Some (NInteger kind)"
| "numeric_element_of (TFloat kind) = Some (NFloat kind)"
| "numeric_element_of _ = None"

definition element_abi_code :: "numeric_element \<Rightarrow> int outcome" where
  "element_abi_code e = (case position e ELEMENTS of None \<Rightarrow> Panic | Some i \<Rightarrow> Done (int i))"

definition element_from_code :: "int \<Rightarrow> numeric_element option" where
  "element_from_code code = nth_code ELEMENTS code"

definition statistic_code :: "str \<Rightarrow> int option" where
  "statistic_code name = map_option int (position name STATISTICS)"

definition statistic_name :: "int \<Rightarrow> str option" where
  "statistic_name code = nth_code STATISTICS code"

section \<open>Literals\<close>

definition radix_digit :: "nat \<Rightarrow> char \<Rightarrow> nat option" where
  "radix_digit radix c =
     (let d = (if 48 \<le> byte c \<and> byte c \<le> 57 then byte c - 48
               else if 97 \<le> byte c \<and> byte c \<le> 122 then byte c - 87
               else if 65 \<le> byte c \<and> byte c \<le> 90 then byte c - 55 else radix)
      in if d < radix then Some d else None)"

fun radix_value :: "nat \<Rightarrow> nat \<Rightarrow> str \<Rightarrow> nat option" where
  "radix_value radix v [] = Some v"
| "radix_value radix v (c # s) =
     (case radix_digit radix c of None \<Rightarrow> None | Some d \<Rightarrow> radix_value radix (v * radix + d) s)"

text \<open>\<open>i128::from_str_radix\<close>: an optional sign, one or more digits, the value in range.\<close>

definition from_str_radix :: "nat \<Rightarrow> str \<Rightarrow> int option" where
  "from_str_radix radix s =
     (let (k, digits) = (case s of
            [] \<Rightarrow> (1, s)
          | c # r \<Rightarrow> if c = CHR ''-'' then (- 1, r) else if c = CHR ''+'' then (1, r) else (1, s))
      in if digits = [] then None
         else case radix_value radix 0 digits of None \<Rightarrow> None | Some v \<Rightarrow> try_fit i128_ok (k * int v))"

definition parse_integer :: "str \<Rightarrow> int option" where
  "parse_integer s =
     (case strip_prefix ''0b'' s of
        Some digits \<Rightarrow> from_str_radix 2 digits
      | None \<Rightarrow>
          (case strip_prefix ''0x'' s of
             Some digits \<Rightarrow> from_str_radix 16 digits
           | None \<Rightarrow> from_str_radix 10 s))"

text \<open>\<open>value as f32\<close> and \<open>value as f64\<close> of an \<open>i128\<close>: the nearest value with a
  24-bit or 53-bit significand, ties to even. Every result is below the largest
  exponent of both formats. \<open>as i128\<close> of a float saturates.\<close>

fun significand_bits :: "float_type \<Rightarrow> nat" where
  "significand_bits Float32 = 24" | "significand_bits Float64 = 53"

fun bit_length :: "nat \<Rightarrow> nat" where
  "bit_length n = (if n = 0 then 0 else Suc (bit_length (n div 2)))"

declare bit_length.simps [simp del]

definition round_magnitude :: "nat \<Rightarrow> nat \<Rightarrow> nat" where
  "round_magnitude p n =
     (let e = bit_length n - p; q = n div 2 ^ e; r = n mod 2 ^ e
      in if e = 0 then n
         else if 2 * r > 2 ^ e \<or> (2 * r = 2 ^ e \<and> odd q) then (q + 1) * 2 ^ e else q * 2 ^ e)"

definition float_of_integer :: "float_type \<Rightarrow> int \<Rightarrow> int" where
  "float_of_integer kind v = sgn v * int (round_magnitude (significand_bits kind) (nat \<bar>v\<bar>))"

definition saturate_i128 :: "int \<Rightarrow> int" where
  "saturate_i128 v = max (- (2 ^ 127)) (min (2 ^ 127 - 1) v)"

definition integer_literal_as_float :: "str \<Rightarrow> float_type \<Rightarrow> str option outcome" where
  "integer_literal_as_float s kind =
     (let (negative, digits) = (case strip_prefix ''-'' s of None \<Rightarrow> (False, s) | Some digits \<Rightarrow> (True, digits))
      in case parse_integer digits of
           None \<Rightarrow> Done None
         | Some magnitude \<Rightarrow>
             if negative \<and> \<not> i128_ok (- magnitude) then Panic
             else
               let v = (if negative then - magnitude else magnitude);
                   exact = (saturate_i128 (float_of_integer kind v) = v)
               in Done (if exact then Some (show_int v @ ''.0'') else None))"

datatype numeric_class = ClassInteger | ClassFloat

fun class_of_literal :: "bn_type \<Rightarrow> numeric_class option" where
  "class_of_literal (TIntegerLiteral _) = Some ClassInteger"
| "class_of_literal TFloatLiteral = Some ClassFloat"
| "class_of_literal _ = None"

fun class_default_type :: "numeric_class \<Rightarrow> bn_type" where
  "class_default_type ClassInteger = TInteger Int32"
| "class_default_type ClassFloat = TFloat Float64"

fun class_contains :: "numeric_class \<Rightarrow> bn_type \<Rightarrow> bool" where
  "class_contains ClassInteger (TInteger _) = True"
| "class_contains ClassFloat (TFloat _) = True"
| "class_contains _ _ = False"

definition numeric_alternative :: "bn_type list \<Rightarrow> numeric_class \<Rightarrow> bn_type option" where
  "numeric_alternative alternatives cls =
     (if class_default_type cls \<in> set alternatives then Some (class_default_type cls)
      else case filter (class_contains cls) alternatives of [only] \<Rightarrow> Some only | _ \<Rightarrow> None)"

section \<open>Canonical text\<close>

definition integer_text :: "int \<Rightarrow> str" where
  "integer_text v = show_int v"

definition error_text :: "int \<Rightarrow> str \<Rightarrow> str \<Rightarrow> str \<Rightarrow> str" where
  "error_text code operation message cause =
     ''Error '' @ show_int code @ (if operation = [] then [] else '' in '' @ operation) @
     '': '' @ message @ (if cause = [] then [] else '' (cause: '' @ cause @ '')'')"

definition boolean_text :: "bool \<Rightarrow> str" where
  "boolean_text v = (if v then ''TRUE'' else ''FALSE'')"

section \<open>Pointer restoration\<close>

datatype restore_check = RestoreOk | TypeMismatch | LengthMismatch

definition check_restore :: "int \<Rightarrow> int \<Rightarrow> int \<Rightarrow> int option \<Rightarrow> restore_check" where
  "check_restore from_code from_len to_code to_len =
     (if from_code \<noteq> to_code then TypeMismatch
      else case to_len of
        Some expected \<Rightarrow> if from_len \<noteq> expected then LengthMismatch else RestoreOk
      | None \<Rightarrow> RestoreOk)"

section \<open>Portable error codes\<close>

definition fs_codes :: "(str \<times> int) list" where
  "fs_codes =
     [(''INVALID_ARGUMENT'', 1),
      (''NOT_FOUND'', 2),
      (''PERMISSION_DENIED'', 3),
      (''IS_DIRECTORY'', 4),
      (''CLOSED'', 5),
      (''WRONG_FAMILY'', 6),
      (''INVALID_UTF8'', 7),
      (''IO_FAILED'', 8),
      (''POLICY_DENIED'', 9),
      (''IS_NOT_DIRECTORY'', 10),
      (''DIRECTORY_NOT_EMPTY'', 11),
      (''ALREADY_EXISTS'', 12)]"

definition net_codes :: "(str \<times> int) list" where
  "net_codes =
     [(''INVALID_ARGUMENT'', 1),
      (''TIMEOUT'', 2),
      (''UNREACHABLE'', 3),
      (''CONNECTION_REFUSED'', 4),
      (''CONNECTION_CLOSED'', 5),
      (''ADDRESS_IN_USE'', 6),
      (''PERMISSION_DENIED'', 7),
      (''NOT_FOUND'', 8),
      (''UNAVAILABLE'', 9),
      (''LIMIT'', 10),
      (''CLOSED'', 11),
      (''IO_FAILED'', 12),
      (''POLICY_DENIED'', 13)]"

definition exec_codes :: "(str \<times> int) list" where
  "exec_codes =
     [(''INVALID_ARGUMENT'', 1),
      (''PROGRAM_NOT_FOUND'', 2),
      (''PERMISSION_DENIED'', 3),
      (''SPAWN_FAILED'', 4),
      (''WAIT_FAILED'', 5),
      (''CAPTURE_FAILED'', 6),
      (''INVALID_UTF8'', 7),
      (''CAPTURE_LIMIT'', 8),
      (''TIMEOUT'', 9),
      (''TERMINATION_FAILED'', 10),
      (''POLICY_DENIED'', 11)]"

definition env_codes :: "(str \<times> int) list" where
  "env_codes =
     [(''NOT_SET'', 1),
      (''INVALID_NAME'', 2),
      (''INVALID_UTF8'', 3),
      (''POLICY_DENIED'', 4)]"

definition crypto_codes :: "(str \<times> int) list" where
  "crypto_codes =
     [(''INVALID_ARGUMENT'', 1),
      (''AUTHENTICATION_FAILED'', 2),
      (''UNAVAILABLE'', 3)]"

definition json_codes :: "(str \<times> int) list" where
  "json_codes =
     [(''INVALID_ARGUMENT'', 1),
      (''NOT_FOUND'', 2),
      (''TYPE_MISMATCH'', 3),
      (''OUT_OF_RANGE'', 4),
      (''LIMIT'', 5),
      (''UNAVAILABLE'', 6),
      (''PARSE_FAILED'', 7)]"

definition dispatch_codes :: "(str \<times> int) list" where
  "dispatch_codes =
     [(''INVALID_ARGUMENT'', 1),
      (''TIMEOUT'', 2),
      (''CLOSED'', 3),
      (''SATURATED'', 4),
      (''CANCELLED'', 5),
      (''TASK_FAILED'', 6),
      (''INVALID_STATE'', 7),
      (''UNAVAILABLE'', 8)]"

definition log_codes :: "(str \<times> int) list" where
  "log_codes =
     [(''INVALID_ARGUMENT'', 1),
      (''DUPLICATE'', 2),
      (''LIMIT'', 3),
      (''CLOSED'', 4),
      (''IO_FAILED'', 5),
      (''CAPABILITY_REQUIRED'', 6),
      (''TIMEOUT'', 7),
      (''UNAVAILABLE'', 8)]"

definition data_codes :: "(str \<times> int) list" where
  "data_codes =
     [(''INVALID_ARGUMENT'', 1),
      (''NOT_FOUND'', 2),
      (''TYPE_MISMATCH'', 3),
      (''OUT_OF_RANGE'', 4),
      (''IO_FAILED'', 5),
      (''INVALID_FORMAT'', 6)]"

definition web_codes :: "(str \<times> int) list" where
  "web_codes =
     [(''INVALID_ARGUMENT'', 1),
      (''NOT_FOUND'', 2),
      (''OUT_OF_RANGE'', 3),
      (''LIMIT'', 4),
      (''CLOSED'', 5),
      (''TIMEOUT'', 6),
      (''EGRESS_DENIED'', 7),
      (''HTTP_FAILED'', 8),
      (''UNAVAILABLE'', 9)]"

definition sqlite_codes :: "(str \<times> int) list" where
  "sqlite_codes =
     [(''FILE_NOT_FOUND'', 1),
      (''ACCESS_DENIED'', 2),
      (''POLICY_DENIED'', 3),
      (''CORRUPT'', 4),
      (''BUSY'', 5),
      (''LOCKED'', 6),
      (''READ_ONLY'', 7),
      (''SYNTAX_ERROR'', 8),
      (''SCHEMA_ERROR'', 9),
      (''CONSTRAINT_VIOLATION'', 10),
      (''TYPE_MISMATCH'', 11),
      (''MISUSE'', 12),
      (''CLOSED'', 13),
      (''LIMIT_EXCEEDED'', 14),
      (''IO_FAILED'', 15),
      (''INTERNAL_ERROR'', 16)]"

section \<open>Member codes\<close>

text \<open>What a code stands for: the member up to what a tag does not record (the
  class name, a vector's dimensions, a pointer's length).\<close>

fun tag_of :: "bn_type \<Rightarrow> bn_type" where
  "tag_of (TNamed name) = TNamed (if name \<in> {''Error'', ''DATE'', ''TIME'', ''TIMEZONE''} then name else ''Object'')"
| "tag_of (TTypeName name) = TNamed (if name \<in> {''Error'', ''DATE'', ''TIME'', ''TIMEZONE''} then name else ''Object'')"
| "tag_of (TImportedNamed _ name) = TNamed (if name = ''Error'' then name else ''Object'')"
| "tag_of (TImportedTypeName _ name) = TNamed (if name = ''Error'' then name else ''Object'')"
| "tag_of (TFunction _ _) = TFunction [] TUnknown"
| "tag_of (TVector element _) = TVector (tag_of element) []"
| "tag_of (TPointer element _) = TPointer (tag_of element) LenDynamic"
| "tag_of t = t"

definition decode_simple :: "int \<Rightarrow> bn_type" where
  "decode_simple c =
     (case map_of [(0x01, TInteger Byte), (0x02, TInteger Int8), (0x03, TInteger Int16), (0x04, TInteger Int32),
        (0x05, TInteger Int64), (0x06, TInteger UInt16), (0x07, TInteger UInt32), (0x08, TInteger UInt64),
        (0x09, TFloat Float32), (0x0A, TFloat Float64), (0x0B, TBoolean), (0x0C, TString), (0x0D, TNull),
        (0x0E, TNotAvailable), (0x0F, TEndOfFile), (0x10, TNamed ''Error''), (0x11, TNamed ''DATE''),
        (0x12, TNamed ''TIME''), (0x13, TNamed ''TIMEZONE''), (0x20, TNamed ''Object''),
        (0x21, TFunction [] TUnknown)] c of Some t \<Rightarrow> t | None \<Rightarrow> TUnknown)"

definition decode_member :: "int \<Rightarrow> bn_type" where
  "decode_member c =
     (if c < VECTOR_CODE then decode_simple c
      else if c < POINTER_CODE then TVector (decode_simple (c - VECTOR_CODE)) []
      else TPointer (decode_simple (c - POINTER_CODE)) LenDynamic)"

lemmas code_defs = OBJECT_CODE_def FUNCTION_CODE_def VECTOR_CODE_def POINTER_CODE_def

lemma member_code_simple:
  assumes "member_code t = Some c" "\<And>e d. t \<noteq> TVector e d" "\<And>e l. t \<noteq> TPointer e l"
  shows "0 < c \<and> c \<le> 0x21 \<and> decode_simple c = tag_of t"
proof (cases t)
  case (TInteger w)
  with assms(1) show ?thesis by (cases w) (auto simp: decode_simple_def)
next
  case (TFloat w)
  with assms(1) show ?thesis by (cases w) (auto simp: decode_simple_def)
qed (use assms in \<open>auto simp: decode_simple_def named_code_def code_defs split: if_splits\<close>)

lemma member_code_pos:
  "member_code t = Some c \<Longrightarrow> 0 < c" "element_code t = Some c \<Longrightarrow> 0 < c"
proof (induction t and t arbitrary: c and c rule: member_code_element_code.induct)
  case (1 w)
  then show ?case by (cases w) auto
qed (auto simp: named_code_def code_defs split: option.splits if_splits)

lemma element_code_simple:
  assumes "element_code e = Some c" shows "0 < c" "c \<le> 0x21" "decode_simple c = tag_of e"
proof -
  have m: "member_code e = Some c" and "c < VECTOR_CODE"
    using assms by (auto split: option.splits if_splits)
  then have "e \<noteq> TVector e' d" "e \<noteq> TPointer e' l" for e' d l
    using member_code_pos(2) [of e'] by (force simp: code_defs)+
  from member_code_simple [OF m this] show "0 < c" "c \<le> 0x21" "decode_simple c = tag_of e" by auto
qed

lemma decode_member_code: "member_code t = Some c \<Longrightarrow> decode_member c = tag_of t"
proof (cases "(\<exists>e d. t = TVector e d) \<or> (\<exists>e l. t = TPointer e l)")
  case True
  moreover assume "member_code t = Some c"
  ultimately show ?thesis
    using element_code_simple by (auto simp del: element_code.simps simp: decode_member_def code_defs) force+
next
  case False
  moreover assume "member_code t = Some c"
  ultimately show ?thesis using member_code_simple [of t c] by (auto simp: decode_member_def code_defs)
qed

lemma member_code_tag_of:
  "member_code (tag_of t) = member_code t" "element_code (tag_of t) = element_code t"
  by (induction t and t rule: member_code_element_code.induct)
     (auto simp: named_code_def code_defs split: option.splits)

section \<open>Decimal literals\<close>

lemma radix_digit_decimal: "is_ascii_digit c \<Longrightarrow> radix_digit 10 c = Some (digit_val c)"
  by (auto simp: radix_digit_def is_ascii_digit_def digit_val_def Let_def)

lemma radix_value_decimal:
  "list_all is_ascii_digit s \<Longrightarrow> radix_value 10 v s = Some (foldl (\<lambda>v c. v * 10 + digit_val c) v s)"
  by (induction s arbitrary: v) (simp_all add: radix_digit_decimal)

lemma from_str_radix_decimal:
  assumes "list_all is_ascii_digit s" "s \<noteq> []"
  shows "from_str_radix 10 s = try_fit i128_ok (int (digits_value s))"
    and "from_str_radix 10 (CHR ''-'' # s) = try_fit i128_ok (- int (digits_value s))"
proof -
  have r: "radix_value 10 0 s = Some (digits_value s)"
    using radix_value_decimal [OF assms(1), of 0] by (simp add: digits_value_def)
  obtain c r' where c: "s = c # r'" using assms(2) by (cases s) auto
  then have "c \<noteq> CHR ''-''" "c \<noteq> CHR ''+''" using assms(1) digit_neq_sign [of c] by auto
  then show "from_str_radix 10 s = try_fit i128_ok (int (digits_value s))"
    using r by (simp add: from_str_radix_def c)
  show "from_str_radix 10 (CHR ''-'' # s) = try_fit i128_ok (- int (digits_value s))"
    using r assms(2) by (simp add: from_str_radix_def)
qed

text \<open>Decimal text is never taken for a binary or hexadecimal literal.\<close>

lemma no_radix_prefix:
  assumes "list_all is_ascii_digit s"
  shows "strip_prefix ''0b'' s = None" "strip_prefix ''0x'' s = None"
    "strip_prefix ''0b'' (CHR ''-'' # s) = None" "strip_prefix ''0x'' (CHR ''-'' # s) = None"
    "strip_prefix ''-'' s = None"
proof -
  have d: "\<not> is_ascii_digit (CHR ''b'')" "\<not> is_ascii_digit (CHR ''x'')" "\<not> is_ascii_digit (CHR ''-'')"
    by (simp_all add: is_ascii_digit_def byte_def)
  have n: "s \<noteq> ''0b'' @ r" "s \<noteq> ''0x'' @ r" "s \<noteq> ''-'' @ r" for r
    using assms d by auto
  show "strip_prefix ''0b'' s = None" "strip_prefix ''0x'' s = None" "strip_prefix ''-'' s = None"
    using n strip_prefix_eq_Some by (metis option.exhaust)+
  show "strip_prefix ''0b'' (CHR ''-'' # s) = None" "strip_prefix ''0x'' (CHR ''-'' # s) = None"
    by (simp_all add: strip_prefix_def)
qed

lemma parse_integer_decimal:
  assumes "list_all is_ascii_digit s" "s \<noteq> []"
  shows "parse_integer s = try_fit i128_ok (int (digits_value s))"
    and "parse_integer (CHR ''-'' # s) = try_fit i128_ok (- int (digits_value s))"
  by (simp_all add: parse_integer_def no_radix_prefix [OF assms(1)] from_str_radix_decimal [OF assms])

lemma parse_integer_show: "i128_ok v \<Longrightarrow> parse_integer (show_int v) = Some v"
  by (simp add: show_int_def parse_integer_decimal)

section \<open>Exact float literals\<close>

definition representable :: "nat \<Rightarrow> nat \<Rightarrow> bool" where
  "representable p n \<longleftrightarrow> (\<exists>m k. n = m * 2 ^ k \<and> m < 2 ^ p)"

lemma bit_length_bounds: "n < 2 ^ bit_length n \<and> (0 < n \<longrightarrow> 2 ^ (bit_length n - 1) \<le> n)"
proof (induction n rule: bit_length.induct)
  case (1 n)
  show ?case
  proof (cases "n = 0")
    case False
    then have b: "bit_length n = Suc (bit_length (n div 2))" by (simp add: bit_length.simps)
    have IH: "n div 2 < 2 ^ bit_length (n div 2)"
      "0 < n div 2 \<Longrightarrow> 2 ^ (bit_length (n div 2) - 1) \<le> n div 2"
      using 1 [OF False] by simp_all
    have up: "n < 2 ^ bit_length n" using IH(1) by (simp add: b)
    show ?thesis
    proof (cases "n div 2 = 0")
      case True
      then show ?thesis using up False by (simp add: b bit_length.simps [of 0])
    next
      case two: False
      have "bit_length (n div 2) = Suc (bit_length (n div 2) - 1)"
        using two by (simp add: bit_length.simps [of "n div 2"])
      then have "(2::nat) ^ (bit_length n - 1) = 2 * 2 ^ (bit_length (n div 2) - 1)"
        by (metis b diff_Suc_1 power_Suc)
      also have "\<dots> \<le> 2 * (n div 2)" using IH(2) two by simp
      also have "\<dots> \<le> n" by simp
      finally show ?thesis using up by simp
    qed
  qed (simp add: bit_length.simps)
qed

lemma bit_length_le: "n < 2 ^ k \<Longrightarrow> bit_length n \<le> k"
proof (cases "n = 0")
  case False
  assume "n < 2 ^ k"
  with False bit_length_bounds [of n] have "2 ^ (bit_length n - 1) < (2::nat) ^ k" by linarith
  then show ?thesis by (simp add: power_less_imp_less_exp)
qed (simp add: bit_length.simps)

lemma round_magnitude_fix: "round_magnitude p n = n \<longleftrightarrow> 2 ^ (bit_length n - p) dvd n"
proof -
  define e q r where "e = bit_length n - p" and "q = n div 2 ^ e" and "r = n mod 2 ^ e"
  have n: "n = q * 2 ^ e + r" "r < 2 ^ e"
    unfolding q_def r_def by (rule div_mult_mod_eq [symmetric]) simp
  have "r = 0 \<longleftrightarrow> 2 ^ e dvd n" by (simp add: r_def dvd_eq_mod_eq_0)
  moreover have "round_magnitude p n = n \<longleftrightarrow> r = 0"
  proof (cases "e = 0")
    case True
    then show ?thesis using n(2) by (simp add: round_magnitude_def Let_def flip: e_def)
  next
    case False
    have "round_magnitude p n = (if 2 * r > 2 ^ e \<or> (2 * r = 2 ^ e \<and> odd q) then (q + 1) * 2 ^ e else q * 2 ^ e)"
      using False by (simp add: round_magnitude_def Let_def e_def q_def r_def)
    then show ?thesis using n by (auto simp: algebra_simps)
  qed
  ultimately show ?thesis by (simp add: e_def)
qed

lemma round_magnitude_representable: "round_magnitude p n = n \<longleftrightarrow> representable p n"
  unfolding round_magnitude_fix
proof
  assume "2 ^ (bit_length n - p) dvd n"
  then obtain m where m: "n = m * 2 ^ (bit_length n - p)" by (auto simp: dvd_def mult.commute)
  have "m * 2 ^ (bit_length n - p) < 2 ^ p * 2 ^ (bit_length n - p)"
  proof -
    have "n < 2 ^ bit_length n" using bit_length_bounds by blast
    also have "\<dots> \<le> 2 ^ p * 2 ^ (bit_length n - p)" by (simp flip: power_add)
    finally show ?thesis using m by simp
  qed
  then have "m < 2 ^ p" by simp
  with m show "representable p n" unfolding representable_def by blast
next
  assume "representable p n"
  then obtain m k where m: "n = m * 2 ^ k" "m < 2 ^ p" unfolding representable_def by blast
  have "n < 2 ^ (p + k)" using m by (simp add: power_add)
  then have "bit_length n - p \<le> k" using bit_length_le [of n "p + k"] by simp
  then show "2 ^ (bit_length n - p) dvd n"
    unfolding m(1) by (intro dvd_mult le_imp_power_dvd)
qed

text \<open>The largest \<open>i128\<close> rounds up and saturates back to itself.\<close>

lemma bit_length_max: "bit_length (2 ^ 127 - 1) = 127"
proof (rule antisym)
  show "bit_length (2 ^ 127 - 1) \<le> 127" by (rule bit_length_le) simp
  have "(2::nat) ^ 126 < 2 ^ bit_length (2 ^ 127 - 1)"
    using bit_length_bounds [of "2 ^ 127 - 1"] by (auto intro: le_less_trans [rotated])
  then have "126 < bit_length (2 ^ 127 - 1)" by (rule power_less_imp_less_exp [rotated]) simp
  then show "127 \<le> bit_length (2 ^ 127 - 1)" by simp
qed

lemma round_magnitude_max: "round_magnitude (significand_bits kind) (2 ^ 127 - 1) = 2 ^ 127"
  unfolding round_magnitude_def bit_length_max by (cases kind) (simp_all add: Let_def)

lemma exact_iff_representable:
  assumes "i128_ok v"
  shows "saturate_i128 (float_of_integer kind v) = v \<longleftrightarrow>
    representable (significand_bits kind) (nat \<bar>v\<bar>) \<or> v = 2 ^ 127 - 1"
proof -
  define R where "R = round_magnitude (significand_bits kind) (nat \<bar>v\<bar>)"
  have r: "representable (significand_bits kind) (nat \<bar>v\<bar>) \<longleftrightarrow> R = nat \<bar>v\<bar>"
    by (simp add: R_def round_magnitude_representable)
  have range: "- (2 ^ 127) \<le> v" "v < 2 ^ 127" using assms by (simp_all add: i128_ok_def)
  consider "v = 2 ^ 127 - 1" | "v = - (2 ^ 127)" | "v = 0" | "0 < v" "v < 2 ^ 127 - 1" | "- (2 ^ 127) < v" "v < 0"
    using range by linarith
  then show ?thesis
  proof cases
    case 1
    have "nat \<bar>v\<bar> = 2 ^ 127 - 1" by (simp add: 1)
    then have "R = 2 ^ 127" by (simp only: R_def round_magnitude_max)
    then have "float_of_integer kind v = 2 ^ 127"
      unfolding float_of_integer_def R_def [symmetric] by (simp add: 1)
    then show ?thesis by (simp add: saturate_i128_def 1)
  next
    case 2
    have "representable (significand_bits kind) (nat \<bar>v\<bar>)"
      unfolding representable_def 2
      by (intro exI [of _ 1] exI [of _ 127]) (cases kind; simp)
    then have "R = nat \<bar>v\<bar>" using r by simp
    then have "float_of_integer kind v = v"
      unfolding float_of_integer_def R_def [symmetric] by (simp add: 2)
    then show ?thesis using \<open>representable _ _\<close> by (simp add: saturate_i128_def 2)
  next
    case 3
    then show ?thesis
      by (auto simp: float_of_integer_def saturate_i128_def representable_def)
  next
    case 4
    then have "float_of_integer kind v = int R"
      unfolding float_of_integer_def R_def [symmetric] by simp
    then show ?thesis unfolding r using 4 by (auto simp: saturate_i128_def min_def max_def)
  next
    case 5
    then have "float_of_integer kind v = - int R"
      unfolding float_of_integer_def R_def [symmetric] by simp
    then show ?thesis unfolding r using 5 by (auto simp: saturate_i128_def min_def max_def)
  qed
qed

lemma literal_parts:
  assumes "- (2 ^ 127) < v" "v < 2 ^ 127"
  shows "integer_literal_as_float (show_int v) kind =
    Done (if saturate_i128 (float_of_integer kind v) = v then Some (show_int v @ ''.0'') else None)"
proof (cases "v < 0")
  case True
  have "parse_integer (show_nat (nat (- v))) = Some (- v)"
    using True assms by (simp add: parse_integer_decimal i128_ok_def)
  moreover have "strip_prefix ''-'' (show_int v) = Some (show_nat (nat (- v)))"
    using True by (simp add: show_int_def strip_prefix_def)
  moreover have "i128_ok v" using assms by (simp add: i128_ok_def)
  ultimately show ?thesis by (simp add: integer_literal_as_float_def Let_def)
next
  case False
  have s: "show_int v = show_nat (nat v)" using False by (simp add: show_int_def)
  have "parse_integer (show_nat (nat v)) = Some v"
    using False assms by (simp add: parse_integer_decimal i128_ok_def)
  then show ?thesis
    by (simp add: integer_literal_as_float_def Let_def s no_radix_prefix(5))
qed

section \<open>Sizes and code tables\<close>

lemma checked_product_exact:
  assumes "checked_product a ds = Some p" "u64_ok a" shows "p = a * prod_list ds \<and> u64_ok p"
  using assms by (induction a ds rule: checked_product.induct) (auto split: option.splits simp: mult.assoc)

lemma checked_product_fits:
  assumes "\<forall>d \<in> set ds. 1 \<le> d" "1 \<le> a" "u64_ok (a * prod_list ds)"
  shows "checked_product a ds = Some (a * prod_list ds)"
  using assms
proof (induction ds arbitrary: a)
  case (Cons d ds)
  have m: "1 \<le> x * y" if "1 \<le> x" "1 \<le> y" for x y :: int
    using that mult_pos_pos [of x y] by linarith
  have p: "1 \<le> prod_list ds" using Cons.prems(1) by (induction ds) (auto intro: m)
  have ad: "1 \<le> a * d" using Cons.prems by (intro m) auto
  have "a * d \<le> a * d * prod_list ds" using p ad by (simp add: mult_le_cancel_left1)
  then have "u64_ok (a * d)" using Cons.prems(3) ad by (simp add: u64_ok_def mult.assoc)
  then show ?case using Cons.IH [of "a * d"] Cons.prems ad by (simp add: mult.assoc)
qed simp

lemma position_nth:
  "distinct xs \<Longrightarrow> i < length xs \<Longrightarrow> position (xs ! i) xs = Some i"
proof (induction xs arbitrary: i)
  case (Cons x xs)
  then show ?case by (cases i) auto
qed simp

lemma position_Some: "position x xs = Some i \<Longrightarrow> i < length xs \<and> xs ! i = x"
  by (induction xs arbitrary: i) (auto split: if_splits)

lemma position_member: "x \<in> set xs \<Longrightarrow> \<exists>i. position x xs = Some i"
  by (induction xs) auto

lemma elements_complete: "e \<in> set ELEMENTS"
proof (cases e)
  case (NInteger k)
  then show ?thesis by (cases k) (simp_all add: ELEMENTS_def)
next
  case (NFloat k)
  then show ?thesis by (cases k) (simp_all add: ELEMENTS_def)
qed

section \<open>Properties\<close>

text \<open>The code of an alternative's member identifies it: decoding it gives
  the member up to class name, dimensions and length, so two storable members
  have the same code exactly when a tag need not tell them apart.\<close>

theorem member_codes_identify:
  assumes "member_code s = Some c" "member_code t = Some d"
  shows "decode_member c = tag_of s \<and> (c = d \<longleftrightarrow> tag_of s = tag_of t)"
  using decode_member_code [OF assms(1)] decode_member_code [OF assms(2)] assms member_code_tag_of(1)
  by (metis option.inject)

theorem member_codes_identify_witness:
  "member_code (TVector (TInteger Int32) [3]) = Some 0x104 \<and>
   decode_member 0x104 = TVector (TInteger Int32) [] \<and>
   member_code (TPointer (TInteger Int32) LenOne) \<noteq> Some 0x104"
proof -
  have a: "member_code (TVector (TInteger Int32) [3]) = Some 0x104"
    "member_code (TPointer (TInteger Int32) LenOne) = Some 0x204"
    by (simp_all add: code_defs)
  show ?thesis using member_codes_identify [OF a] a by (simp del: member_code.simps)
qed

text \<open>Integer text round-trips: what \<open>text::integer\<close> prints for an \<open>i128\<close> is
  a literal \<open>parse_integer\<close> reads back, never as a binary or hexadecimal one.\<close>

theorem integer_text_roundtrip:
  assumes "i128_ok v" shows "parse_integer (integer_text v) = Some v"
  using parse_integer_show [OF assms] by (simp add: integer_text_def)

theorem integer_text_roundtrip_witness:
  "parse_integer (integer_text (- 170141183460469231731687303715884105728)) =
     Some (- 170141183460469231731687303715884105728)"
  by (rule integer_text_roundtrip) (simp add: i128_ok_def)

text \<open>An integer literal becomes a floating-point literal exactly when its
  value has the significand of the type, with one exception: the largest
  \<open>i128\<close> is accepted too, because the conversion back saturates.\<close>

theorem float_literal_exact:
  assumes "- (2 ^ 127) < v" "v < 2 ^ 127"
  shows "integer_literal_as_float (show_int v) kind =
    Done (if representable (significand_bits kind) (nat \<bar>v\<bar>) \<or> v = 2 ^ 127 - 1
          then Some (show_int v @ ''.0'') else None)"
proof -
  have "i128_ok v" using assms by (simp add: i128_ok_def)
  then show ?thesis by (simp only: literal_parts [OF assms] exact_iff_representable)
qed

theorem float_literal_exact_witness:
  "integer_literal_as_float (show_int (2 ^ 127 - 1)) Float64 = Done (Some (show_int (2 ^ 127 - 1) @ ''.0''))"
  using float_literal_exact [of "2 ^ 127 - 1" Float64] by simp

text \<open>The size of a vector type is the element size times the dimensions,
  never wrapped: a size that \<open>static_size_of\<close> returns is the exact product and
  fits \<open>u64\<close>, and a non-empty shape whose product fits and that has no dynamic
  dimension has its product.\<close>

theorem dimension_product_exact:
  "(\<forall>p. dimension_product ds = Some p \<longrightarrow> p = prod_list ds \<and> u64_ok p) \<and>
   ((\<forall>d \<in> set ds. 1 \<le> d \<and> d \<noteq> 18446744073709551615) \<and> u64_ok (prod_list ds) \<longrightarrow>
      dimension_product ds = Some (prod_list ds)) \<and>
   (\<forall>n. static_size_of (TVector t ds) = Some n \<longrightarrow>
      (\<exists>k. static_size_of t = Some k \<and> n = k * prod_list ds \<and> u64_ok n))"
proof (intro conjI allI impI)
  show exact: "p = prod_list ds" "u64_ok p" if "dimension_product ds = Some p" for p
    using that checked_product_exact [of 1 ds p] by (auto simp: dimension_product_def u64_ok_def split: if_splits)
  assume "(\<forall>d \<in> set ds. 1 \<le> d \<and> d \<noteq> 18446744073709551615) \<and> u64_ok (prod_list ds)"
  then show "dimension_product ds = Some (prod_list ds)"
    using checked_product_fits [of ds 1] by (auto simp: dimension_product_def)
next
  fix n assume "static_size_of (TVector t ds) = Some n"
  then obtain k p where k: "static_size_of t = Some k" "dimension_product ds = Some p" "n = p * k" "u64_ok n"
    by (auto split: option.splits)
  have "p = prod_list ds"
    using k(2) checked_product_exact [of 1 ds p] by (auto simp: dimension_product_def u64_ok_def split: if_splits)
  with k show "\<exists>k. static_size_of t = Some k \<and> n = k * prod_list ds \<and> u64_ok n" by (auto simp: mult.commute)
qed

theorem dimension_product_exact_witness:
  "static_size_of (TVector (TInteger Int64) [3, 4]) = Some 96 \<and> u64_ok 96"
proof -
  have "static_size_of (TVector (TInteger Int64) [3, 4]) = Some 96"
    by (simp add: dimension_product_def u64_ok_def)
  with dimension_product_exact [THEN conjunct2, THEN conjunct2] show ?thesis by blast
qed

text \<open>The codes of the numeric ABI invert: every element type has a code and
  every code of the table names one element type; the same for the statistics.\<close>

theorem numeric_abi_codes:
  "(\<exists>c. element_abi_code e = Done c \<and> element_from_code c = Some e) \<and>
   (\<forall>c e'. element_from_code c = Some e' \<longrightarrow> element_abi_code e' = Done c) \<and>
   (\<forall>name c. statistic_code name = Some c \<longleftrightarrow> statistic_name c = Some name)"
proof (intro conjI allI impI)
  obtain i where i: "position e ELEMENTS = Some i" using position_member [OF elements_complete] by blast
  then show "\<exists>c. element_abi_code e = Done c \<and> element_from_code c = Some e"
    using position_Some [OF i] by (simp add: element_abi_code_def element_from_code_def nth_code_def)
next
  fix c e' assume "element_from_code c = Some e'"
  then have "0 \<le> c" "nat c < length ELEMENTS" "e' = ELEMENTS ! nat c"
    by (auto simp: element_from_code_def nth_code_def split: if_splits)
  moreover have "distinct ELEMENTS" by (simp add: ELEMENTS_def)
  ultimately show "element_abi_code e' = Done c"
    using position_nth [of ELEMENTS "nat c"] by (simp add: element_abi_code_def)
next
  fix name c
  have d: "distinct STATISTICS" by (simp add: STATISTICS_def)
  show "statistic_code name = Some c \<longleftrightarrow> statistic_name c = Some name"
    using position_Some [of name STATISTICS] position_nth [OF d, of "nat c"]
    by (auto simp: statistic_code_def statistic_name_def nth_code_def split: if_splits)
qed

theorem numeric_abi_codes_witness:
  "element_from_code 9 = Some (NFloat Float64) \<and> element_abi_code (NFloat Float64) = Done 9"
proof -
  have "element_from_code 9 = Some (NFloat Float64)" by (simp add: element_from_code_def nth_code_def ELEMENTS_def)
  with numeric_abi_codes [of "NFloat Float64"] show ?thesis by blast
qed

text \<open>A numeric literal takes an alternative exactly when its default type is
  declared or one alternative alone has its class, and then one of its class.\<close>

theorem numeric_alternative_unambiguous:
  "(numeric_alternative ts cls = Some t \<longrightarrow> t \<in> set ts \<and> class_contains cls t) \<and>
   (numeric_alternative ts cls \<noteq> None \<longleftrightarrow>
      class_default_type cls \<in> set ts \<or> length (filter (class_contains cls) ts) = 1)"
proof -
  have d: "class_contains cls (class_default_type cls)" by (cases cls) auto
  have f: "x \<in> set ts \<and> class_contains cls x" if "filter (class_contains cls) ts = [x]" for x
  proof -
    have "x \<in> set (filter (class_contains cls) ts)" using that by simp
    then show ?thesis by simp
  qed
  show ?thesis
  proof (cases "class_default_type cls \<in> set ts")
    case True
    then show ?thesis using d by (auto simp: numeric_alternative_def)
  next
    case False
    show ?thesis
    proof (cases "filter (class_contains cls) ts" rule: remdups_adj.cases)
      case (2 x)
      then show ?thesis using False f [OF 2] by (auto simp: numeric_alternative_def)
    qed (use False in \<open>simp_all add: numeric_alternative_def\<close>)
  qed
qed

theorem numeric_alternative_unambiguous_witness:
  "numeric_alternative [TInteger Int64, TNamed ''Error''] ClassInteger = Some (TInteger Int64) \<and>
   class_contains ClassInteger (TInteger Int64)"
proof -
  have "numeric_alternative [TInteger Int64, TNamed ''Error''] ClassInteger = Some (TInteger Int64)"
    by (simp add: numeric_alternative_def)
  with numeric_alternative_unambiguous [of "[TInteger Int64, TNamed ''Error'']" ClassInteger "TInteger Int64"]
  show ?thesis by blast
qed

text \<open>In every capability's table of portable error codes the names are
  distinct and the codes are 1, 2, 3 and so on in order, so a name and a code
  determine each other and no error has code zero.\<close>

theorem error_code_tables:
  "\<forall>table \<in> {fs_codes, net_codes, exec_codes, env_codes, crypto_codes, json_codes, dispatch_codes, log_codes,
       data_codes, web_codes, sqlite_codes}.
     distinct (map fst table) \<and> map snd table = map int [1..<Suc (length table)]"
  by (simp add: fs_codes_def net_codes_def exec_codes_def env_codes_def crypto_codes_def json_codes_def
      dispatch_codes_def log_codes_def data_codes_def web_codes_def sqlite_codes_def)

theorem error_code_tables_witness:
  "(''SATURATED'', 4) \<in> set dispatch_codes \<and> distinct (map fst dispatch_codes)"
  using error_code_tables by (simp add: dispatch_codes_def)

text \<open>Restoring a typed pointer from \<open>POINTER TO VOID\<close> succeeds exactly when
  the element codes agree and a required length is met.\<close>

theorem check_restore_ok:
  "check_restore from_code from_len to_code to_len = RestoreOk \<longleftrightarrow>
   from_code = to_code \<and> (to_len = None \<or> to_len = Some from_len)"
  by (auto simp: check_restore_def split: option.splits)

end
