(* ===== verification/BN_Value.thy ===== *)
theory BN_Value
  imports BN_Types
begin

text \<open>
  Runtime values: \<open>crates/bn_value/src/lib.rs\<close>. A \<open>SharedString\<close> is its text, a
  copy-on-write vector or record is its elements (a copy is a value of its own,
  which is what the copy-on-write sharing implements), an \<open>f64\<close> is its bits, a
  provider's handle is a 64-bit number.
\<close>

section \<open>Definitions\<close>

record handle =
  h_slot :: "32 word"
  h_generation :: "32 word"

record error_detail =
  operation :: str
  cause :: str

datatype bn_value =
    VInteger int integer_type
  | VFloat "64 word" float_type
  | VBoolean bool
  | VString str
  | VVector "bn_value list"
  | VFunction str
  | VType str
  | VNull
  | VNotAvailable
  | VEndOfFile
  | VError int str "error_detail option"
  | VHostConsole
  | VHostArgs
  | VTcpStream "64 word"
  | VTcpListener "64 word"
  | VUdpSocket "64 word"
  | VLogFields "64 word"
  | VLogEntry "64 word"
  | VLogLogger "64 word"
  | VJson "64 word"
  | VCryptoBytes "64 word"
  | VCryptoKey "64 word"
  | VCompressBytes "64 word"
  | VCompressZip "64 word"
  | VDispatchQueue "64 word"
  | VDispatchTicket "64 word"
  | VDispatchGroup "64 word"
  | VDispatchBarrier "64 word"
  | VDispatchSemaphore "64 word"
  | VDispatchMutex "64 word"
  | VFile "64 word"
  | VDataFrame "64 word"
  | VHandle str
  | VRecord record_value
  | VObject handle str
  | VPointer handle int
  | VDate int
  | VTime int
  | VTimeZone str
and record_value = RecordValue str "bn_value list"

fun type_name :: "record_value \<Rightarrow> str" where
  "type_name (RecordValue n _) = n"

fun record_fields :: "record_value \<Rightarrow> bn_value list" where
  "record_fields (RecordValue _ fs) = fs"

definition record_len :: "record_value \<Rightarrow> nat" where
  "record_len r = length (record_fields r)"

definition record_is_empty :: "record_value \<Rightarrow> bool" where
  "record_is_empty r \<longleftrightarrow> record_fields r = []"

definition record_get :: "record_value \<Rightarrow> nat \<Rightarrow> bn_value option" where
  "record_get r slot = (if slot < length (record_fields r) then Some (record_fields r ! slot) else None)"

text \<open>\<open>get_mut\<close> and a write through it.\<close>

definition record_write :: "record_value \<Rightarrow> nat \<Rightarrow> bn_value \<Rightarrow> record_value option" where
  "record_write r slot v =
     (if slot < length (record_fields r) then Some (RecordValue (type_name r) ((record_fields r)[slot := v])) else None)"

definition record_replace :: "record_value \<Rightarrow> nat \<Rightarrow> bn_value \<Rightarrow> record_value \<times> bn_value option" where
  "record_replace r slot v =
     (if slot < length (record_fields r)
      then (RecordValue (type_name r) ((record_fields r)[slot := v]), Some (record_fields r ! slot))
      else (r, None))"

definition value_vector :: "bn_value list \<Rightarrow> bn_value" where
  "value_vector elements = VVector elements"

definition value_error :: "int \<Rightarrow> str \<Rightarrow> bn_value" where
  "value_error code message = VError code message None"

definition error_report :: "int \<Rightarrow> str \<Rightarrow> str \<Rightarrow> str \<Rightarrow> bn_value" where
  "error_report code op message why = VError code message (Some \<lparr>operation = op, cause = why\<rparr>)"

definition error_detail_field :: "error_detail option \<Rightarrow> bool \<Rightarrow> str" where
  "error_detail_field detail want_cause =
     (case detail of None \<Rightarrow> '''' | Some d \<Rightarrow> if want_cause then cause d else operation d)"

section \<open>Laws of records\<close>

lemma record_replace_laws:
  "record_replace r slot v = (r', old) \<Longrightarrow>
   record_len r' = record_len r \<and> type_name r' = type_name r \<and> old = record_get r slot \<and>
   record_get r' i = (if i = slot \<and> slot < record_len r then Some v else record_get r i)"
  by (cases r) (auto simp: record_replace_def record_len_def record_get_def nth_list_update split: if_splits)

section \<open>Properties\<close>

text \<open>Replacing a field of a record returns the old field, changes that field
  alone, keeps the shape, and does nothing past the last field.\<close>

theorem record_replace_correct:
  assumes "record_replace r slot v = (r', old)"
  shows "record_len r' = record_len r \<and> type_name r' = type_name r \<and> old = record_get r slot \<and>
    (\<forall>i. record_get r' i = (if i = slot \<and> slot < record_len r then Some v else record_get r i)) \<and>
    (record_len r \<le> slot \<longrightarrow> r' = r \<and> old = None)"
  using record_replace_laws [OF assms] assms by (auto simp: record_replace_def record_len_def split: if_splits)

theorem record_replace_correct_witness:
  "record_get (fst (record_replace (RecordValue ''Point'' [VBoolean True, VNull]) 1 (VBoolean False))) 1 =
     Some (VBoolean False)"
  using record_replace_correct [of "RecordValue ''Point'' [VBoolean True, VNull]" 1 "VBoolean False",
      OF prod.collapse [symmetric]]
  by (simp add: record_len_def)

end
