(* ===== verification/BN_Diagnostic.thy ===== *)
theory BN_Diagnostic
  imports BN_Prelude
begin

text \<open>
  Runtime diagnostics: the identities of \<open>crates/bn_diag\<close> that the interpreter, the heap
  and the temporal builtins raise, each with the facts its schema names. The label that
  places a diagnostic is left out. A diagnostic of a provider is
  \<open>OTHER_DIAGNOSTIC\<close> with its text.
\<close>

datatype (plugins only: code size) diagnostic =
    TYPE_MISMATCH str str str
  | NAME_NOT_FOUND str str
  | INDEX_OUT_OF_BOUNDS int nat str
  | STACK_OVERFLOW str
  | DIVISION_BY_ZERO str
  | NUMERIC_OVERFLOW str
  | INVALID_EXPONENT str
  | INVALID_SHIFT_COUNT str
  | INVALID_NUMERIC_CONVERSION str
  | INVALID_EXIT_CODE str
  | INVALID_FOR_STEP str
  | INVALID_IR str
  | USE_AFTER_RELEASE str
  | DOUBLE_RELEASE str
  | UNINITIALIZED_VALUE str
  | NULL_POINTER_ACCESS str
  | VECTOR_LENGTH_MISMATCH str
  | INVALID_VECTOR_DIMENSION str
  | POINTER_TYPE_MISMATCH str
  | POINTER_LENGTH_MISMATCH str
  | ALLOCATION_TOO_LARGE str
  | ALLOCATION_SIZE_INVALID str
  | ALLOCATION_SIZE_OVERFLOW str
  | STATIC_INITIALIZATION_CYCLE str
  | HOST_CAPABILITY_UNAVAILABLE str
  | LIBRARY_PROVIDER_UNAVAILABLE str
  | FUNCTION_NOT_FOUND str
  | START_NOT_FOUND str
  | INVALID_START str
  | DISPATCH_FAILURE str
  | INPUT_ERROR str
  | OUTPUT_ERROR str
  | INVALID_DATE str
  | INVALID_TIME str
  | INVALID_TIMEZONE str
  | FORMAT_OUT_OF_RANGE str
  | PARSE_ERROR str
  | OTHER_DIAGNOSTIC str

end
