(* ===== verification/BN_Heap.thy ===== *)
theory BN_Heap
  imports BN_Value BN_Diagnostic
begin

text \<open>
  The payload store: \<open>crates/bn_runtime/src/heap.rs\<close>. One entry per slot, with
  the generation of the handle that owns it. Whether the allocator can reserve
  a payload (\<open>try_reserve_exact\<close>) is the parameter \<open>reserve\<close>. A failed
  assertion is \<open>Panic\<close>; a diagnostic is \<open>Inl\<close>.
\<close>

section \<open>Definitions\<close>

definition stale :: diagnostic where
  "stale = USE_AFTER_RELEASE ''allocation handle refers to released memory''"

definition region_index_error :: "nat \<Rightarrow> nat \<Rightarrow> diagnostic" where
  "region_index_error index len = INDEX_OUT_OF_BOUNDS (int index) len ''region''"

record 'a heap =
  allocations :: "(32 word \<times> 'a list) option list"

definition heap_default :: "'a heap" where
  "heap_default = \<lparr>allocations = []\<rparr>"

definition heap_count :: "'a heap \<Rightarrow> nat" where
  "heap_count h = length (filter (\<lambda>slot. slot \<noteq> None) (allocations h))"

definition allocation_payload :: "(nat \<Rightarrow> bool) \<Rightarrow> nat \<Rightarrow> 'a \<Rightarrow> diagnostic + 'a list" where
  "allocation_payload reserve len initial =
     (if reserve len then Inr (replicate len initial) else Inl (ALLOCATION_TOO_LARGE ''allocation payload cannot be reserved''))"

definition heap_insert ::
  "(nat \<Rightarrow> bool) \<Rightarrow> 'a heap \<Rightarrow> handle \<Rightarrow> nat \<Rightarrow> 'a \<Rightarrow> (diagnostic + 'a heap) outcome" where
  "heap_insert reserve h handle len initial =
     (case allocation_payload reserve len initial of
        Inl e \<Rightarrow> Done (Inl e)
      | Inr payload \<Rightarrow>
          let slot = unat (h_slot handle);
              table = allocations h @ replicate (Suc slot - length (allocations h)) None
          in if table ! slot \<noteq> None then Panic
             else Done (Inr (h\<lparr>allocations := table[slot := Some (h_generation handle, payload)]\<rparr>)))"

text \<open>The entry a handle names: \<open>get(slot).and_then(as_ref).filter(generation)\<close>.\<close>

definition heap_lookup :: "'a heap \<Rightarrow> handle \<Rightarrow> 'a list option" where
  "heap_lookup h handle =
     (if unat (h_slot handle) < length (allocations h)
      then case allocations h ! unat (h_slot handle) of
             None \<Rightarrow> None
           | Some (g, payload) \<Rightarrow> if g = h_generation handle then Some payload else None
      else None)"

definition heap_remove :: "'a heap \<Rightarrow> handle \<Rightarrow> 'a heap \<times> 'a list option" where
  "heap_remove h handle =
     (case heap_lookup h handle of
        None \<Rightarrow> (h, None)
      | Some payload \<Rightarrow> (h\<lparr>allocations := (allocations h)[unat (h_slot handle) := None]\<rparr>, Some payload))"

definition heap_payload :: "'a heap \<Rightarrow> handle \<Rightarrow> diagnostic + 'a list" where
  "heap_payload h handle =
     (case heap_lookup h handle of None \<Rightarrow> Inl stale | Some payload \<Rightarrow> Inr payload)"

definition heap_get :: "'a heap \<Rightarrow> handle \<Rightarrow> nat \<Rightarrow> diagnostic + 'a" where
  "heap_get h handle index =
     (case heap_payload h handle of
        Inl e \<Rightarrow> Inl e
      | Inr payload \<Rightarrow>
          if index < length payload then Inr (payload ! index)
          else Inl (region_index_error index (length payload)))"

text \<open>\<open>get_mut\<close> and a write through the reference it returns.\<close>

definition heap_write :: "'a heap \<Rightarrow> handle \<Rightarrow> nat \<Rightarrow> 'a \<Rightarrow> diagnostic + 'a heap" where
  "heap_write h handle index v =
     (case heap_payload h handle of
        Inl e \<Rightarrow> Inl e
      | Inr payload \<Rightarrow>
          if index < length payload
          then Inr (h\<lparr>allocations := (allocations h)[unat (h_slot handle) :=
                 Some (h_generation handle, payload[index := v])]\<rparr>)
          else Inl (region_index_error index (length payload)))"

definition heap_len :: "'a heap \<Rightarrow> handle \<Rightarrow> diagnostic + nat" where
  "heap_len h handle = (case heap_payload h handle of Inl e \<Rightarrow> Inl e | Inr payload \<Rightarrow> Inr (length payload))"

section \<open>The store as a map from handles\<close>

lemma heap_default_empty: "heap_lookup heap_default = Map.empty"
  by (simp add: heap_lookup_def heap_default_def fun_eq_iff)

text \<open>A slot in use belongs to some handle of that slot.\<close>

definition slot_free :: "'a heap \<Rightarrow> 32 word \<Rightarrow> bool" where
  "slot_free h s \<longleftrightarrow> (\<forall>g. heap_lookup h \<lparr>h_slot = s, h_generation = g\<rparr> = None)"

lemma slot_free_table:
  "slot_free h s \<longleftrightarrow> (allocations h @ replicate (Suc (unat s) - length (allocations h)) None) ! unat s = None"
proof (cases "unat s < length (allocations h)")
  case True
  then show ?thesis
    by (cases "allocations h ! unat s") (auto simp: slot_free_def heap_lookup_def nth_append)
next
  case False
  then show ?thesis by (simp add: slot_free_def heap_lookup_def nth_append)
qed

lemma handle_eqI: "h_slot a = h_slot b \<Longrightarrow> h_generation a = h_generation b \<Longrightarrow> a = (b :: handle)"
  by simp

lemma heap_insert_cases:
  "heap_insert reserve h handle len initial = Panic \<longleftrightarrow> reserve len \<and> \<not> slot_free h (h_slot handle)"
  by (simp add: heap_insert_def allocation_payload_def Let_def slot_free_table)

lemma heap_insert_lookup:
  assumes "heap_insert reserve h handle len initial = Done (Inr h')"
  shows "heap_lookup h' = (heap_lookup h)(handle \<mapsto> replicate len initial)" "slot_free h (h_slot handle)"
proof -
  define s where "s = unat (h_slot handle)"
  define table where "table = allocations h @ replicate (Suc s - length (allocations h)) None"
  have free: "table ! s = None"
    and h': "allocations h' = table[s := Some (h_generation handle, replicate len initial)]"
    using assms
    by (cases "table ! s"; auto simp: heap_insert_def allocation_payload_def Let_def
        simp flip: s_def table_def split: if_splits)+
  show "slot_free h (h_slot handle)" using free by (simp add: slot_free_table s_def table_def)
  have len: "s < length table" by (simp add: table_def)
  have old: "heap_lookup h x = (if unat (h_slot x) < length table
      then case table ! unat (h_slot x) of None \<Rightarrow> None
        | Some (g, p) \<Rightarrow> if g = h_generation x then Some p else None else None)" for x
    by (auto simp: heap_lookup_def table_def nth_append split: option.splits)
  show "heap_lookup h' = (heap_lookup h)(handle \<mapsto> replicate len initial)"
  proof
    fix x
    show "heap_lookup h' x = ((heap_lookup h)(handle \<mapsto> replicate len initial)) x"
    proof (cases "unat (h_slot x) = s")
      case True
      then have "h_slot x = h_slot handle" by (simp add: s_def word_eq_iff_unsigned [where ?'a = nat])
      then show ?thesis
        using True len free by (auto simp: old heap_lookup_def [of h'] h' simp flip: True)
    next
      case False
      then have "x \<noteq> handle" by (auto simp: s_def)
      then show ?thesis using False by (simp add: old heap_lookup_def [of h'] h')
    qed
  qed
qed

lemma heap_update_slot:
  assumes "heap_lookup h handle = Some p"
    and "allocations h' = (allocations h)[unat (h_slot handle) := e]"
    and "e = None \<or> e = Some (h_generation handle, p')"
  shows "heap_lookup h' = (heap_lookup h)(handle := map_option snd e)"
proof
  fix x
  show "heap_lookup h' x = ((heap_lookup h)(handle := map_option snd e)) x"
  proof (cases "h_slot x = h_slot handle")
    case True
    then show ?thesis
      using assms by (auto simp: heap_lookup_def split: option.splits if_splits prod.splits)
  next
    case False
    then have "unat (h_slot x) \<noteq> unat (h_slot handle)" by (simp add: word_eq_iff_unsigned [where ?'a = nat])
    moreover have "x \<noteq> handle" using False by auto
    ultimately show ?thesis using assms(2) by (simp add: heap_lookup_def)
  qed
qed

lemma heap_remove_lookup:
  "heap_lookup (fst (heap_remove h handle)) = (heap_lookup h)(handle := None)"
  "snd (heap_remove h handle) = heap_lookup h handle"
proof -
  show "snd (heap_remove h handle) = heap_lookup h handle"
    by (simp add: heap_remove_def split: option.splits)
  show "heap_lookup (fst (heap_remove h handle)) = (heap_lookup h)(handle := None)"
  proof (cases "heap_lookup h handle")
    case (Some p)
    then show ?thesis
      by (subst heap_update_slot [OF Some, where e = None]) (simp_all add: heap_remove_def)
  qed (simp add: heap_remove_def fun_upd_idem)
qed

lemma heap_write_lookup:
  assumes "heap_write h handle i v = Inr h'"
  obtains p where "heap_lookup h handle = Some p" "i < length p"
    "heap_lookup h' = (heap_lookup h)(handle \<mapsto> p[i := v])"
proof -
  obtain p where p: "heap_lookup h handle = Some p" "i < length p"
      "h' = h\<lparr>allocations := (allocations h)[unat (h_slot handle) := Some (h_generation handle, p[i := v])]\<rparr>"
    using assms by (auto simp: heap_write_def heap_payload_def split: option.splits if_splits)
  then show thesis
    using that heap_update_slot [OF p(1), of h' "Some (h_generation handle, p[i := v])"] by simp
qed

section \<open>The interface of a payload store\<close>

text \<open>What the interpreter relies on: the store is a map from handles to
  payloads, changed by each operation at its handle only.\<close>

locale payload_store =
  fixes view :: "'s \<Rightarrow> 'h \<Rightarrow> 'a list option"
    and free :: "'s \<Rightarrow> 'h \<Rightarrow> bool"
    and insert_op :: "'s \<Rightarrow> 'h \<Rightarrow> nat \<Rightarrow> 'a \<Rightarrow> ('e + 's) outcome"
    and remove_op :: "'s \<Rightarrow> 'h \<Rightarrow> 's \<times> 'a list option"
    and write_op :: "'s \<Rightarrow> 'h \<Rightarrow> nat \<Rightarrow> 'a \<Rightarrow> 'e + 's"
  assumes insert_law: "insert_op s k n a = Done (Inr s') \<Longrightarrow> view s' = (view s)(k \<mapsto> replicate n a)"
    and insert_total: "free s k \<Longrightarrow> insert_op s k n a \<noteq> Panic"
    and free_law: "free s k \<Longrightarrow> view s k = None"
    and remove_law: "remove_op s k = (s', p) \<Longrightarrow> view s' = (view s)(k := None) \<and> p = view s k"
    and write_law: "write_op s k i a = Inr s' \<Longrightarrow>
      \<exists>p. view s k = Some p \<and> i < length p \<and> view s' = (view s)(k \<mapsto> p[i := a])"
begin

text \<open>A payload written by one handle is seen by it and by no other, and is
  gone once removed.\<close>

lemma insert_write_remove:
  assumes "free s k" "insert_op s k n a = Done (Inr s1)" "write_op s1 k i b = Inr s2" "remove_op s2 k = (s3, p)"
  shows "i < n" "p = Some ((replicate n a)[i := b])" "view s3 = view s" "\<And>j. j \<noteq> k \<Longrightarrow> view s2 j = view s j"
  using insert_law [OF assms(2)] write_law [OF assms(3)] remove_law [OF assms(4)] free_law [OF assms(1)]
  by (auto simp: fun_upd_idem)

end

interpretation heap_store: payload_store heap_lookup "\<lambda>h k. slot_free h (h_slot k)" "heap_insert reserve"
  heap_remove heap_write for reserve
proof unfold_locales
  fix s s' :: "'a heap" and k n a i p
  show "heap_insert reserve s k n a = Done (Inr s') \<Longrightarrow> heap_lookup s' = (heap_lookup s)(k \<mapsto> replicate n a)"
    by (rule heap_insert_lookup)
  show "slot_free s (h_slot k) \<Longrightarrow> heap_insert reserve s k n a \<noteq> Panic" by (simp add: heap_insert_cases)
  show "slot_free s (h_slot k) \<Longrightarrow> heap_lookup s k = None"
    unfolding slot_free_def by (metis handle.surjective old.unit.exhaust)
  show "heap_remove s k = (s', p) \<Longrightarrow> heap_lookup s' = (heap_lookup s)(k := None) \<and> p = heap_lookup s k"
    using heap_remove_lookup [of s k] by simp
  show "heap_write s k i a = Inr s' \<Longrightarrow>
      \<exists>p. heap_lookup s k = Some p \<and> i < length p \<and> heap_lookup s' = (heap_lookup s)(k \<mapsto> p[i := a])"
    by (metis heap_write_lookup)
qed

section \<open>Properties\<close>



end
