(* ===== verification/BN_Ownership.thy ===== *)
theory BN_Ownership
  imports BN_Arc_Core BN_Heap
begin

text \<open>
  Ownership in the interpreter: \<open>crates/bn_interp/src/executor/ownership.rs\<close>,
  \<open>allocate_object\<close> of \<open>executor/part10.rs\<close> and the ARC verifier of
  \<open>executor/arc_verifier.rs\<close>. The state is the part of \<open>Executor\<close> these
  functions use: the ARC core, the heaps of objects and of regions, and the
  state \<open>'l\<close> of the host and library providers. Providers are plug-ins behind a
  trait, and running a destructor is running the program, so they are the
  parameters of \<open>env\<close>: the providers' \<open>retain\<close> and \<open>object_destroyed\<close>,
  \<open>call_named\<close>, the allocator, and the module's tables.
\<close>

section \<open>Definitions\<close>

definition id_of :: "handle \<Rightarrow> object_id" where
  "id_of h = from_parts (h_slot h) (h_generation h)"

definition handle_of :: "object_id \<Rightarrow> handle" where
  "handle_of oid = \<lparr>h_slot = id_slot oid, h_generation = id_generation oid\<rparr>"

record span =
  start_line :: nat
  start_column :: nat

definition site_of :: "span \<Rightarrow> site" where
  "site_of sp = \<lparr>site_line = min (start_line sp) (2 ^ 32 - 1), site_column = min (start_column sp) (2 ^ 32 - 1)\<rparr>"

definition arc_diag :: "arc_error \<Rightarrow> diagnostic" where
  "arc_diag e = INVALID_IR (show_arc_error e)"

record bn_instance =
  inst_fields :: "bn_value list"

record 'l interp =
  i_arc :: arc_core
  i_objects :: "bn_instance heap"
  i_memory :: "bn_value heap"
  i_libs :: 'l

type_synonym 'l step = "('l interp \<times> (diagnostic + unit)) outcome"

datatype function_kind = Destructor | ReleaseFields

record 'l env =
  e_reserve :: "nat \<Rightarrow> bool"
  e_layouts :: "str \<Rightarrow> bool list option"
  e_function_of_kind :: "function_kind \<Rightarrow> str \<Rightarrow> str option"
  e_call :: "str \<Rightarrow> bn_value \<Rightarrow> 'l interp \<Rightarrow> 'l step"
  e_host_retain :: "bn_value \<Rightarrow> 'l \<Rightarrow> 'l \<times> (diagnostic + unit)"
  e_library_retain :: "bn_value \<Rightarrow> 'l \<Rightarrow> 'l \<times> (diagnostic + unit) option"
  e_object_destroyed :: "handle \<Rightarrow> 'l \<Rightarrow> 'l"

text \<open>\<open>?\<close> on a step: an error returns at once, with the state it left.\<close>

fun try_step :: "'l step \<Rightarrow> ('l interp \<Rightarrow> 'l step) \<Rightarrow> 'l step" where
  "try_step Panic f = Panic"
| "try_step (Done (st, Inl e)) f = Done (st, Inl e)"
| "try_step (Done (st, Inr u)) f = f st"

definition register_allocation :: "str \<Rightarrow> span \<Rightarrow> 'l interp \<Rightarrow> ('l interp \<times> handle) outcome" where
  "register_allocation cls sp st =
     bind_outcome (arc_register (i_arc st) cls 0 (site_of sp))
       (\<lambda>(core, oid). Done (st\<lparr>i_arc := core\<rparr>, handle_of oid))"

definition allocate_object ::
  "'l env \<Rightarrow> str \<Rightarrow> span \<Rightarrow> 'l interp \<Rightarrow> ('l interp \<times> (diagnostic + bn_value)) outcome" where
  "allocate_object env cls sp st =
     (let field_count = (case e_layouts env cls of None \<Rightarrow> 0 | Some layout \<Rightarrow> length layout)
      in bind_outcome (register_allocation cls sp st) (\<lambda>(st1, h).
         bind_outcome (heap_insert (e_reserve env) (i_objects st1) h 1 \<lparr>inst_fields = replicate field_count VNull\<rparr>)
           (\<lambda>r. case r of
                  Inl e \<Rightarrow> Done (st1, Inl e)
                | Inr objects \<Rightarrow> Done (st1\<lparr>i_objects := objects\<rparr>, Inr (VObject h cls)))))"

definition retain_handle :: "handle \<Rightarrow> span \<Rightarrow> 'l interp \<Rightarrow> 'l step" where
  "retain_handle h sp st =
     bind_outcome (arc_retain (i_arc st) (id_of h) (site_of sp))
       (\<lambda>r. case r of
              Inl e \<Rightarrow> Done (st, Inl (arc_diag e))
            | Inr (core, _) \<Rightarrow> Done (st\<lparr>i_arc := core\<rparr>, Inr ()))"

definition retain_provider :: "'l env \<Rightarrow> bn_value \<Rightarrow> 'l interp \<Rightarrow> 'l step" where
  "retain_provider env v st =
     (case v of
        VFile _ \<Rightarrow> (case e_host_retain env v (i_libs st) of (l, r) \<Rightarrow> Done (st\<lparr>i_libs := l\<rparr>, r))
      | _ \<Rightarrow> (case e_library_retain env v (i_libs st) of
                (l, r) \<Rightarrow> Done (st\<lparr>i_libs := l\<rparr>, case r of None \<Rightarrow> Inr () | Some r' \<Rightarrow> r')))"

fun retain_owned_value :: "'l env \<Rightarrow> span \<Rightarrow> bn_value \<Rightarrow> 'l interp \<Rightarrow> 'l step"
  and retain_owned_values :: "'l env \<Rightarrow> span \<Rightarrow> bn_value list \<Rightarrow> 'l interp \<Rightarrow> 'l step" where
  "retain_owned_value env sp (VObject h _) st = retain_handle h sp st"
| "retain_owned_value env sp (VPointer h _) st = retain_handle h sp st"
| "retain_owned_value env sp (VVector vs) st = retain_owned_values env sp vs st"
| "retain_owned_value env sp (VRecord (RecordValue _ vs)) st = retain_owned_values env sp vs st"
| "retain_owned_value env sp v st = retain_provider env v st"
| "retain_owned_values env sp [] st = Done (st, Inr ())"
| "retain_owned_values env sp (v # vs) st =
     try_step (retain_owned_value env sp v st) (retain_owned_values env sp vs)"

text \<open>The destruction of an object: destructor, notification, field release,
  then the allocation is freed. \<open>destroyed.and(result)\<close> keeps the first error.\<close>

definition call_of_kind ::
  "'l env \<Rightarrow> function_kind \<Rightarrow> handle \<Rightarrow> str \<Rightarrow> 'l interp \<Rightarrow> 'l step" where
  "call_of_kind env kind h cls st =
     (case e_function_of_kind env kind cls of
        None \<Rightarrow> Done (st, Inr ())
      | Some name \<Rightarrow> e_call env name (VObject h cls) st)"

definition destroy_object :: "'l env \<Rightarrow> handle \<Rightarrow> str \<Rightarrow> 'l interp \<Rightarrow> 'l step" where
  "destroy_object env h cls st =
     bind_outcome (call_of_kind env Destructor h cls st) (\<lambda>(st1, r1).
     let st2 = st1\<lparr>i_libs := e_object_destroyed env h (i_libs st1)\<rparr>
     in bind_outcome (call_of_kind env ReleaseFields h cls st2) (\<lambda>(st3, r2).
        let destroyed = (case r1 of Inl e \<Rightarrow> Inl e | Inr _ \<Rightarrow> r2);
            st4 = st3\<lparr>i_objects := fst (heap_remove (i_objects st3) h)\<rparr>
        in case finish_destroy (i_arc st4) (id_of h) of
             Inl e \<Rightarrow> Done (st4, Inl (arc_diag e))
           | Inr core \<Rightarrow> Done (st4\<lparr>i_arc := core\<rparr>, destroyed)))"

definition release_object :: "'l env \<Rightarrow> span \<Rightarrow> handle \<Rightarrow> str \<Rightarrow> 'l interp \<Rightarrow> 'l step" where
  "release_object env sp h cls st =
     bind_outcome (arc_release (i_arc st) (id_of h) (site_of sp))
       (\<lambda>r. case r of
              Inl e \<Rightarrow> Done (st, Inl (arc_diag e))
            | Inr (core, final) \<Rightarrow>
                let st1 = st\<lparr>i_arc := core\<rparr>
                in if final then destroy_object env h cls st1 else Done (st1, Inr ()))"

definition release_region :: "span \<Rightarrow> handle \<Rightarrow> 'l interp \<Rightarrow> 'l step" where
  "release_region sp h st =
     bind_outcome (arc_release (i_arc st) (id_of h) (site_of sp))
       (\<lambda>r. case r of
              Inl e \<Rightarrow> Done (st, Inl (arc_diag e))
            | Inr (core, final) \<Rightarrow>
                let st1 = st\<lparr>i_arc := core\<rparr>
                in if final
                   then let st2 = st1\<lparr>i_memory := fst (heap_remove (i_memory st1) h)\<rparr>
                        in case finish_destroy core (id_of h) of
                             Inl e \<Rightarrow> Done (st2, Inl (arc_diag e))
                           | Inr core' \<Rightarrow> Done (st2\<lparr>i_arc := core'\<rparr>, Inr ())
                   else Done (st1, Inr ()))"

text \<open>A vector releases its elements in order, a record its fields in reverse.\<close>

fun release_owned_value :: "'l env \<Rightarrow> span \<Rightarrow> bn_value \<Rightarrow> 'l interp \<Rightarrow> 'l step"
  and release_elements :: "'l env \<Rightarrow> span \<Rightarrow> bn_value list \<Rightarrow> 'l interp \<Rightarrow> 'l step"
  and release_fields :: "'l env \<Rightarrow> span \<Rightarrow> bn_value list \<Rightarrow> 'l interp \<Rightarrow> 'l step" where
  "release_owned_value env sp (VObject h cls) st = release_object env sp h cls st"
| "release_owned_value env sp (VPointer h _) st = release_region sp h st"
| "release_owned_value env sp (VVector vs) st = release_elements env sp vs st"
| "release_owned_value env sp (VRecord (RecordValue _ vs)) st = release_fields env sp vs st"
| "release_owned_value env sp v st = Done (st, Inr ())"
| "release_elements env sp [] st = Done (st, Inr ())"
| "release_elements env sp (v # vs) st =
     try_step (release_owned_value env sp v st) (release_elements env sp vs)"
| "release_fields env sp [] st = Done (st, Inr ())"
| "release_fields env sp (v # vs) st =
     try_step (release_fields env sp vs st) (release_owned_value env sp v)"

definition weak_read :: "'l interp \<Rightarrow> bn_value \<Rightarrow> bn_value" where
  "weak_read st v =
     (case v of VObject h _ \<Rightarrow> if \<not> alive (i_arc st) (id_of h) then VNull else v | _ \<Rightarrow> v)"

text \<open>\<open>count_references\<close>: the table of counts is total, zero by default
  (\<open>entry(...).or_insert(0)\<close> and \<open>get(...).unwrap_or(0)\<close>).\<close>

fun count_references :: "bn_value \<Rightarrow> (object_id \<Rightarrow> nat) \<Rightarrow> object_id \<Rightarrow> nat"
  and count_all :: "bn_value list \<Rightarrow> (object_id \<Rightarrow> nat) \<Rightarrow> object_id \<Rightarrow> nat" where
  "count_references (VObject h _) held = held(id_of h := held (id_of h) + 1)"
| "count_references (VPointer h _) held = held(id_of h := held (id_of h) + 1)"
| "count_references (VVector vs) held = count_all vs held"
| "count_references (VRecord (RecordValue _ vs)) held = count_all vs held"
| "count_references v held = held"
| "count_all [] held = held"
| "count_all (v # vs) held = count_all vs (count_references v held)"

text \<open>What the strong fields of a live object, or the elements of a live region,
  add to the counts, and the verifier of a finished program.\<close>

fun count_fields :: "bool list \<Rightarrow> bn_value list \<Rightarrow> (object_id \<Rightarrow> nat) \<Rightarrow> object_id \<Rightarrow> nat" where
  "count_fields weak [] held = held"
| "count_fields [] (v # vs) held = count_fields [] vs (count_references v held)"
| "count_fields (w # weak) (v # vs) held = count_fields weak vs (if w then held else count_references v held)"

definition count_live :: "'l env \<Rightarrow> 'l interp \<Rightarrow> object_info \<Rightarrow> (object_id \<Rightarrow> nat) \<Rightarrow> object_id \<Rightarrow> nat" where
  "count_live env st info held =
     (case heap_get (i_objects st) (handle_of (info_id info)) 0 of
        Inr inst \<Rightarrow>
          count_fields (case e_layouts env (info_class info) of None \<Rightarrow> [] | Some l \<Rightarrow> l) (inst_fields inst) held
      | Inl _ \<Rightarrow>
          (case heap_payload (i_memory st) (handle_of (info_id info)) of
             Inr payload \<Rightarrow> count_all payload held
           | Inl _ \<Rightarrow> held))"

definition arc_mismatch :: "'l env \<Rightarrow> 'l interp \<Rightarrow> (object_id \<Rightarrow> nat) \<Rightarrow> object_info \<Rightarrow> bool" where
  "arc_mismatch env st held info \<longleftrightarrow>
     (let library_object =
            ((case heap_get (i_objects st) (handle_of (info_id info)) 0 of Inr _ \<Rightarrow> True | Inl _ \<Rightarrow> False) \<and>
             e_layouts env (info_class info) = None)
      in \<not> library_object \<and> held (info_id info) \<noteq> info_strong info)"

definition verify_arc :: "'l env \<Rightarrow> 'l interp \<Rightarrow> bn_value list \<Rightarrow> diagnostic + unit" where
  "verify_arc env st statics =
     (let held = fold (count_live env st) (snapshot (i_arc st)) (count_all statics (\<lambda>_. 0))
      in case filter (arc_mismatch env st held) (snapshot (i_arc st)) of
           [] \<Rightarrow> Inr ()
         | info # _ \<Rightarrow>
             Inl (INVALID_IR (''ARC verifier: '' @ info_class info @ show_object_id (info_id info) @
               '' has strong count '' @ show_nat (info_strong info) @ '' but the program holds '' @
               show_nat (held (info_id info)) @ '' strong reference(s)'')))"

section \<open>References of a value\<close>

lemma id_of_handle_of [simp]: "id_of (handle_of oid) = oid"
  by (simp add: id_of_def handle_of_def)

lemma handle_of_id_of [simp]: "handle_of (id_of h) = h"
  by (simp add: id_of_def handle_of_def)

lemma id_of_inj: "id_of a = id_of b \<longleftrightarrow> a = b"
  by (metis handle_of_id_of)

abbreviation refs :: "bn_value \<Rightarrow> object_id \<Rightarrow> nat" where
  "refs v \<equiv> count_references v (\<lambda>_. 0)"

abbreviation refs_all :: "bn_value list \<Rightarrow> object_id \<Rightarrow> nat" where
  "refs_all vs \<equiv> count_all vs (\<lambda>_. 0)"

text \<open>Values without a reference of their own, and induction over values.\<close>

fun ownerless :: "bn_value \<Rightarrow> bool" where
  "ownerless (VObject _ _) = False"
| "ownerless (VPointer _ _) = False"
| "ownerless (VVector _) = False"
| "ownerless (VRecord _) = False"
| "ownerless _ = True"

lemma ownerless_simps:
  assumes "ownerless v"
  shows "count_references v held = held" "retain_owned_value env sp v st = retain_provider env v st"
    "release_owned_value env sp v st = Done (st, Inr ())"
  using assms by (cases v; simp)+

lemma value_induct [case_names object pointer vector struct other]:
  assumes "\<And>h c. P (VObject h c)" "\<And>h e. P (VPointer h e)"
    and "\<And>vs. (\<And>v. v \<in> set vs \<Longrightarrow> P v) \<Longrightarrow> P (VVector vs)"
    and "\<And>n vs. (\<And>v. v \<in> set vs \<Longrightarrow> P v) \<Longrightarrow> P (VRecord (RecordValue n vs))"
    and "\<And>v. ownerless v \<Longrightarrow> P v"
  shows "P v"
proof (induction v rule: measure_induct_rule [of "size"])
  case (less v)
  have sub: "size x < Suc (size_list size vs)" if "x \<in> set vs" for x :: bn_value and vs
    using that by (simp add: less_Suc_eq_le size_list_estimation')
  show ?case
  proof (cases "ownerless v")
    case False
    then consider h c where "v = VObject h c" | h e where "v = VPointer h e" | vs where "v = VVector vs"
      | n vs where "v = VRecord (RecordValue n vs)"
      by (cases v) (auto, metis record_value.exhaust)
    then show ?thesis
    proof cases
      case (3 vs)
      show ?thesis unfolding 3 by (rule assms(3)) (rule less, simp add: 3 sub)
    next
      case (4 n vs)
      show ?thesis unfolding 4 by (rule assms(4)) (rule less, simp add: 4 sub less_SucI)
    qed (simp_all add: assms(1,2))
  qed (rule assms(5))
qed

lemma count_all_add:
  assumes "\<And>v held i. v \<in> set vs \<Longrightarrow> count_references v held i = held i + refs v i"
  shows "count_all vs held i = held i + refs_all vs i"
  using assms
proof (induction vs arbitrary: held)
  case (Cons v vs)
  have IH: "count_all vs held i = held i + refs_all vs i" for held
    by (rule Cons.IH) (rule Cons.prems, simp)
  have v: "count_references v held i = held i + refs v i" by (rule Cons.prems) simp
  show ?case
    unfolding count_all.simps IH [of "count_references v held"] IH [of "refs v"] v by simp
qed simp

lemma count_references_add: "count_references v held i = held i + refs v i"
proof (induction v arbitrary: held i rule: value_induct)
  case (vector vs)
  show ?case unfolding count_references.simps by (rule count_all_add) (rule vector)
next
  case (struct n vs)
  show ?case unfolding count_references.simps by (rule count_all_add) (rule struct)
qed (auto simp: ownerless_simps)

lemma refs_all_Cons: "refs_all (v # vs) i = refs v i + refs_all vs i"
  unfolding count_all.simps by (rule count_all_add) (rule count_references_add)

section \<open>The invariant\<close>

text \<open>Every payload belongs to an object the core knows: an object that is alive
  or being destroyed, a region that is alive (a region is freed at once).\<close>

definition interp_ok :: "'l interp \<Rightarrow> bool" where
  "interp_ok st \<longleftrightarrow>
     arc_inv (i_arc st) \<and>
     (\<forall>h. heap_lookup (i_objects st) h \<noteq> None \<longrightarrow>
        0 < arc_count (i_arc st) (id_of h) \<or> arc_dying (i_arc st) (id_of h)) \<and>
     (\<forall>h. heap_lookup (i_memory st) h \<noteq> None \<longrightarrow> 0 < arc_count (i_arc st) (id_of h))"

lemma register_slot_free:
  assumes ok: "interp_ok st" and r: "arc_register (i_arc st) cls addr at = Done (core, oid)"
  shows "slot_free (i_objects st) (id_slot oid)" "slot_free (i_memory st) (id_slot oid)"
proof -
  have "arc_count (i_arc st) (id_of \<lparr>h_slot = id_slot oid, h_generation = g\<rparr>) = 0 \<and>
      \<not> arc_dying (i_arc st) (id_of \<lparr>h_slot = id_slot oid, h_generation = g\<rparr>)" for g
    using ok by (intro arc_register_slot [OF _ r]) (simp_all add: interp_ok_def id_of_def)
  then show "slot_free (i_objects st) (id_slot oid)" "slot_free (i_memory st) (id_slot oid)"
    using ok unfolding slot_free_def interp_ok_def by (metis less_numeral_extra(3))+
qed

lemma allocate_object_ok:
  assumes ok: "interp_ok st" and room: "free (i_arc st) \<noteq> [] \<or> length (slots (i_arc st)) < 2 ^ 32"
    and mem: "e_reserve env 1"
  obtains st' h where "allocate_object env cls sp st = Done (st', Inr (VObject h cls))" "interp_ok st'"
    "arc_count (i_arc st) (id_of h) = 0" "arc_count (i_arc st') = (arc_count (i_arc st))(id_of h := 1)"
    "arc_dying (i_arc st') = arc_dying (i_arc st)" "i_memory st' = i_memory st"
    "heap_lookup (i_objects st') = (heap_lookup (i_objects st))(h \<mapsto>
      [\<lparr>inst_fields = replicate (case e_layouts env cls of None \<Rightarrow> 0 | Some l \<Rightarrow> length l) VNull\<rparr>])"
proof -
  have inv: "arc_inv (i_arc st)" using ok by (simp add: interp_ok_def)
  obtain core oid where r: "arc_register (i_arc st) cls 0 (site_of sp) = Done (core, oid)" "arc_inv core"
      "arc_count (i_arc st) oid = 0" "arc_count core = (arc_count (i_arc st))(oid := 1)"
      "arc_dying core = arc_dying (i_arc st)"
    by (rule arc_register_new [OF inv room])
  note free = register_slot_free [OF ok r(1)]
  let ?inst = "\<lparr>inst_fields = replicate (case e_layouts env cls of None \<Rightarrow> 0 | Some l \<Rightarrow> length l) VNull\<rparr>"
  have "heap_insert (e_reserve env) (i_objects st) (handle_of oid) 1 ?inst \<noteq> Panic"
    using free(1) by (simp add: heap_insert_cases handle_of_def)
  then obtain objects where o: "heap_insert (e_reserve env) (i_objects st) (handle_of oid) 1 ?inst = Done (Inr objects)"
    using mem by (auto simp: heap_insert_def allocation_payload_def Let_def split: if_splits)
  note l = heap_insert_lookup(1) [OF o]
  define st' where "st' = st\<lparr>i_arc := core, i_objects := objects\<rparr>"
  have "allocate_object env cls sp st = Done (st', Inr (VObject (handle_of oid) cls))"
    using r(1) o by (simp add: allocate_object_def register_allocation_def Let_def st'_def)
  moreover have "interp_ok st'"
    using ok r(2-5) by (auto simp: interp_ok_def st'_def l id_of_inj split: if_splits)
  ultimately show thesis
    using that [of st' "handle_of oid"] r l by (simp add: st'_def)
qed

section \<open>Retain and release of whole values\<close>

text \<open>A step that changed only strong counts, to \<open>m\<close>.\<close>

definition counts_to :: "'l interp \<Rightarrow> (object_id \<Rightarrow> nat) \<Rightarrow> 'l interp \<Rightarrow> bool" where
  "counts_to st m st' \<longleftrightarrow>
     interp_ok st' \<and> arc_count (i_arc st') = m \<and> arc_dying (i_arc st') = arc_dying (i_arc st) \<and>
     i_objects st' = i_objects st \<and> i_memory st' = i_memory st"

text \<open>The providers accept every handle they are asked to retain.\<close>

definition providers_accept :: "'l env \<Rightarrow> bool" where
  "providers_accept env \<longleftrightarrow>
     (\<forall>v l. snd (e_host_retain env v l) = Inr ()) \<and>
     (\<forall>v l. snd (e_library_retain env v l) \<in> {None, Some (Inr ())})"

lemma counts_to_refl: "interp_ok st \<Longrightarrow> counts_to st (arc_count (i_arc st)) st"
  by (simp add: counts_to_def)

lemma counts_to_trans:
  "counts_to st m st1 \<Longrightarrow> counts_to st1 m' st2 \<Longrightarrow> counts_to st m' st2"
  by (simp add: counts_to_def)

lemma counts_to_ok: "counts_to st m st' \<Longrightarrow> interp_ok st'"
  by (simp add: counts_to_def)

lemma counts_to_count: "counts_to st m st' \<Longrightarrow> arc_count (i_arc st') = m"
  by (simp add: counts_to_def)

lemma interp_ok_more_counts:
  assumes "interp_ok st" "arc_inv core" "\<And>i. 0 < arc_count (i_arc st) i \<Longrightarrow> 0 < arc_count core i"
    "arc_dying core = arc_dying (i_arc st)"
  shows "interp_ok (st\<lparr>i_arc := core\<rparr>)"
  using assms by (auto simp: interp_ok_def)

lemma interp_ok_libs [simp]: "interp_ok (st\<lparr>i_libs := l\<rparr>) = interp_ok st"
  by (simp add: interp_ok_def)

lemma retain_provider_accepts:
  assumes "providers_accept env" "interp_ok st"
  obtains st' where "retain_provider env v st = Done (st', Inr ())" "counts_to st (arc_count (i_arc st)) st'"
proof -
  have "\<exists>l. retain_provider env v st = Done (st\<lparr>i_libs := l\<rparr>, Inr ())"
    using assms(1) by (cases v) (auto simp: retain_provider_def providers_accept_def split: prod.splits option.splits;
      (metis insertE option.distinct(1) option.inject singletonD snd_conv))+
  then show thesis using that assms(2) by (auto simp: counts_to_def)
qed

lemma retain_handle_counts:
  assumes "interp_ok st" "0 < arc_count (i_arc st) (id_of h)" "arc_count (i_arc st) (id_of h) < 2 ^ 64 - 1"
  obtains st' where "retain_handle h sp st = Done (st', Inr ())"
    "counts_to st ((arc_count (i_arc st))(id_of h := arc_count (i_arc st) (id_of h) + 1)) st'"
proof -
  have inv: "arc_inv (i_arc st)" using assms(1) by (simp add: interp_ok_def)
  obtain core where c: "arc_retain (i_arc st) (id_of h) (site_of sp) = Done (Inr (core, arc_count (i_arc st) (id_of h) + 1))"
      "arc_inv core" "arc_count core = (arc_count (i_arc st))(id_of h := arc_count (i_arc st) (id_of h) + 1)"
      "arc_dying core = arc_dying (i_arc st)"
    by (rule arc_retain_live [OF inv assms(2,3)])
  have "interp_ok (st\<lparr>i_arc := core\<rparr>)"
    using assms(1) c by (intro interp_ok_more_counts) (auto split: if_splits)
  then show thesis
    using that [of "st\<lparr>i_arc := core\<rparr>"] c by (simp add: retain_handle_def counts_to_def)
qed

lemma release_handle_counts:
  assumes "interp_ok st" "1 < arc_count (i_arc st) (id_of h)"
  obtains core where "arc_release (i_arc st) (id_of h) (site_of sp) = Done (Inr (core, False))"
    "counts_to st ((arc_count (i_arc st))(id_of h := arc_count (i_arc st) (id_of h) - 1)) (st\<lparr>i_arc := core\<rparr>)"
proof -
  have inv: "arc_inv (i_arc st)" using assms(1) by (simp add: interp_ok_def)
  have pos: "0 < arc_count (i_arc st) (id_of h)" using assms(2) by simp
  obtain core where c: "arc_release (i_arc st) (id_of h) (site_of sp) = Done (Inr (core, arc_count (i_arc st) (id_of h) = 1))"
      "arc_inv core" "arc_count core = (arc_count (i_arc st))(id_of h := arc_count (i_arc st) (id_of h) - 1)"
      "arc_dying core = (arc_dying (i_arc st))(id_of h := (arc_count (i_arc st) (id_of h) = 1))"
    by (rule arc_release_live [OF inv pos])
  have "arc_dying core = arc_dying (i_arc st)"
    using c(4) assms(2) live_not_dying [OF inv pos] by (auto simp: fun_eq_iff)
  moreover have "interp_ok (st\<lparr>i_arc := core\<rparr>)"
    using assms c calculation by (intro interp_ok_more_counts) (auto split: if_splits)
  ultimately show thesis
    using that [of core] c assms(2) by (simp add: counts_to_def)
qed

text \<open>The two claims about one value, for a list by induction on it.\<close>

definition retains_refs :: "('l interp \<Rightarrow> 'l step) \<Rightarrow> (object_id \<Rightarrow> nat) \<Rightarrow> bool" where
  "retains_refs f r \<longleftrightarrow>
     (\<forall>st. interp_ok st \<and> (\<forall>i. 0 < r i \<longrightarrow> 0 < arc_count (i_arc st) i) \<and>
        (\<forall>i. arc_count (i_arc st) i + r i \<le> 2 ^ 64 - 1) \<longrightarrow>
        (\<exists>st'. f st = Done (st', Inr ()) \<and> counts_to st (\<lambda>i. arc_count (i_arc st) i + r i) st'))"

definition releases_refs :: "('l interp \<Rightarrow> 'l step) \<Rightarrow> (object_id \<Rightarrow> nat) \<Rightarrow> bool" where
  "releases_refs f r \<longleftrightarrow>
     (\<forall>st. interp_ok st \<and> (\<forall>i. 0 < r i \<longrightarrow> r i < arc_count (i_arc st) i) \<longrightarrow>
        (\<exists>st'. f st = Done (st', Inr ()) \<and> counts_to st (\<lambda>i. arc_count (i_arc st) i - r i) st'))"

lemma retains_refs_then:
  assumes "retains_refs f r" "retains_refs g s"
  shows "retains_refs (\<lambda>st. try_step (f st) g) (\<lambda>i. r i + s i)"
  unfolding retains_refs_def
proof (intro allI impI)
  fix st :: "'a interp"
  assume a: "interp_ok st \<and> (\<forall>i. 0 < r i + s i \<longrightarrow> 0 < arc_count (i_arc st) i) \<and>
    (\<forall>i. arc_count (i_arc st) i + (r i + s i) \<le> 2 ^ 64 - 1)"
  have "arc_count (i_arc st) i + r i \<le> 2 ^ 64 - 1" for i
    using a [THEN conjunct2, THEN conjunct2, rule_format, of i] by simp
  then obtain st1 where st1: "f st = Done (st1, Inr ())" "counts_to st (\<lambda>i. arc_count (i_arc st) i + r i) st1"
    using assms(1) a unfolding retains_refs_def by (metis add_is_0 neq0_conv)
  have "arc_count (i_arc st1) i + s i \<le> 2 ^ 64 - 1" for i
    using a [THEN conjunct2, THEN conjunct2, rule_format, of i] by (simp add: counts_to_count [OF st1(2)] add.assoc)
  moreover have "0 < s i \<Longrightarrow> 0 < arc_count (i_arc st1) i" for i
    using a by (simp add: counts_to_count [OF st1(2)])
  ultimately obtain st2 where "g st1 = Done (st2, Inr ())"
      "counts_to st1 (\<lambda>i. arc_count (i_arc st1) i + s i) st2"
    using assms(2) counts_to_ok [OF st1(2)] unfolding retains_refs_def by blast
  then show "\<exists>st'. try_step (f st) g = Done (st', Inr ()) \<and> counts_to st (\<lambda>i. arc_count (i_arc st) i + (r i + s i)) st'"
    using st1 counts_to_trans [OF st1(2)] by (auto simp: counts_to_count [OF st1(2)] add.assoc)
qed

lemma releases_refs_then:
  assumes "releases_refs f r" "releases_refs g s"
  shows "releases_refs (\<lambda>st. try_step (f st) g) (\<lambda>i. r i + s i)"
  unfolding releases_refs_def
proof (intro allI impI)
  fix st :: "'a interp"
  assume a: "interp_ok st \<and> (\<forall>i. 0 < r i + s i \<longrightarrow> r i + s i < arc_count (i_arc st) i)"
  have "0 < r i \<Longrightarrow> r i < arc_count (i_arc st) i" for i
    using a [THEN conjunct2, rule_format, of i] by simp
  then obtain st1 where st1: "f st = Done (st1, Inr ())" "counts_to st (\<lambda>i. arc_count (i_arc st) i - r i) st1"
    using assms(1) a unfolding releases_refs_def by metis
  have "0 < s i \<Longrightarrow> s i < arc_count (i_arc st1) i" for i
    using a [THEN conjunct2, rule_format, of i] by (simp add: counts_to_count [OF st1(2)])
  then obtain st2 where "g st1 = Done (st2, Inr ())"
      "counts_to st1 (\<lambda>i. arc_count (i_arc st1) i - s i) st2"
    using assms(2) counts_to_ok [OF st1(2)] unfolding releases_refs_def by blast
  then show "\<exists>st'. try_step (f st) g = Done (st', Inr ()) \<and> counts_to st (\<lambda>i. arc_count (i_arc st) i - (r i + s i)) st'"
    using st1 counts_to_trans [OF st1(2)] by (auto simp: counts_to_count [OF st1(2)])
qed

lemma retain_owned_values_refs:
  assumes "\<And>v. v \<in> set vs \<Longrightarrow> retains_refs (retain_owned_value env sp v) (refs v)"
  shows "retains_refs (retain_owned_values env sp vs) (refs_all vs)"
  using assms
proof (induction vs)
  case (Cons v vs)
  have "retains_refs (\<lambda>st. try_step (retain_owned_value env sp v st) (retain_owned_values env sp vs))
      (\<lambda>i. refs v i + refs_all vs i)"
    by (rule retains_refs_then) (use Cons in auto)
  moreover have "refs_all (v # vs) = (\<lambda>i. refs v i + refs_all vs i)" by (rule ext) (rule refs_all_Cons)
  ultimately show ?case by (simp add: retains_refs_def del: count_all.simps)
qed (simp add: retains_refs_def counts_to_refl)

lemma release_elements_refs:
  assumes "\<And>v. v \<in> set vs \<Longrightarrow> releases_refs (release_owned_value env sp v) (refs v)"
  shows "releases_refs (release_elements env sp vs) (refs_all vs)"
    and "releases_refs (release_fields env sp vs) (refs_all vs)"
  using assms
proof (induction vs)
  case (Cons v vs)
  have sum: "refs_all (v # vs) = (\<lambda>i. refs v i + refs_all vs i)"
    "refs_all (v # vs) = (\<lambda>i. refs_all vs i + refs v i)"
    by (auto simp: refs_all_Cons simp del: count_all.simps)
  { case 1
    have "releases_refs (\<lambda>st. try_step (release_owned_value env sp v st) (release_elements env sp vs))
        (\<lambda>i. refs v i + refs_all vs i)"
      by (rule releases_refs_then) (use 1 Cons(1) in auto)
    then show ?case using sum(1) by (simp add: releases_refs_def del: count_all.simps)
  next
    case 2
    have "releases_refs (\<lambda>st. try_step (release_fields env sp vs st) (release_owned_value env sp v))
        (\<lambda>i. refs_all vs i + refs v i)"
      by (rule releases_refs_then) (use 2 Cons(2) in auto)
    then show ?case using sum(2) by (simp add: releases_refs_def del: count_all.simps) }
qed (simp_all add: releases_refs_def counts_to_refl)

lemma retain_owned_value_refs:
  assumes "providers_accept env"
  shows "retains_refs (retain_owned_value env sp v) (refs v)"
proof (induction v rule: value_induct)
  case (object h c)
  then show ?case unfolding retains_refs_def
    by (auto, rule retain_handle_counts [of _ h sp]) (force simp: counts_to_def fun_eq_iff)+
next
  case (pointer h e)
  then show ?case unfolding retains_refs_def
    by (auto, rule retain_handle_counts [of _ h sp]) (force simp: counts_to_def fun_eq_iff)+
next
  case (vector vs)
  then show ?case using retain_owned_values_refs [of vs env sp] by (simp add: retains_refs_def)
next
  case (struct n vs)
  then show ?case using retain_owned_values_refs [of vs env sp] by (simp add: retains_refs_def)
next
  case (other v)
  then show ?case unfolding retains_refs_def
    by (auto simp: ownerless_simps intro: retain_provider_accepts [OF assms])
qed

lemma release_owned_value_refs: "releases_refs (release_owned_value env sp v) (refs v)"
proof (induction v rule: value_induct)
  case (object h c)
  then show ?case unfolding releases_refs_def
    by (auto simp: release_object_def Let_def, rule release_handle_counts [of _ h sp])
       (force simp: counts_to_def fun_eq_iff)+
next
  case (pointer h e)
  then show ?case unfolding releases_refs_def
    by (auto simp: release_region_def Let_def, rule release_handle_counts [of _ h sp])
       (force simp: counts_to_def fun_eq_iff)+
next
  case (vector vs)
  then show ?case using release_elements_refs(1) [of vs env sp] by (simp add: releases_refs_def)
next
  case (struct n vs)
  then show ?case using release_elements_refs(2) [of vs env sp] by (simp add: releases_refs_def)
next
  case (other v)
  then show ?case by (simp add: releases_refs_def ownerless_simps counts_to_refl)
qed

section \<open>The last reference\<close>

text \<open>What the interpreter relies on when it runs a destructor: the program keeps
  the invariant and does not end the destruction of another object's turn.\<close>

definition calls_keep :: "'l env \<Rightarrow> bool" where
  "calls_keep env \<longleftrightarrow>
     (\<forall>name v st st' r. interp_ok st \<longrightarrow> e_call env name v st = Done (st', r) \<longrightarrow>
        interp_ok st' \<and> (\<forall>oid. arc_dying (i_arc st) oid \<longrightarrow> arc_dying (i_arc st') oid))"

lemma last_release:
  assumes "interp_ok st" "arc_count (i_arc st) (id_of h) = 1"
  obtains core where "arc_release (i_arc st) (id_of h) (site_of sp) = Done (Inr (core, True))"
    "arc_inv core" "arc_count core = (arc_count (i_arc st))(id_of h := 0)"
    "arc_dying core = (arc_dying (i_arc st))(id_of h := True)"
proof -
  have inv: "arc_inv (i_arc st)" and pos: "0 < arc_count (i_arc st) (id_of h)"
    using assms by (simp_all add: interp_ok_def)
  obtain core where "arc_release (i_arc st) (id_of h) (site_of sp) = Done (Inr (core, arc_count (i_arc st) (id_of h) = 1))"
      "arc_inv core" "arc_count core = (arc_count (i_arc st))(id_of h := arc_count (i_arc st) (id_of h) - 1)"
      "arc_dying core = (arc_dying (i_arc st))(id_of h := (arc_count (i_arc st) (id_of h) = 1))"
    by (rule arc_release_live [OF inv pos])
  then show thesis using that [of core] by (simp add: assms(2))
qed

lemma release_region_last:
  assumes ok: "interp_ok st" and c: "arc_count (i_arc st) (id_of h) = 1"
    and region: "heap_lookup (i_objects st) h = None"
  obtains st' where "release_region sp h st = Done (st', Inr ())" "interp_ok st'"
    "\<not> alive (i_arc st') (id_of h)" "heap_lookup (i_memory st') = (heap_lookup (i_memory st))(h := None)"
    "arc_count (i_arc st') = (arc_count (i_arc st))(id_of h := 0)" "i_objects st' = i_objects st"
proof -
  obtain core where core: "arc_release (i_arc st) (id_of h) (site_of sp) = Done (Inr (core, True))"
      "arc_inv core" "arc_count core = (arc_count (i_arc st))(id_of h := 0)"
      "arc_dying core = (arc_dying (i_arc st))(id_of h := True)"
    by (rule last_release [OF ok c])
  then have "arc_dying core (id_of h)" by simp
  then obtain core' where core': "finish_destroy core (id_of h) = Inr core'" "arc_inv core'"
      "arc_count core' = arc_count core" "arc_dying core' = (arc_dying core)(id_of h := False)"
    by (rule finish_destroy_dying [OF core(2)])
  define st' where "st' = st\<lparr>i_arc := core', i_memory := fst (heap_remove (i_memory st) h)\<rparr>"
  have "release_region sp h st = Done (st', Inr ())"
    using core(1) core'(1) by (simp add: release_region_def Let_def st'_def)
  moreover have "interp_ok st'"
    using ok region core core' by (auto simp: interp_ok_def st'_def heap_remove_lookup id_of_inj split: if_splits)
  ultimately show thesis
    using that [of st'] core core' by (simp add: st'_def heap_remove_lookup alive_iff_count)
qed

lemma call_of_kind_keeps:
  assumes "calls_keep env" "interp_ok st" "call_of_kind env kind h cls st = Done (st', r)"
  shows "interp_ok st'" "arc_dying (i_arc st) oid \<Longrightarrow> arc_dying (i_arc st') oid"
proof -
  have "interp_ok st' \<and> (arc_dying (i_arc st) oid \<longrightarrow> arc_dying (i_arc st') oid)"
  proof (cases "e_function_of_kind env kind cls")
    case None
    then show ?thesis using assms(2,3) by (simp add: call_of_kind_def)
  next
    case (Some name)
    then show ?thesis
      using assms unfolding calls_keep_def by (simp add: call_of_kind_def) blast
  qed
  then show "interp_ok st'" "arc_dying (i_arc st) oid \<Longrightarrow> arc_dying (i_arc st') oid" by blast+
qed

lemma destroy_object_frees:
  assumes keep: "calls_keep env" and ok: "interp_ok st" and d: "arc_dying (i_arc st) (id_of h)"
    and r: "destroy_object env h cls st = Done (st', res)"
  shows "interp_ok st' \<and> \<not> alive (i_arc st') (id_of h) \<and> \<not> arc_dying (i_arc st') (id_of h) \<and>
    heap_lookup (i_objects st') h = None"
proof -
  obtain st1 r1 where c1: "call_of_kind env Destructor h cls st = Done (st1, r1)"
    using r by (cases "call_of_kind env Destructor h cls st") (auto simp: destroy_object_def)
  define st2 where "st2 = st1\<lparr>i_libs := e_object_destroyed env h (i_libs st1)\<rparr>"
  obtain st3 r2 where c2: "call_of_kind env ReleaseFields h cls st2 = Done (st3, r2)"
    using r c1 by (cases "call_of_kind env ReleaseFields h cls st2") (auto simp: destroy_object_def Let_def st2_def)
  note k1 = call_of_kind_keeps [OF keep ok c1]
  have ok2: "interp_ok st2" "arc_dying (i_arc st2) (id_of h)" using k1 d by (simp_all add: st2_def)
  note k2 = call_of_kind_keeps [OF keep ok2(1) c2]
  have inv: "arc_inv (i_arc st3)" and d3: "arc_dying (i_arc st3) (id_of h)"
    using k2 ok2(2) by (simp_all add: interp_ok_def)
  obtain core where core: "finish_destroy (i_arc st3) (id_of h) = Inr core" "arc_inv core"
      "arc_count core = arc_count (i_arc st3)" "arc_dying core = (arc_dying (i_arc st3))(id_of h := False)"
    by (rule finish_destroy_dying [OF inv d3])
  have st': "st' = st3\<lparr>i_objects := fst (heap_remove (i_objects st3) h), i_arc := core\<rparr>"
    using r c1 c2 core(1) by (simp add: destroy_object_def Let_def st2_def)
  have zero: "arc_count (i_arc st3) (id_of h) = 0" by (rule dying_slot(7) [OF d3 inv])
  have "interp_ok st'"
    using k2(1) core zero by (auto simp: interp_ok_def st' heap_remove_lookup id_of_inj split: if_splits)
  then show ?thesis
    using core zero by (simp add: st' heap_remove_lookup alive_iff_count)
qed

lemma release_object_last:
  assumes keep: "calls_keep env" and ok: "interp_ok st" and c: "arc_count (i_arc st) (id_of h) = 1"
    and object: "heap_lookup (i_memory st) h = None"
    and r: "release_object env sp h cls st = Done (st', res)"
  shows "interp_ok st' \<and> \<not> alive (i_arc st') (id_of h) \<and> \<not> arc_dying (i_arc st') (id_of h) \<and>
    heap_lookup (i_objects st') h = None"
proof -
  obtain core where core: "arc_release (i_arc st) (id_of h) (site_of sp) = Done (Inr (core, True))"
      "arc_inv core" "arc_count core = (arc_count (i_arc st))(id_of h := 0)"
      "arc_dying core = (arc_dying (i_arc st))(id_of h := True)"
    by (rule last_release [OF ok c])
  have "interp_ok (st\<lparr>i_arc := core\<rparr>)"
    using ok core object by (auto simp: interp_ok_def id_of_inj split: if_splits)
  moreover have "destroy_object env h cls (st\<lparr>i_arc := core\<rparr>) = Done (st', res)"
    using r core(1) by (simp add: release_object_def Let_def)
  ultimately show ?thesis using core(4) by (intro destroy_object_frees [OF keep]) simp_all
qed

section \<open>Properties\<close>

text \<open>Allocating an object never hits the heap's assertion: in every state
  where payloads belong to objects the core knows, \<open>allocate_object\<close> yields an
  object with a fresh handle, one reference and its fields \<open>NULL\<close>, all other
  payloads and counts unchanged, and the agreement of core and heap holds
  again.\<close>

theorem allocate_object_safe:
  assumes "interp_ok st" "free (i_arc st) \<noteq> [] \<or> length (slots (i_arc st)) < 2 ^ 32" "e_reserve env 1"
  shows "\<exists>st' h. allocate_object env cls sp st = Done (st', Inr (VObject h cls)) \<and> interp_ok st' \<and>
    arc_count (i_arc st) (id_of h) = 0 \<and>
    arc_count (i_arc st') = (arc_count (i_arc st))(id_of h := 1) \<and> i_memory st' = i_memory st \<and>
    heap_lookup (i_objects st') = (heap_lookup (i_objects st))(h \<mapsto>
      [\<lparr>inst_fields = replicate (case e_layouts env cls of None \<Rightarrow> 0 | Some l \<Rightarrow> length l) VNull\<rparr>])"
  using allocate_object_ok [OF assms, of cls sp] by metis

definition empty_interp :: "unit interp" where
  "empty_interp = \<lparr>i_arc = arc_new, i_objects = heap_default, i_memory = heap_default, i_libs = ()\<rparr>"

definition plain_env :: "unit env" where
  "plain_env = \<lparr>e_reserve = \<lambda>_. True, e_layouts = \<lambda>_. Some [False, True], e_function_of_kind = \<lambda>_ _. None,
     e_call = \<lambda>_ _ st. Done (st, Inr ()), e_host_retain = \<lambda>_ l. (l, Inr ()),
     e_library_retain = \<lambda>_ l. (l, None), e_object_destroyed = \<lambda>_ l. l\<rparr>"

lemma empty_interp_ok: "interp_ok empty_interp"
  using arc_new_inv [of 1] by (simp add: interp_ok_def empty_interp_def arc_new_def heap_default_empty)

lemma empty_interp_room: "length (slots (i_arc empty_interp)) < 2 ^ 32"
  by (simp add: empty_interp_def arc_new_def with_first_generation_def)

theorem allocate_object_safe_witness:
  "\<exists>st' h. allocate_object plain_env ''Node'' \<lparr>start_line = 1, start_column = 1\<rparr> empty_interp =
     Done (st', Inr (VObject h ''Node''))"
  using allocate_object_safe [OF empty_interp_ok disjI2 [OF empty_interp_room], of plain_env "''Node''"
      "\<lparr>start_line = 1, start_column = 1\<rparr>"]
  by (simp add: plain_env_def) blast

text \<open>C29: retaining a value adds, for every object and region, exactly the number
  of references the ARC verifier counts in it, and changes nothing else, when
  what it names is alive and the providers accept their handles.\<close>

theorem retain_counts_references:
  assumes "providers_accept env" "interp_ok st"
    and "\<forall>i. 0 < count_references v (\<lambda>_. 0) i \<longrightarrow> 0 < arc_count (i_arc st) i"
    and "\<forall>i. arc_count (i_arc st) i + count_references v (\<lambda>_. 0) i \<le> 2 ^ 64 - 1"
  shows "\<exists>st'. retain_owned_value env sp v st = Done (st', Inr ()) \<and>
    counts_to st (count_references v (arc_count (i_arc st))) st'"
proof -
  have "count_references v (arc_count (i_arc st)) = (\<lambda>i. arc_count (i_arc st) i + refs v i)"
    by (rule ext) (rule count_references_add)
  then show ?thesis
    using retain_owned_value_refs [OF assms(1), of sp v] assms(2-4) by (simp add: retains_refs_def)
qed


lemma plain_env_accepts: "providers_accept plain_env"
  by (simp add: providers_accept_def plain_env_def)

lemma plain_env_keeps: "calls_keep plain_env"
  by (auto simp: calls_keep_def plain_env_def)

text \<open>A state with one object, for the concrete instances.\<close>

lemma one_object_state:
  obtains st h where "interp_ok st" "arc_count (i_arc st) = (\<lambda>i. if i = id_of h then 1 else 0)"
    "heap_lookup (i_memory (st :: unit interp)) h = None" "heap_lookup (i_objects st) h = None"
proof -
  define st :: "unit interp" where
    "st = \<lparr>i_arc = sample_core, i_objects = heap_default, i_memory = heap_default, i_libs = ()\<rparr>"
  have "interp_ok st" using sample_core_inv by (simp add: interp_ok_def st_def heap_default_empty)
  then show thesis
    using that [of st "handle_of 1"] by (simp add: st_def sample_core_count heap_default_empty fun_eq_iff)
qed

theorem retain_counts_references_witness:
  "\<exists>(st :: unit interp) st' h. retain_owned_value plain_env \<lparr>start_line = 1, start_column = 1\<rparr>
     (VVector [VObject h ''Node'', VNull, VObject h ''Node'']) st = Done (st', Inr ()) \<and>
     arc_count (i_arc st') (id_of h) = 3"
proof -
  obtain st :: "unit interp" and h where st: "interp_ok st" "arc_count (i_arc st) = (\<lambda>i. if i = id_of h then 1 else 0)"
    by (rule one_object_state)
  have "\<exists>st'. retain_owned_value plain_env \<lparr>start_line = 1, start_column = 1\<rparr>
      (VVector [VObject h ''Node'', VNull, VObject h ''Node'']) st = Done (st', Inr ()) \<and>
      counts_to st (count_references (VVector [VObject h ''Node'', VNull, VObject h ''Node''])
        (arc_count (i_arc st))) st'"
    by (rule retain_counts_references [OF plain_env_accepts st(1)]) (simp_all add: st(2))
  moreover have "count_references (VVector [VObject h ''Node'', VNull, VObject h ''Node''])
      (arc_count (i_arc st)) (id_of h) = 3"
    by (simp add: st(2))
  ultimately show ?thesis using counts_to_count by metis
qed




text \<open>Releasing the last reference to a region frees it at once.\<close>

theorem region_freed:
  assumes "interp_ok st" "arc_count (i_arc st) (id_of h) = 1" "heap_lookup (i_objects st) h = None"
  shows "\<exists>st'. release_owned_value env sp (VPointer h e) st = Done (st', Inr ()) \<and> interp_ok st' \<and>
    heap_lookup (i_memory st') = (heap_lookup (i_memory st))(h := None) \<and>
    heap_get (i_memory st') h k = Inl stale \<and>
    arc_count (i_arc st') = (arc_count (i_arc st))(id_of h := 0)"
proof -
  obtain st' where "release_region sp h st = Done (st', Inr ())" "interp_ok st'"
      "heap_lookup (i_memory st') = (heap_lookup (i_memory st))(h := None)"
      "arc_count (i_arc st') = (arc_count (i_arc st))(id_of h := 0)"
    by (rule release_region_last [OF assms])
  then show ?thesis by (simp add: heap_get_def heap_payload_def)
qed

theorem region_freed_witness:
  "\<exists>(st :: unit interp) st' h. release_owned_value plain_env \<lparr>start_line = 1, start_column = 1\<rparr>
     (VPointer h 4) st = Done (st', Inr ()) \<and> heap_get (i_memory st') h 0 = Inl stale"
proof -
  obtain st :: "unit interp" and h where st: "interp_ok st"
      "arc_count (i_arc st) = (\<lambda>i. if i = id_of h then 1 else 0)" "heap_lookup (i_objects st) h = None"
    by (rule one_object_state)
  have one: "arc_count (i_arc st) (id_of h) = 1" by (simp add: st(2))
  show ?thesis
    using region_freed [OF st(1) one st(3), of plain_env "\<lparr>start_line = 1, start_column = 1\<rparr>" 4 0] by blast
qed

end
