(* ===== verification/BN_Dispatch_Error.thy ===== *)
theory BN_Dispatch_Error
  imports BN_Types
begin

text \<open>
  \<open>BNDispatch\<close> failures and bounds: \<open>libraries/bn_core_dispatch/src/error.rs\<close>.
  The limits are the fields of \<open>bn_limits::DispatchLimits\<close> the library reads;
  a clock reading is a number of milliseconds, the processor count the system
  reports is an argument.
\<close>

section \<open>Definitions\<close>

record dispatch_limits =
  worker_count_max :: nat
  pending_tickets_max :: nat
  timeout_min_ms :: int
  timeout_max_ms :: int
  output_max_bytes :: nat

datatype dispatch_failure =
    OutOfRange str int int int
  | Timeout int
  | Closed str
  | Saturated nat
  | Cancelled
  | TaskFailed int str
  | GroupUnderflow
  | ReleaseWithEveryPermit nat
  | NotOwner
  | SelfWait
  | Unavailable str

definition dispatch_constant :: "str \<Rightarrow> int" where
  "dispatch_constant name = the (map_of dispatch_codes name)"

fun failure_code :: "dispatch_failure \<Rightarrow> int" where
  "failure_code (OutOfRange _ _ _ _) = dispatch_constant ''INVALID_ARGUMENT''"
| "failure_code (Timeout _) = dispatch_constant ''TIMEOUT''"
| "failure_code (Closed _) = dispatch_constant ''CLOSED''"
| "failure_code (Saturated _) = dispatch_constant ''SATURATED''"
| "failure_code Cancelled = dispatch_constant ''CANCELLED''"
| "failure_code (TaskFailed _ _) = dispatch_constant ''TASK_FAILED''"
| "failure_code GroupUnderflow = dispatch_constant ''INVALID_STATE''"
| "failure_code (ReleaseWithEveryPermit _) = dispatch_constant ''INVALID_STATE''"
| "failure_code NotOwner = dispatch_constant ''INVALID_STATE''"
| "failure_code SelfWait = dispatch_constant ''INVALID_STATE''"
| "failure_code (Unavailable _) = dispatch_constant ''UNAVAILABLE''"

fun failure_message :: "dispatch_failure \<Rightarrow> str" where
  "failure_message (OutOfRange what v _ _) = ''cannot use '' @ show_int v @ '' as the '' @ what"
| "failure_message (Timeout ms) = ''timed out after '' @ show_int ms @ '' ms''"
| "failure_message (Closed what) = ''the '' @ what @ '' is closed''"
| "failure_message (Saturated _) = ''cannot submit the task''"
| "failure_message Cancelled = ''the task was cancelled''"
| "failure_message (TaskFailed _ _) = ''the task failed''"
| "failure_message GroupUnderflow = ''cannot leave the group''"
| "failure_message (ReleaseWithEveryPermit _) = ''cannot release the semaphore''"
| "failure_message NotOwner = ''cannot unlock the mutex''"
| "failure_message SelfWait = ''cannot wait for the queue from its own worker''"
| "failure_message (Unavailable _) = ''the operation is not available''"

fun failure_cause :: "dispatch_failure \<Rightarrow> str" where
  "failure_cause (OutOfRange what _ lo hi) =
     ''the '' @ what @ '' must be from '' @ show_int lo @ '' through '' @ show_int hi"
| "failure_cause (Timeout _) = ''the operation did not complete within its timeout''"
| "failure_cause (Closed what) =
     (if what = ''queue'' then ''a closed queue accepts no more work''
      else ''the '' @ what @ '' was closed by Close'')"
| "failure_cause (Saturated pending) = ''the queue already holds '' @ show_nat pending @ '' pending tickets''"
| "failure_cause Cancelled = ''Cancel, or the queue's Close, removed it before it ran''"
| "failure_cause (TaskFailed code message) = ''the worker returned Error '' @ show_int code @ '': '' @ message"
| "failure_cause GroupUnderflow = ''the group count is already 0: each Leave needs an Enter''"
| "failure_cause (ReleaseWithEveryPermit permits) =
     (if permits = 1 then ''its only permit is already available''
      else ''all '' @ show_nat permits @ '' permits are already available'')"
| "failure_cause NotOwner = ''only the task that locked the mutex can unlock it''"
| "failure_cause SelfWait = ''the worker would wait for itself''"
| "failure_cause (Unavailable reason) = reason"

text \<open>The instant \<open>timeout_ms\<close> from \<open>now\<close>.\<close>

definition deadline :: "dispatch_limits \<Rightarrow> int \<Rightarrow> int \<Rightarrow> dispatch_failure + int" where
  "deadline limits now timeout_ms =
     (if \<not> (timeout_min_ms limits \<le> timeout_ms \<and> timeout_ms \<le> timeout_max_ms limits)
      then Inl (OutOfRange ''timeout in milliseconds'' timeout_ms (timeout_min_ms limits) (timeout_max_ms limits))
      else Inr (now + (case try_fit u64_ok timeout_ms of Some ms \<Rightarrow> ms | None \<Rightarrow> 0)))"

definition bounded_count :: "str \<Rightarrow> int \<Rightarrow> nat \<Rightarrow> dispatch_failure + nat" where
  "bounded_count what v hi =
     (if u64_ok v \<and> 1 \<le> v \<and> v \<le> int hi then Inr (nat v) else Inl (OutOfRange what v 1 (int hi)))"

definition worker_count :: "dispatch_limits \<Rightarrow> int \<Rightarrow> dispatch_failure + nat" where
  "worker_count limits v = bounded_count ''worker count'' v (worker_count_max limits)"

definition auto_worker_count :: "dispatch_limits \<Rightarrow> nat option \<Rightarrow> dispatch_failure + nat" where
  "auto_worker_count limits parallelism =
     (case parallelism of
        Some n \<Rightarrow> Inr (min n (worker_count_max limits))
      | None \<Rightarrow> Inl (Unavailable ''the system reports no processor count''))"

section \<open>Properties\<close>

lemma dispatch_constants:
  "dispatch_constant ''INVALID_ARGUMENT'' = 1" "dispatch_constant ''TIMEOUT'' = 2"
  "dispatch_constant ''CLOSED'' = 3" "dispatch_constant ''SATURATED'' = 4" "dispatch_constant ''CANCELLED'' = 5"
  "dispatch_constant ''TASK_FAILED'' = 6" "dispatch_constant ''INVALID_STATE'' = 7"
  "dispatch_constant ''UNAVAILABLE'' = 8"
  by (simp_all add: dispatch_constant_def dispatch_codes_def)

text \<open>Every failure of \<open>BNDispatch\<close> has a code of its table and a message, and
  only the failures about the use of a primitive share a code.\<close>

theorem failure_codes_listed:
  "failure_code f \<in> snd ` set dispatch_codes \<and> failure_message f \<noteq> [] \<and>
   (failure_code f = failure_code g \<and> failure_code f \<noteq> 7 \<longrightarrow>
      (case f of OutOfRange _ _ _ _ \<Rightarrow> (\<exists>w v a b. g = OutOfRange w v a b)
       | Timeout _ \<Rightarrow> (\<exists>m. g = Timeout m) | Closed _ \<Rightarrow> (\<exists>w. g = Closed w)
       | Saturated _ \<Rightarrow> (\<exists>p. g = Saturated p) | Cancelled \<Rightarrow> g = Cancelled
       | TaskFailed _ _ \<Rightarrow> (\<exists>c m. g = TaskFailed c m) | Unavailable _ \<Rightarrow> (\<exists>r. g = Unavailable r)
       | _ \<Rightarrow> False))"
proof -
  have "failure_code f \<in> {1, 2, 3, 4, 5, 6, 7, 8}" by (cases f) (simp_all add: dispatch_constants)
  moreover have "snd ` set dispatch_codes = {1, 2, 3, 4, 5, 6, 7, 8}" by (auto simp: dispatch_codes_def)
  ultimately show ?thesis
    by (cases f; cases g) (simp_all add: dispatch_constants)
qed

theorem failure_codes_listed_witness: "failure_code (Timeout 5) \<in> snd ` set dispatch_codes"
  using failure_codes_listed [of "Timeout 5" Cancelled] by blast

text \<open>A worker count or timeout is accepted exactly within its bounds, and
  then is the number asked for; every other value is an out-of-range failure
  that names those bounds.\<close>

theorem dispatch_bounds_checked:
  assumes "worker_count_max limits < 2 ^ 64" "0 \<le> timeout_min_ms limits" "timeout_max_ms limits < 2 ^ 64"
  shows "(case worker_count limits v of
            Inr n \<Rightarrow> int n = v \<and> 1 \<le> n \<and> n \<le> worker_count_max limits
          | Inl f \<Rightarrow> (v < 1 \<or> v > int (worker_count_max limits)) \<and>
              f = OutOfRange ''worker count'' v 1 (int (worker_count_max limits))) \<and>
    (case deadline limits now ms of
       Inr t \<Rightarrow> timeout_min_ms limits \<le> ms \<and> ms \<le> timeout_max_ms limits \<and> t = now + ms
     | Inl f \<Rightarrow> (ms < timeout_min_ms limits \<or> ms > timeout_max_ms limits) \<and> failure_code f = 1)"
  using assms by (auto simp: worker_count_def bounded_count_def deadline_def u64_ok_def dispatch_constants try_fit_def)

theorem dispatch_bounds_checked_witness:
  "worker_count \<lparr>worker_count_max = 64, pending_tickets_max = 4, timeout_min_ms = 1, timeout_max_ms = 60000,
     output_max_bytes = 10\<rparr> 8 = Inr 8"
  using dispatch_bounds_checked [of "\<lparr>worker_count_max = 64, pending_tickets_max = 4, timeout_min_ms = 1,
      timeout_max_ms = 60000, output_max_bytes = 10\<rparr>" 8 0 5]
  by (simp split: sum.splits)

end
