(* ===== verification/BN_Dispatch.thy ===== *)
theory BN_Dispatch
  imports BN_Dispatch_Error
begin

text \<open>
  \<open>BNDispatch\<close> queues and tickets: \<open>libraries/bn_core_dispatch/src/lib.rs\<close>. A
  ticket is a shared object (\<open>Arc<TicketInner>\<close>) that outlives its entry in the
  queue's table, so tickets live in a store and are named by their index; the
  table maps ticket identifiers to indices. Each mutex-protected section is
  one atomic operation. The bounded channel holds the jobs a worker has not
  taken. Threads are the step relation: every interleaving of the operations is
  a run. The random numbers are an argument of \<open>submit_with\<close>; the wake-ups
  of a condition variable are the observations of the waiting loop.
\<close>

unbundle bit_operations_syntax

section \<open>Tickets\<close>

definition PENDING :: int where "PENDING = 0"
definition RUNNING :: int where "RUNNING = 1"
definition COMPLETED :: int where "COMPLETED = 2"
definition FAILED :: int where "FAILED = 3"
definition CANCELLED :: int where "CANCELLED = 4"

lemmas status_defs = PENDING_def RUNNING_def COMPLETED_def FAILED_def CANCELLED_def

record ticket =
  status :: int
  error :: "(int \<times> str) option"
  t_closed :: bool
  task :: str
  t_output :: str

definition new_ticket :: "str \<Rightarrow> ticket" where
  "new_ticket name = \<lparr>status = PENDING, error = None, t_closed = False, task = name, t_output = ''''\<rparr>"

definition ticket_task :: "ticket \<Rightarrow> dispatch_failure + str" where
  "ticket_task t = (if t_closed t then Inl (Closed ''ticket'') else Inr (task t))"

definition ticket_cancel :: "ticket \<Rightarrow> ticket \<times> (dispatch_failure + bool)" where
  "ticket_cancel t =
     (if t_closed t then (t, Inl (Closed ''ticket''))
      else if status t = PENDING then (t\<lparr>status := CANCELLED\<rparr>, Inr True)
      else (t, Inr False))"

definition is_done :: "ticket \<Rightarrow> bool" where
  "is_done t \<longleftrightarrow> status t \<in> {COMPLETED, FAILED, CANCELLED}"

definition ticket_close :: "ticket \<Rightarrow> ticket" where
  "ticket_close t = t\<lparr>t_closed := True, task := '''', t_output := ''''\<rparr>"

definition mark_running :: "ticket \<Rightarrow> ticket \<times> (dispatch_failure + unit)" where
  "mark_running t =
     (if t_closed t \<or> status t \<noteq> PENDING then (t, Inl (Closed ''ticket''))
      else (t\<lparr>status := RUNNING\<rparr>, Inr ()))"

definition mark_completed :: "ticket \<Rightarrow> ticket" where
  "mark_completed t = (if status t = RUNNING then t\<lparr>status := COMPLETED\<rparr> else t)"

definition mark_failed :: "int \<Rightarrow> str \<Rightarrow> ticket \<Rightarrow> ticket" where
  "mark_failed code message t =
     (if status t = RUNNING then t\<lparr>status := FAILED, error := Some (code, message)\<rparr> else t)"

definition set_output :: "dispatch_limits \<Rightarrow> str \<Rightarrow> ticket \<Rightarrow> ticket \<times> (dispatch_failure + unit)" where
  "set_output limits s t =
     (if length s > output_max_bytes limits
      then (t, Inl (OutOfRange ''output length in bytes'' (int (length s)) 0 (int (output_max_bytes limits))))
      else (t\<lparr>t_output := s\<rparr>, Inr ()))"

definition take_output :: "ticket \<Rightarrow> ticket \<times> str" where
  "take_output t = (t\<lparr>t_output := ''''\<rparr>, t_output t)"

definition is_terminal :: "ticket \<Rightarrow> bool" where
  "is_terminal t \<longleftrightarrow> t_closed t \<or> status t \<in> {COMPLETED, FAILED, CANCELLED}"

definition cancel_pending :: "ticket \<Rightarrow> ticket" where
  "cancel_pending t = (if status t = PENDING then t\<lparr>status := CANCELLED\<rparr> else t)"

definition task_failed :: "(int \<times> str) option \<Rightarrow> dispatch_failure" where
  "task_failed e = (case e of None \<Rightarrow> TaskFailed 1 ''the task failed'' | Some (code, message) \<Rightarrow> TaskFailed code message)"

definition saturated :: "dispatch_limits \<Rightarrow> dispatch_failure" where
  "saturated limits = Saturated (pending_tickets_max limits)"

text \<open>What the end of a job does to its ticket.\<close>

definition job_end :: "bool \<Rightarrow> ticket \<Rightarrow> ticket" where
  "job_end panicked t =
     (if panicked then mark_failed 1 ''dispatch task panicked'' t
      else if status t = RUNNING then mark_completed t else t)"

text \<open>One look at a ticket under its lock, and the loop of \<open>wait\<close>: each element is
  the state a wake-up finds and whether the deadline has passed; no result
  means that the thread still waits.\<close>

definition wait_look :: "ticket \<Rightarrow> (dispatch_failure + unit) option" where
  "wait_look t =
     (if t_closed t then Some (Inl (Closed ''ticket''))
      else if status t = COMPLETED then Some (Inr ())
      else if status t = FAILED then Some (Inl (task_failed (error t)))
      else if status t = CANCELLED then Some (Inl Cancelled)
      else None)"

fun wait_loop :: "int \<Rightarrow> (ticket \<times> bool) list \<Rightarrow> (dispatch_failure + unit) option" where
  "wait_loop ms [] = None"
| "wait_loop ms ((t, expired) # looks) =
     (case wait_look t of
        Some r \<Rightarrow> Some r
      | None \<Rightarrow> if expired then Some (Inl (Timeout ms)) else wait_loop ms looks)"

definition ticket_wait :: "dispatch_limits \<Rightarrow> int \<Rightarrow> int \<Rightarrow> (ticket \<times> bool) list \<Rightarrow> (dispatch_failure + unit) option" where
  "ticket_wait limits now ms looks =
     (case deadline limits now ms of Inl e \<Rightarrow> Some (Inl e) | Inr _ \<Rightarrow> wait_loop ms looks)"

section \<open>Queues\<close>

record queue =
  q_id :: nat
  q_workers :: nat
  q_closed :: bool
  q_table :: "(nat \<times> nat) list"
  q_store :: "ticket list"
  q_sender :: bool
  q_channel :: "nat list"
  q_taken :: "nat list"
  q_running :: "nat list"

definition queue_new :: "dispatch_limits \<Rightarrow> int \<Rightarrow> nat \<Rightarrow> dispatch_failure + queue" where
  "queue_new limits workers qid =
     (case worker_count limits workers of
        Inl e \<Rightarrow> Inl e
      | Inr n \<Rightarrow> Inr \<lparr>q_id = qid, q_workers = n, q_closed = False, q_table = [], q_store = [],
          q_sender = True, q_channel = [], q_taken = [], q_running = []\<rparr>)"

text \<open>Up to eight draws of 31 random bits, never zero; \<open>None\<close> is a generator
  without entropy.\<close>

fun next_ticket_id :: "dispatch_limits \<Rightarrow> (nat \<times> nat) list \<Rightarrow> 64 word option list \<Rightarrow> dispatch_failure + nat" where
  "next_ticket_id limits table [] = Inl (saturated limits)"
| "next_ticket_id limits table (draw # draws) =
     (case draw of
        None \<Rightarrow> Inl (Unavailable ''the system provides no entropy for ticket identifiers'')
      | Some bytes \<Rightarrow>
          let tid = unat (max (bytes AND 0x7fffffff) 1)
          in if tid \<notin> fst ` set table then Inr tid else next_ticket_id limits table draws)"

definition submit_with ::
  "dispatch_limits \<Rightarrow> (nat \<Rightarrow> 64 word option) \<Rightarrow> str \<Rightarrow> queue \<Rightarrow> queue \<times> (dispatch_failure + nat)" where
  "submit_with limits random name q =
     (if q_closed q then (q, Inl (Closed ''queue''))
      else
        let table = filter (\<lambda>(_, r). \<not> is_terminal (q_store q ! r)) (q_table q);
            q1 = q\<lparr>q_table := table\<rparr>
        in if length table \<ge> pending_tickets_max limits then (q1, Inl (saturated limits))
           else case next_ticket_id limits table (map random [0..<8]) of
             Inl e \<Rightarrow> (q1, Inl e)
           | Inr tid \<Rightarrow>
               let r = length (q_store q);
                   q2 = q1\<lparr>q_store := q_store q @ [new_ticket name], q_table := table @ [(tid, r)]\<rparr>
               in if \<not> q_sender q then (q2, Inl (Closed ''queue''))
                  else if length (q_channel q) \<ge> pending_tickets_max limits
                  then (q2\<lparr>q_table := table\<rparr>, Inl (saturated limits))
                  else (q2\<lparr>q_channel := q_channel q @ [r]\<rparr>, Inr r))"

definition update_ticket :: "nat \<Rightarrow> (ticket \<Rightarrow> ticket) \<Rightarrow> queue \<Rightarrow> queue" where
  "update_ticket r f q = q\<lparr>q_store := (q_store q)[r := f (q_store q ! r)]\<rparr>"

text \<open>\<open>close\<close>: first, under the lock, the queue is marked closed and its pending
  tickets are cancelled; then the sender is dropped; then it waits.\<close>

definition close_mark :: "queue \<Rightarrow> queue" where
  "close_mark q =
     q\<lparr>q_closed := True,
       q_store := fold (\<lambda>(_, r) s. s[r := cancel_pending (s ! r)]) (q_table q) (q_store q)\<rparr>"

definition close_disconnect :: "queue \<Rightarrow> queue" where
  "close_disconnect q = q\<lparr>q_sender := False\<rparr>"

definition all_terminal :: "queue \<Rightarrow> bool" where
  "all_terminal q \<longleftrightarrow> (\<forall>(_, r) \<in> set (q_table q). is_terminal (q_store q ! r))"

definition workers_finished :: "queue \<Rightarrow> bool" where
  "workers_finished q \<longleftrightarrow> \<not> q_sender q \<and> q_channel q = [] \<and> q_taken q = [] \<and> q_running q = []"

text \<open>The loops of \<open>join\<close> and of \<open>close\<close>, over what each wake-up finds.\<close>

fun join_loop :: "int \<Rightarrow> (queue \<times> bool) list \<Rightarrow> (dispatch_failure + unit) option" where
  "join_loop ms [] = None"
| "join_loop ms ((q, expired) # looks) =
     (if all_terminal q then Some (Inr ())
      else if expired then Some (Inl (Timeout ms)) else join_loop ms looks)"

definition queue_join ::
  "dispatch_limits \<Rightarrow> bool \<Rightarrow> int \<Rightarrow> int \<Rightarrow> (queue \<times> bool) list \<Rightarrow> (dispatch_failure + unit) option" where
  "queue_join limits on_worker now ms looks =
     (if on_worker then Some (Inl SelfWait)
      else case deadline limits now ms of Inl e \<Rightarrow> Some (Inl e) | Inr _ \<Rightarrow> join_loop ms looks)"

fun join_workers_until :: "int \<Rightarrow> (queue \<times> bool) list \<Rightarrow> (dispatch_failure + unit) option" where
  "join_workers_until ms [] = None"
| "join_workers_until ms ((q, expired) # looks) =
     (if workers_finished q then Some (Inr ())
      else if expired then Some (Inl (Timeout ms)) else join_workers_until ms looks)"

fun close_loop :: "int \<Rightarrow> (queue \<times> bool) list \<Rightarrow> (dispatch_failure + unit) option" where
  "close_loop ms [] = None"
| "close_loop ms ((q, expired) # looks) =
     (if all_terminal q then join_workers_until ms ((q, expired) # looks)
      else if expired then Some (Inl (Timeout ms)) else close_loop ms looks)"

definition queue_close ::
  "dispatch_limits \<Rightarrow> bool \<Rightarrow> int \<Rightarrow> int \<Rightarrow> queue \<Rightarrow> (queue \<times> bool) list \<Rightarrow> queue \<times> (dispatch_failure + unit) option" where
  "queue_close limits on_worker now ms q looks =
     (if on_worker then (q, Some (Inl SelfWait))
      else case deadline limits now ms of
        Inl e \<Rightarrow> (q, Some (Inl e))
      | Inr _ \<Rightarrow> (close_disconnect (close_mark q), close_loop ms looks))"

section \<open>Runs\<close>

datatype dispatch_event =
    Submitted nat | Refused | Took nat | Started nat | Skipped nat | Ended nat | Touched nat | ClosedQueue | Disconnected

inductive dispatch_step :: "dispatch_limits \<Rightarrow> queue \<Rightarrow> dispatch_event \<Rightarrow> queue \<Rightarrow> bool"
  for limits :: dispatch_limits where
  submitted: "submit_with limits random name q = (q', Inr r) \<Longrightarrow> dispatch_step limits q (Submitted r) q'"
| refused: "submit_with limits random name q = (q', Inl e) \<Longrightarrow> dispatch_step limits q Refused q'"
| took: "q_channel q = r # rest \<Longrightarrow> length (q_taken q) + length (q_running q) < q_workers q \<Longrightarrow>
    dispatch_step limits q (Took r) (q\<lparr>q_channel := rest, q_taken := r # q_taken q\<rparr>)"
| started: "r \<in> set (q_taken q) \<Longrightarrow> mark_running (q_store q ! r) = (t, Inr ()) \<Longrightarrow>
    dispatch_step limits q (Started r)
      (q\<lparr>q_store := (q_store q)[r := t], q_taken := remove1 r (q_taken q), q_running := r # q_running q\<rparr>)"
| skipped: "r \<in> set (q_taken q) \<Longrightarrow> mark_running (q_store q ! r) = (t, Inl e) \<Longrightarrow>
    dispatch_step limits q (Skipped r) (q\<lparr>q_taken := remove1 r (q_taken q)\<rparr>)"
| ended: "r \<in> set (q_running q) \<Longrightarrow>
    dispatch_step limits q (Ended r)
      ((update_ticket r (job_end panicked) q)\<lparr>q_running := remove1 r (q_running q)\<rparr>)"
| cancelled: "r < length (q_store q) \<Longrightarrow>
    dispatch_step limits q (Touched r) (update_ticket r (\<lambda>t. fst (ticket_cancel t)) q)"
| closed_ticket: "r < length (q_store q) \<Longrightarrow> dispatch_step limits q (Touched r) (update_ticket r ticket_close q)"
| completed: "r < length (q_store q) \<Longrightarrow> dispatch_step limits q (Touched r) (update_ticket r mark_completed q)"
| failed: "r < length (q_store q) \<Longrightarrow>
    dispatch_step limits q (Touched r) (update_ticket r (mark_failed code message) q)"
| wrote: "r < length (q_store q) \<Longrightarrow>
    dispatch_step limits q (Touched r) (update_ticket r (\<lambda>t. fst (set_output limits s t)) q)"
| read_output: "r < length (q_store q) \<Longrightarrow>
    dispatch_step limits q (Touched r) (update_ticket r (\<lambda>t. fst (take_output t)) q)"
| closing: "dispatch_step limits q ClosedQueue (close_mark q)"
| disconnecting: "q_closed q \<Longrightarrow> dispatch_step limits q Disconnected (close_disconnect q)"

inductive dispatch_run :: "dispatch_limits \<Rightarrow> queue \<Rightarrow> dispatch_event list \<Rightarrow> queue \<Rightarrow> bool"
  for limits :: dispatch_limits where
  run_start: "dispatch_run limits q [] q"
| run_step: "dispatch_step limits q e q' \<Longrightarrow> dispatch_run limits q' es q'' \<Longrightarrow> dispatch_run limits q (e # es) q''"

lemma dispatch_run_Nil: "dispatch_run limits q [] q' \<longleftrightarrow> q' = q"
  by (auto elim: dispatch_run.cases intro: run_start)

lemma dispatch_run_Cons:
  "dispatch_run limits q (e # es) q' \<longleftrightarrow> (\<exists>m. dispatch_step limits q e m \<and> dispatch_run limits m es q')"
  by (auto elim: dispatch_run.cases intro: run_step)

interpretation druns: labelled_runs "dispatch_step limits" "dispatch_run limits"
  by unfold_locales (rule dispatch_run_Nil, rule dispatch_run_Cons)

inductive_cases dispatch_stepE: "dispatch_step limits q e q'"

section \<open>The life of a ticket\<close>

definition ticket_ok :: "ticket \<Rightarrow> bool" where
  "ticket_ok t \<longleftrightarrow> status t \<in> {PENDING, RUNNING, COMPLETED, FAILED, CANCELLED} \<and> (error t = None \<longleftrightarrow> status t \<noteq> FAILED)"

definition later :: "ticket \<Rightarrow> ticket \<Rightarrow> bool" where
  "later t t' \<longleftrightarrow> (t_closed t \<longrightarrow> t_closed t') \<and>
     (status t' = status t \<and> error t' = error t \<or>
      status t = PENDING \<and> status t' \<in> {RUNNING, COMPLETED, FAILED, CANCELLED} \<or>
      status t = RUNNING \<and> status t' \<in> {COMPLETED, FAILED})"

lemma later_refl [simp]: "later t t" by (simp add: later_def)

lemma later_trans: "later a b \<Longrightarrow> later b c \<Longrightarrow> later a c"
  by (auto simp: later_def status_defs)

lemma later_terminal: "later t t' \<Longrightarrow> is_terminal t \<Longrightarrow> is_terminal t'"
  by (auto simp: later_def is_terminal_def status_defs)

lemmas ticket_ops = new_ticket_def ticket_cancel_def ticket_close_def mark_running_def mark_completed_def
  mark_failed_def set_output_def take_output_def cancel_pending_def job_end_def

lemma later_ops [simp]:
  "later t (fst (ticket_cancel t))" "later t (ticket_close t)" "later t (fst (mark_running t))"
  "later t (mark_completed t)" "later t (mark_failed code message t)" "later t (fst (set_output limits s t))"
  "later t (fst (take_output t))" "later t (cancel_pending t)" "later t (job_end panicked t)"
  by (auto simp: later_def ticket_ops status_defs)

lemma ok_ops [simp]:
  "ticket_ok (new_ticket name)"
  "ticket_ok t \<Longrightarrow> ticket_ok (fst (ticket_cancel t))" "ticket_ok t \<Longrightarrow> ticket_ok (ticket_close t)"
  "ticket_ok t \<Longrightarrow> ticket_ok (fst (mark_running t))" "ticket_ok t \<Longrightarrow> ticket_ok (mark_completed t)"
  "ticket_ok t \<Longrightarrow> ticket_ok (mark_failed code message t)" "ticket_ok t \<Longrightarrow> ticket_ok (fst (set_output limits s t))"
  "ticket_ok t \<Longrightarrow> ticket_ok (fst (take_output t))" "ticket_ok t \<Longrightarrow> ticket_ok (cancel_pending t)"
  "ticket_ok t \<Longrightarrow> ticket_ok (job_end panicked t)"
  by (auto simp: ticket_ok_def ticket_ops status_defs)

text \<open>The kind of a status that an outside operation on the ticket may not change.\<close>

lemma outside_ops [simp]:
  "status (fst (ticket_cancel t)) = RUNNING \<longleftrightarrow> status t = RUNNING"
  "status (fst (set_output limits s t)) = status t" "status (fst (take_output t)) = status t"
  "status (ticket_close t) = status t" "status (mark_completed t) \<noteq> RUNNING"
  "status (mark_failed code message t) \<noteq> RUNNING"
  by (auto simp: ticket_ops status_defs)

lemma cancel_pending_idem [simp]: "cancel_pending (cancel_pending t) = cancel_pending t"
  by (simp add: cancel_pending_def status_defs)

lemma cancel_pending_not_pending [simp]: "status (cancel_pending t) \<noteq> PENDING"
  by (simp add: cancel_pending_def status_defs)

lemma fold_cancel_length [simp]:
  "length (fold (\<lambda>(_, r) s. s[r := cancel_pending (s ! r)]) table s) = length s"
  by (induction table arbitrary: s) (auto split: prod.splits)

lemma fold_cancel_nth:
  "r < length s \<Longrightarrow> fold (\<lambda>(_, r) s. s[r := cancel_pending (s ! r)]) table s ! r =
     (if r \<in> snd ` set table then cancel_pending (s ! r) else s ! r)"
  by (induction table arbitrary: s) (auto simp: nth_list_update_at split: prod.splits)

definition store_later :: "ticket list \<Rightarrow> ticket list \<Rightarrow> bool" where
  "store_later s s' \<longleftrightarrow> length s \<le> length s' \<and> (\<forall>r < length s. later (s ! r) (s' ! r))"

lemma store_later_refl [simp]: "store_later s s" by (simp add: store_later_def)

lemma store_later_trans: "store_later a b \<Longrightarrow> store_later b c \<Longrightarrow> store_later a c"
  unfolding store_later_def by (meson later_trans le_trans less_le_trans)

lemma store_later_update: "later (s ! r) t \<Longrightarrow> store_later s (s[r := t])"
  by (simp add: store_later_def nth_list_update_at)

lemma store_later_append [simp]: "store_later s (s @ [t])"
  by (simp add: store_later_def nth_append)

lemma store_later_close: "store_later (q_store q) (q_store (close_mark q))"
  by (auto simp: store_later_def close_mark_def fold_cancel_nth)

lemma submit_store:
  "submit_with limits random name q = (q', res) \<Longrightarrow> q_store q' = q_store q \<or> q_store q' = q_store q @ [new_ticket name]"
  by (auto simp: submit_with_def Let_def split: if_splits sum.splits)

lemma store_later_step: "dispatch_step limits q e q' \<Longrightarrow> store_later (q_store q) (q_store q')"
  by (erule dispatch_step.cases)
     (auto simp: update_ticket_def store_later_close close_disconnect_def
       intro!: store_later_update dest!: submit_store, metis fst_conv later_ops(3))

lemma store_later_run: "dispatch_run limits q es q' \<Longrightarrow> store_later (q_store q) (q_store q')"
  by (erule druns.run_related [where R = "\<lambda>a b. store_later (q_store a) (q_store b)"])
     (blast intro: reflpI transpI store_later_refl store_later_trans store_later_step)+

section \<open>The queue invariant\<close>

definition refs_ok :: "queue \<Rightarrow> bool" where
  "refs_ok q \<longleftrightarrow>
     (\<forall>r \<in> snd ` set (q_table q) \<union> set (q_channel q @ q_taken q @ q_running q). r < length (q_store q)) \<and>
     distinct (map fst (q_table q)) \<and> distinct (map snd (q_table q)) \<and>
     (\<forall>i \<in> fst ` set (q_table q). 1 \<le> i \<and> i < 2 ^ 31) \<and>
     distinct (q_channel q @ q_taken q @ q_running q)"

definition bounds_ok :: "dispatch_limits \<Rightarrow> queue \<Rightarrow> bool" where
  "bounds_ok limits q \<longleftrightarrow>
     length (q_table q) \<le> pending_tickets_max limits \<and> length (q_channel q) \<le> pending_tickets_max limits \<and>
     length (q_taken q) + length (q_running q) \<le> q_workers q"

definition life_ok :: "queue \<Rightarrow> bool" where
  "life_ok q \<longleftrightarrow>
     (\<forall>r < length (q_store q). ticket_ok (q_store q ! r) \<and>
        (status (q_store q ! r) = RUNNING \<longrightarrow> r \<in> set (q_running q))) \<and>
     (\<forall>r \<in> set (q_running q). status (q_store q ! r) \<notin> {PENDING, CANCELLED}) \<and>
     (\<not> q_sender q \<longrightarrow> q_closed q)"

definition work_ok :: "queue \<Rightarrow> bool" where
  "work_ok q \<longleftrightarrow>
     (\<forall>r \<in> snd ` set (q_table q).
        (\<not> is_terminal (q_store q ! r) \<longrightarrow> r \<in> set (q_channel q @ q_taken q @ q_running q)) \<and>
        (q_closed q \<longrightarrow> status (q_store q ! r) \<noteq> PENDING))"

definition queue_inv :: "dispatch_limits \<Rightarrow> queue \<Rightarrow> bool" where
  "queue_inv limits q \<longleftrightarrow> refs_ok q \<and> bounds_ok limits q \<and> life_ok q \<and> work_ok q"

lemma later_not_pending: "later t t' \<Longrightarrow> status t \<noteq> PENDING \<Longrightarrow> status t' \<noteq> PENDING"
  by (auto simp: later_def status_defs)

lemma later_started: "later t t' \<Longrightarrow> status t \<notin> {PENDING, CANCELLED} \<Longrightarrow> status t' \<notin> {PENDING, CANCELLED}"
  by (auto simp: later_def status_defs)

text \<open>An operation on one ticket that does not start it keeps the invariant.\<close>

lemma inv_touch:
  assumes "queue_inv limits q" "r < length (q_store q)" "later (q_store q ! r) (f (q_store q ! r))"
    "ticket_ok (f (q_store q ! r))" "status (f (q_store q ! r)) = RUNNING \<longrightarrow> status (q_store q ! r) = RUNNING"
  shows "queue_inv limits (update_ticket r f q)"
proof -
  have "refs_ok (update_ticket r f q)" "bounds_ok limits (update_ticket r f q)"
    using assms(1) by (simp_all add: queue_inv_def refs_ok_def bounds_ok_def update_ticket_def)
  moreover have "life_ok (update_ticket r f q)"
    using assms later_started [OF assms(3)]
    by (simp add: queue_inv_def refs_ok_def life_ok_def update_ticket_def nth_list_update_at)
  moreover have "work_ok (update_ticket r f q)"
    using assms later_not_pending [OF assms(3)] later_terminal [OF assms(3)]
    by (simp add: queue_inv_def refs_ok_def work_ok_def update_ticket_def nth_list_update_at) blast
  ultimately show ?thesis by (simp add: queue_inv_def)
qed

lemma inv_ticket_ok: "queue_inv limits q \<Longrightarrow> r < length (q_store q) \<Longrightarrow> ticket_ok (q_store q ! r)"
  by (simp add: queue_inv_def life_ok_def)

lemma inv_took:
  assumes "queue_inv limits q" "q_channel q = r # rest" "length (q_taken q) + length (q_running q) < q_workers q"
  shows "queue_inv limits (q\<lparr>q_channel := rest, q_taken := r # q_taken q\<rparr>)"
  using assms by (simp add: queue_inv_def refs_ok_def bounds_ok_def life_ok_def work_ok_def)

lemma mark_running_Inr:
  "mark_running t = (t', Inr ()) \<Longrightarrow> status t = PENDING \<and> \<not> t_closed t \<and> t' = t\<lparr>status := RUNNING\<rparr>"
  by (auto simp: mark_running_def split: if_splits)

lemma mark_running_Inl:
  "mark_running t = (t', Inl e) \<Longrightarrow> t' = t \<and> (t_closed t \<or> status t \<noteq> PENDING)"
  by (auto simp: mark_running_def split: if_splits)

lemma Suc_length_remove1: "r \<in> set xs \<Longrightarrow> Suc (length (remove1 r xs)) = length xs"
  using length_pos_if_in_set [of r xs] by (simp add: length_remove1)

lemma inv_started:
  assumes inv: "queue_inv limits q" and r: "r \<in> set (q_taken q)" "mark_running (q_store q ! r) = (t, Inr ())"
  shows "queue_inv limits
    (q\<lparr>q_store := (q_store q)[r := t], q_taken := remove1 r (q_taken q), q_running := r # q_running q\<rparr>)"
    (is "queue_inv limits ?q")
proof -
  have t: "status (q_store q ! r) = PENDING" "t = (q_store q ! r)\<lparr>status := RUNNING\<rparr>"
    using mark_running_Inr [OF r(2)] by auto
  have lt: "\<And>k. k \<in> snd ` set (q_table q) \<Longrightarrow> k < length (q_store q)"
    "\<And>k. k \<in> set (q_running q) \<Longrightarrow> k < length (q_store q)" "r < length (q_store q)"
    using inv r(1) unfolding queue_inv_def refs_ok_def by auto
  have ok: "ticket_ok (q_store q ! r)" using inv lt(3) by (simp add: queue_inv_def life_ok_def)
  have rm: "set (remove1 r (q_taken q)) = set (q_taken q) - {r}"
    using inv unfolding queue_inv_def refs_ok_def by (simp add: set_remove1_eq)
  have "refs_ok ?q" using inv r(1) unfolding queue_inv_def refs_ok_def
    by (auto simp: rm)
  moreover have "bounds_ok limits ?q"
    using inv Suc_length_remove1 [OF r(1)] unfolding queue_inv_def bounds_ok_def by auto
  moreover have "life_ok ?q" using inv t ok lt unfolding queue_inv_def life_ok_def
    by (simp add: nth_list_update_at ticket_ok_def status_defs)
  moreover have "work_ok ?q" using inv t lt unfolding queue_inv_def work_ok_def
    by (simp add: nth_list_update_at rm status_defs)
  ultimately show ?thesis by (simp add: queue_inv_def)
qed

lemma inv_skipped:
  assumes "queue_inv limits q" "r \<in> set (q_taken q)" "mark_running (q_store q ! r) = (t, Inl e)"
  shows "queue_inv limits (q\<lparr>q_taken := remove1 r (q_taken q)\<rparr>)"
proof -
  note defs = queue_inv_def refs_ok_def bounds_ok_def life_ok_def work_ok_def
  have "t_closed (q_store q ! r) \<or> status (q_store q ! r) \<noteq> PENDING" using mark_running_Inl [OF assms(3)] by auto
  moreover have "status (q_store q ! r) \<noteq> RUNNING" "ticket_ok (q_store q ! r)" using assms(1,2) by (auto simp: defs)
  ultimately have "is_terminal (q_store q ! r)" by (auto simp: is_terminal_def ticket_ok_def)
  then show ?thesis using assms(1,2)
    by (auto simp: defs length_remove1 dest: notin_set_remove1 set_remove1_subset [THEN subsetD])
qed

lemma job_end_status: "status (job_end panicked t) \<noteq> RUNNING"
  by (simp add: ticket_ops status_defs)

lemma job_end_terminal:
  "ticket_ok t \<Longrightarrow> status t \<noteq> PENDING \<Longrightarrow> is_terminal (job_end panicked t)"
  by (auto simp: ticket_ops status_defs is_terminal_def ticket_ok_def)

lemma inv_ended:
  assumes "queue_inv limits q" "r \<in> set (q_running q)"
  shows "queue_inv limits ((update_ticket r (job_end panicked) q)\<lparr>q_running := remove1 r (q_running q)\<rparr>)"
proof -
  note defs = queue_inv_def refs_ok_def bounds_ok_def life_ok_def work_ok_def
  let ?u = "update_ticket r (job_end panicked) q"
  let ?q = "?u\<lparr>q_running := remove1 r (q_running q)\<rparr>"
  have r: "r < length (q_store q)" "ticket_ok (q_store q ! r)" "status (q_store q ! r) \<noteq> PENDING"
    using assms by (auto simp: defs)
  have u: "queue_inv limits ?u" by (rule inv_touch) (use assms r in \<open>auto simp: job_end_status\<close>)
  have t: "is_terminal (q_store ?u ! r)" "status (q_store ?u ! r) \<noteq> RUNNING" "q_running ?u = q_running q"
    using r assms(2) by (auto simp: update_ticket_def job_end_terminal job_end_status)
  have rm: "set (remove1 r (q_running q)) = set (q_running q) - {r}"
    using assms(1) unfolding queue_inv_def refs_ok_def by (simp add: set_remove1_eq)
  have "refs_ok ?q" using u t(3) unfolding queue_inv_def refs_ok_def
    by (auto dest: notin_set_remove1 set_remove1_subset [THEN subsetD])
  moreover have "bounds_ok limits ?q" using u t(3) unfolding queue_inv_def bounds_ok_def
    by (auto simp: length_remove1)
  moreover have "life_ok ?q" using u t(2, 3) unfolding queue_inv_def life_ok_def
    by (auto simp: rm)
  moreover have "work_ok ?q" using u t(1, 3) unfolding queue_inv_def work_ok_def
    by (auto simp: rm)
  ultimately show ?thesis by (simp add: queue_inv_def)
qed

lemma inv_close: "queue_inv limits q \<Longrightarrow> queue_inv limits (close_mark q)"
proof -
  assume inv: "queue_inv limits q"
  have refs: "\<And>r. r \<in> snd ` set (q_table q) \<union> set (q_channel q @ q_taken q @ q_running q) \<Longrightarrow> r < length (q_store q)"
    using inv unfolding queue_inv_def refs_ok_def by blast
  have st: "q_store (close_mark q) ! r =
      (if r \<in> snd ` set (q_table q) then cancel_pending (q_store q ! r) else q_store q ! r)"
    if "r < length (q_store q)" for r using that by (simp add: close_mark_def fold_cancel_nth)
  have same: "q_table (close_mark q) = q_table q" "q_channel (close_mark q) = q_channel q"
    "q_taken (close_mark q) = q_taken q" "q_running (close_mark q) = q_running q" "q_closed (close_mark q)"
    "q_workers (close_mark q) = q_workers q" "length (q_store (close_mark q)) = length (q_store q)"
    by (simp_all add: close_mark_def)
  have "refs_ok (close_mark q)" using inv by (simp add: queue_inv_def refs_ok_def same)
  moreover have "bounds_ok limits (close_mark q)" using inv by (simp add: queue_inv_def bounds_ok_def same)
  moreover have "life_ok (close_mark q)"
    using inv refs unfolding queue_inv_def life_ok_def same
    by (auto simp: st same cancel_pending_def status_defs ticket_ok_def)
  moreover have "work_ok (close_mark q)"
  proof -
    have "q_store (close_mark q) ! r = cancel_pending (q_store q ! r)" if "r \<in> snd ` set (q_table q)" for r
      using that refs st by simp
    then show ?thesis using inv later_terminal [OF later_ops(8)] unfolding queue_inv_def work_ok_def same
      by (metis cancel_pending_not_pending)
  qed
  ultimately show ?thesis by (simp add: queue_inv_def)
qed

lemma inv_disconnect: "queue_inv limits q \<Longrightarrow> q_closed q \<Longrightarrow> queue_inv limits (close_disconnect q)"
  by (simp add: queue_inv_def refs_ok_def bounds_ok_def life_ok_def work_ok_def close_disconnect_def)

lemma inv_retain:
  "queue_inv limits q \<Longrightarrow> queue_inv limits (q\<lparr>q_table := filter P (q_table q)\<rparr>)"
  using length_filter_le [of P "q_table q"]
  by (auto simp: queue_inv_def refs_ok_def bounds_ok_def life_ok_def work_ok_def distinct_map_filter
      simp del: length_filter_le)

lemma next_ticket_id_ok:
  "next_ticket_id limits table draws = Inr i \<Longrightarrow> i \<notin> fst ` set table \<and> 1 \<le> i \<and> i < 2 ^ 31"
proof (induction draws)
  case (Cons draw draws)
  have "unat (max (b AND 0x7fffffff) 1) < 2 ^ 31 \<and> 1 \<le> unat (max (b AND 0x7fffffff) 1)" for b :: "64 word"
  proof -
    have "b AND 0x7fffffff \<le> 0x7fffffff" by (rule word_and_le1)
    then have "max (b AND 0x7fffffff) 1 \<le> 0x7fffffff" "1 \<le> max (b AND 0x7fffffff) 1" by (auto simp: max_def)
    then show ?thesis by (simp add: word_le_nat_alt)
  qed
  then show ?case using Cons by (auto simp: Let_def split: option.splits if_splits)
qed simp

lemma inv_submit_new:
  assumes "queue_inv limits q" "i \<notin> fst ` set (q_table q)" "1 \<le> i" "i < 2 ^ 31" "\<not> q_closed q"
    "length (q_table q) < pending_tickets_max limits" "length (q_channel q) < pending_tickets_max limits"
  shows "queue_inv limits (q\<lparr>q_store := q_store q @ [new_ticket name],
    q_table := q_table q @ [(i, length (q_store q))], q_channel := q_channel q @ [length (q_store q)]\<rparr>)"
    (is "queue_inv limits ?q")
proof -
  have lt: "\<And>r. r \<in> snd ` set (q_table q) \<Longrightarrow> r < length (q_store q)"
    "\<And>r. r \<in> set (q_channel q @ q_taken q @ q_running q) \<Longrightarrow> r < length (q_store q)"
    using assms(1) unfolding queue_inv_def refs_ok_def by blast+
  then have new: "length (q_store q) \<notin> snd ` set (q_table q)"
    "length (q_store q) \<notin> set (q_channel q @ q_taken q @ q_running q)" by blast+
  have "refs_ok ?q" using assms lt new unfolding queue_inv_def refs_ok_def
    by (auto simp: less_Suc_eq)
  moreover have "bounds_ok limits ?q" using assms by (auto simp: queue_inv_def bounds_ok_def)
  moreover have "life_ok ?q" using assms(1,5) lt unfolding queue_inv_def life_ok_def
    by (auto simp: nth_append new_ticket_def status_defs ticket_ok_def less_Suc_eq)
  moreover have "work_ok ?q" using assms(1,5) lt unfolding queue_inv_def work_ok_def
    by (auto simp: nth_append)
  ultimately show ?thesis by (simp add: queue_inv_def)
qed

lemma inv_grow:
  assumes "queue_inv limits q"
  shows "queue_inv limits (q\<lparr>q_store := q_store q @ [new_ticket name]\<rparr>)" (is "queue_inv limits ?q")
proof -
  have lt: "\<And>r. r \<in> snd ` set (q_table q) \<Longrightarrow> r < length (q_store q)"
    "\<And>r. r \<in> set (q_running q) \<Longrightarrow> r < length (q_store q)"
    using assms unfolding queue_inv_def refs_ok_def by auto
  have "refs_ok ?q" using assms unfolding queue_inv_def refs_ok_def by (auto simp: less_Suc_eq)
  moreover have "bounds_ok limits ?q" using assms by (simp add: queue_inv_def bounds_ok_def)
  moreover have "life_ok ?q" using assms lt unfolding queue_inv_def life_ok_def
    by (auto simp: nth_append new_ticket_def status_defs ticket_ok_def less_Suc_eq)
  moreover have "work_ok ?q" using assms lt unfolding queue_inv_def work_ok_def
    by (auto simp: nth_append)
  ultimately show ?thesis by (simp add: queue_inv_def)
qed

lemma inv_submit:
  assumes inv: "queue_inv limits q" and sub: "submit_with limits random name q = (q', res)"
  shows "queue_inv limits q'"
proof (cases "q_closed q")
  case True
  then show ?thesis using assms by (simp add: submit_with_def)
next
  case False
  then have open_queue: "q_sender q" using inv by (auto simp: queue_inv_def life_ok_def)
  define q1 where "q1 = q\<lparr>q_table := filter (\<lambda>(_, r). \<not> is_terminal (q_store q ! r)) (q_table q)\<rparr>"
  have q1: "queue_inv limits q1" unfolding q1_def by (rule inv_retain [OF inv])
  show ?thesis
  proof (cases "length (q_table q1) \<ge> pending_tickets_max limits")
    case True
    then show ?thesis using sub False q1 by (simp add: submit_with_def Let_def q1_def)
  next
    case room: False
    show ?thesis
    proof (cases "next_ticket_id limits (q_table q1) (map random [0..<8])")
      case (Inl e)
      then show ?thesis using sub False room q1 by (simp add: submit_with_def Let_def q1_def del: upt_rec_numeral)
    next
      case (Inr i)
      note i = next_ticket_id_ok [OF Inr]
      have "q' = q1\<lparr>q_store := q_store q1 @ [new_ticket name]\<rparr> \<or>
          length (q_channel q1) < pending_tickets_max limits \<and>
          q' = q1\<lparr>q_store := q_store q1 @ [new_ticket name], q_table := q_table q1 @ [(i, length (q_store q1))],
            q_channel := q_channel q1 @ [length (q_store q1)]\<rparr>"
        using sub False room Inr open_queue
        by (auto simp: submit_with_def Let_def q1_def simp del: upt_rec_numeral split: if_splits)
      then show ?thesis using inv_grow [OF q1, of name] inv_submit_new [OF q1, of i name] i room False
        by (auto simp: q1_def)
    qed
  qed
qed

lemma inv_step: "queue_inv limits q \<Longrightarrow> dispatch_step limits q e q' \<Longrightarrow> queue_inv limits q'"
proof (erule dispatch_stepE, goal_cases)
  case 1 then show ?case by (blast intro: inv_submit)
next
  case 2 then show ?case by (blast intro: inv_submit)
next
  case 3 then show ?case by (blast intro: inv_took)
next
  case 4 then show ?case by (blast intro: inv_started)
next
  case 5 then show ?case by (blast intro: inv_skipped)
next
  case 6 then show ?case by (blast intro: inv_ended)
next
  case 13 then show ?case by (blast intro: inv_close)
next
  case 14 then show ?case by (blast intro: inv_disconnect)
qed (simp_all add: inv_touch inv_ticket_ok)

lemma inv_new: "queue_new limits workers qid = Inr q \<Longrightarrow> queue_inv limits q"
  by (auto simp: queue_new_def queue_inv_def refs_ok_def bounds_ok_def life_ok_def work_ok_def split: sum.splits)

lemma inv_run: "dispatch_run limits q es q' \<Longrightarrow> queue_inv limits q \<Longrightarrow> queue_inv limits q'"
  by (erule druns.run_keeps) (auto intro: inv_step)

section \<open>Properties\<close>

abbreviation small_limits :: dispatch_limits where
  "small_limits \<equiv> \<lparr>worker_count_max = 4, pending_tickets_max = 2, timeout_min_ms = 1, timeout_max_ms = 60000,
     output_max_bytes = 10\<rparr>"

abbreviation one_worker :: queue where
  "one_worker \<equiv> \<lparr>q_id = 1, q_workers = 1, q_closed = False, q_table = [], q_store = [],
     q_sender = True, q_channel = [], q_taken = [], q_running = []\<rparr>"

lemma one_worker_new: "queue_new small_limits 1 1 = Inr one_worker"
  by (simp add: queue_new_def worker_count_def bounded_count_def u64_ok_def)

abbreviation one_submitted :: queue where
  "one_submitted \<equiv> one_worker\<lparr>q_store := [new_ticket ''t''], q_table := [(5, 0)], q_channel := [0]\<rparr>"

lemma one_submit: "submit_with small_limits (\<lambda>_. Some 5) ''t'' one_worker = (one_submitted, Inr 0)"
  by (simp add: submit_with_def upt_rec Let_def)

lemma one_submitted_run: "dispatch_run small_limits one_worker [Submitted 0] one_submitted"
  using one_submit by (blast intro: run_step run_start submitted)

text \<open>C7: in every interleaving of submissions, workers, tickets' own operations
  and closing, from a new queue: the table and the channel stay within the
  pending limit and the workers within their number, identifiers are distinct
  positive 31-bit numbers, a ticket has an error exactly when it failed, only a
  job a worker is in has the status running, no job is taken twice, every
  unfinished ticket of the table is with the channel or a worker, and a closed
  queue has no pending ticket.\<close>

theorem dispatch_reachable_wellformed:
  assumes "queue_new limits workers qid = Inr q0" "dispatch_run limits q0 es q"
  shows "queue_inv limits q"
  using inv_run [OF assms(2) inv_new [OF assms(1)]] .

theorem dispatch_reachable_wellformed_witness: "queue_inv small_limits one_submitted"
  by (rule dispatch_reachable_wellformed [OF one_worker_new one_submitted_run])



lemma started_step:
  "dispatch_step limits q (Started r) q' \<Longrightarrow> queue_inv limits q \<Longrightarrow>
     status (q_store q ! r) = PENDING \<and> r < length (q_store q') \<and> status (q_store q' ! r) = RUNNING"
  by (auto elim!: dispatch_stepE simp: queue_inv_def refs_ok_def dest: mark_running_Inr)

lemma not_pending_kept:
  "dispatch_step limits q e q' \<Longrightarrow> r < length (q_store q) \<and> status (q_store q ! r) \<noteq> PENDING \<Longrightarrow>
     r < length (q_store q') \<and> status (q_store q' ! r) \<noteq> PENDING"
  using store_later_step [of limits q e q'] by (auto simp: store_later_def dest: later_not_pending)

lemma never_started:
  assumes "dispatch_run limits q es q'" "queue_inv limits q" "r < length (q_store q)" "status (q_store q ! r) \<noteq> PENDING"
  shows "Started r \<notin> set es"
proof -
  have "set es \<inter> {Started r} = {} \<and> (queue_inv limits q' \<and> r < length (q_store q') \<and> status (q_store q' ! r) \<noteq> PENDING)"
  proof (rule druns.run_avoids [OF assms(1)], goal_cases)
    case 1 then show ?case using assms(2-) by simp
  next
    case (2 s e s') then show ?case
      using inv_step [of limits s e s'] not_pending_kept [of limits s e s' r] started_step [of limits s r s'] by auto
  qed
  then show ?thesis by simp
qed

text \<open>C32: a job is started at most once, and never after its ticket was cancelled.\<close>

theorem ticket_runs_once:
  assumes "queue_new limits workers qid = Inr q0" "dispatch_run limits q0 es q"
  shows "count_list es (Started r) \<le> 1 \<and>
    (dispatch_run limits q fs q' \<and> r < length (q_store q) \<and> status (q_store q ! r) = CANCELLED \<longrightarrow> Started r \<notin> set fs)"
proof -
  have "count_list es (Started r) \<le> 1" if "dispatch_run limits p es q" "queue_inv limits p" for p
    using that
  proof (induction es arbitrary: p)
    case (Cons e es)
    then obtain m where m: "dispatch_step limits p e m" "dispatch_run limits m es q" by (auto simp: dispatch_run_Cons)
    then have inv: "queue_inv limits m" using inv_step Cons.prems(2) by blast
    show ?case
    proof (cases "e = Started r")
      case True
      then have "Started r \<notin> set es"
        using never_started [OF m(2) inv, of r] started_step m(1) Cons.prems(2) by (auto simp: status_defs)
      then show ?thesis using True by (simp add: count_list_0_iff)
    next
      case False then show ?thesis using Cons.IH [OF m(2) inv] by simp
    qed
  qed simp
  then show ?thesis
    using assms inv_new [OF assms(1)] never_started [OF _ inv_run [OF assms(2)]] by (auto simp: status_defs)
qed

theorem ticket_runs_once_witness: "count_list [Submitted 0] (Started 0) \<le> 1"
  using ticket_runs_once [OF one_worker_new one_submitted_run] by blast

lemma closed_step:
  "dispatch_step limits q e q' \<Longrightarrow> q_closed q \<Longrightarrow> q_closed q' \<and> (\<forall>r. e \<noteq> Submitted r) \<and> length (q_store q') = length (q_store q)"
  by (auto elim!: dispatch_stepE simp: submit_with_def update_ticket_def close_mark_def close_disconnect_def)

text \<open>A closed queue stays closed and accepts no submission, whatever else
  happens; a submission to it changes nothing and reports the queue closed.\<close>

theorem closed_queue_accepts_nothing:
  assumes "q_closed q" "dispatch_run limits q es q'"
  shows "q_closed q' \<and> (\<forall>r. Submitted r \<notin> set es) \<and> length (q_store q') = length (q_store q) \<and>
    submit_with limits random name q' = (q', Inl (Closed ''queue''))"
proof -
  have "set es \<inter> range Submitted = {} \<and> (q_closed q' \<and> length (q_store q') = length (q_store q))"
    by (rule druns.run_avoids [OF assms(2)]) (use assms(1) closed_step in \<open>auto, fastforce\<close>)
  then show ?thesis by (auto simp: submit_with_def)
qed

theorem closed_queue_accepts_nothing_witness:
  "submit_with small_limits (\<lambda>_. Some 5) ''t'' (close_mark one_submitted) =
     (close_mark one_submitted, Inl (Closed ''queue''))"
  using closed_queue_accepts_nothing [of "close_mark one_submitted" small_limits "[]"]
  by (simp add: dispatch_run_Nil close_mark_def)

text \<open>The steps a worker thread takes, and the work that is left for the workers.\<close>

fun worker_event :: "dispatch_event \<Rightarrow> bool" where
  "worker_event (Took _) = True"
| "worker_event (Started _) = True"
| "worker_event (Skipped _) = True"
| "worker_event (Ended _) = True"
| "worker_event _ = False"

definition work_left :: "queue \<Rightarrow> nat" where
  "work_left q = 3 * length (q_channel q) + 2 * length (q_taken q) + length (q_running q)"

lemma worker_step_progress: "dispatch_step limits q e q' \<Longrightarrow> worker_event e \<Longrightarrow> work_left q' < work_left q"
proof (erule dispatch_stepE, goal_cases)
  case (4 r t)
  then show ?case using Suc_length_remove1 [of r "q_taken q"] by (simp add: work_left_def)
next
  case (5 r t f)
  then show ?case using Suc_length_remove1 [of r "q_taken q"] by (simp add: work_left_def)
next
  case (6 r p)
  then show ?case using Suc_length_remove1 [of r "q_running q"] by (simp add: work_left_def update_ticket_def)
qed (simp_all add: work_left_def)

lemma workers_kept: "dispatch_step limits q e q' \<Longrightarrow> q_workers q' = q_workers q"
  by (auto elim!: dispatch_stepE simp: submit_with_def Let_def update_ticket_def close_mark_def close_disconnect_def
      simp del: upt_rec_numeral split: if_splits sum.splits)

lemma worker_step_exists:
  assumes "q_workers q \<ge> 1" "work_left q > 0"
  shows "\<exists>e q'. worker_event e \<and> dispatch_step limits q e q'"
proof (cases "q_running q")
  case (Cons r rs)
  then have "dispatch_step limits q (Ended r) ((update_ticket r (job_end False) q)\<lparr>q_running := remove1 r (q_running q)\<rparr>)"
    by (intro ended) simp
  then show ?thesis by (blast intro: worker_event.simps(4) [THEN iffD2])
next
  case idle: Nil
  show ?thesis
  proof (cases "q_taken q")
    case (Cons r rs)
    obtain t res where res: "mark_running (q_store q ! r) = (t, res)" by fastforce
    show ?thesis
    proof (cases res)
      case (Inl f)
      then have "dispatch_step limits q (Skipped r) (q\<lparr>q_taken := remove1 r (q_taken q)\<rparr>)"
        using Cons res by (intro skipped [of r q t f]) auto
      then show ?thesis by (blast intro: worker_event.simps(3) [THEN iffD2])
    next
      case (Inr u)
      then show ?thesis using Cons res started [of r q t limits] by (auto intro: worker_event.simps(2) [THEN iffD2])
    qed
  next
    case Nil
    then obtain r rest where "q_channel q = r # rest" using idle assms(2) by (cases "q_channel q") (auto simp: work_left_def)
    then have "dispatch_step limits q (Took r) (q\<lparr>q_channel := rest, q_taken := r # q_taken q\<rparr>)"
      using Nil idle assms(1) by (intro took) auto
    then show ?thesis by (blast intro: worker_event.simps(1) [THEN iffD2])
  qed
qed

lemma no_work_all_terminal: "queue_inv limits q \<Longrightarrow> work_left q = 0 \<Longrightarrow> all_terminal q"
  unfolding queue_inv_def work_ok_def all_terminal_def work_left_def by force

lemma work_can_finish:
  "q_workers q \<ge> 1 \<Longrightarrow> \<exists>fs q'. dispatch_run limits q fs q' \<and> list_all worker_event fs \<and> work_left q' = 0"
proof (induction "work_left q" arbitrary: q rule: less_induct)
  case less
  show ?case
  proof (cases "work_left q = 0")
    case True
    then show ?thesis by (intro exI [of _ "[]"] exI [of _ q]) (simp add: run_start)
  next
    case False
    then obtain e m where e: "worker_event e" "dispatch_step limits q e m"
      using worker_step_exists less.prems by blast
    then obtain fs q' where "dispatch_run limits m fs q'" "list_all worker_event fs" "work_left q' = 0"
      using less.hyps [OF worker_step_progress [OF e(2,1)]] workers_kept [OF e(2)] less.prems by auto
    then show ?thesis using e by (intro exI [of _ "e # fs"] exI [of _ q']) (auto intro: run_step)
  qed
qed

text \<open>C19: the workers drain the queue: from every reachable state they take only
  finitely many steps, as many as the queued and taken work allows; a state in which none of
  them can take a step has only finished tickets; and such a state can be
  reached, where \<open>join\<close> returns success.\<close>

theorem dispatch_work_finishes:
  assumes "queue_new limits workers qid = Inr q0" "dispatch_run limits q0 es q"
  shows "(\<forall>fs q'. dispatch_run limits q fs q' \<and> list_all worker_event fs \<longrightarrow>
        length fs \<le> work_left q \<and>
        ((\<forall>e m. worker_event e \<longrightarrow> \<not> dispatch_step limits q' e m) \<longrightarrow> all_terminal q')) \<and>
    (\<exists>fs q'. dispatch_run limits q fs q' \<and> list_all worker_event fs \<and> all_terminal q' \<and>
        join_loop ms ((q', expired) # looks) = Some (Inr ()))"
proof -
  have inv: "queue_inv limits q" using inv_run [OF assms(2) inv_new [OF assms(1)]] .
  have "q_workers q0 \<ge> 1"
    using assms(1) by (auto simp: queue_new_def worker_count_def bounded_count_def split: sum.splits if_splits)
  then have w: "q_workers q \<ge> 1" using druns.run_keeps [OF assms(2), of "\<lambda>q. q_workers q \<ge> 1"] workers_kept by force
  have "length fs \<le> work_left q" "(\<forall>e m. worker_event e \<longrightarrow> \<not> dispatch_step limits q' e m) \<longrightarrow> all_terminal q'"
    if run: "dispatch_run limits q fs q'" "list_all worker_event fs" for fs q'
  proof -
    have "length fs + work_left q' \<le> work_left q"
      by (rule druns.run_measure [OF run(1), where counted = worker_event])
         (use run(2) worker_step_progress in \<open>auto simp: list_all_iff\<close>)
    then show "length fs \<le> work_left q" by simp
    have "q_workers q' \<ge> 1" using druns.run_keeps [OF run(1), of "\<lambda>q. q_workers q \<ge> 1"] w workers_kept by force
    then show "(\<forall>e m. worker_event e \<longrightarrow> \<not> dispatch_step limits q' e m) \<longrightarrow> all_terminal q'"
      using worker_step_exists [of q' limits] no_work_all_terminal [OF inv_run [OF run(1) inv]] by blast
  qed
  moreover obtain fs q' where "dispatch_run limits q fs q'" "list_all worker_event fs" "work_left q' = 0"
    using work_can_finish [OF w] by blast
  ultimately show ?thesis using no_work_all_terminal inv_run inv by (meson join_loop.simps(2))
qed

theorem dispatch_work_finishes_witness:
  "\<exists>fs q'. dispatch_run small_limits one_submitted fs q' \<and> all_terminal q'"
  using dispatch_work_finishes [OF one_worker_new one_submitted_run] by blast

text \<open>\<open>wait\<close> checks its timeout and then answers from the first look that finds
  the ticket finished or closed, or the deadline passed, and the timeout is
  reported only where that look finds the ticket unfinished; without such a
  look it still waits.\<close>

theorem wait_reports_ticket:
  "ticket_wait limits now ms looks =
     (if ms < timeout_min_ms limits \<or> timeout_max_ms limits < ms
      then Some (Inl (OutOfRange ''timeout in milliseconds'' ms (timeout_min_ms limits) (timeout_max_ms limits)))
      else case find (\<lambda>(t, expired). is_terminal t \<or> expired) looks of
        None \<Rightarrow> None
      | Some (t, expired) \<Rightarrow>
          Some (if \<not> is_terminal t then Inl (Timeout ms)
            else if t_closed t then Inl (Closed ''ticket'')
            else if status t = COMPLETED then Inr ()
            else if status t = FAILED then Inl (task_failed (error t)) else Inl Cancelled))"
proof -
  have "wait_loop ms looks =
     (case find (\<lambda>(t, expired). is_terminal t \<or> expired) looks of
        None \<Rightarrow> None
      | Some (t, expired) \<Rightarrow>
          Some (if \<not> is_terminal t then Inl (Timeout ms)
            else if t_closed t then Inl (Closed ''ticket'')
            else if status t = COMPLETED then Inr ()
            else if status t = FAILED then Inl (task_failed (error t)) else Inl Cancelled))"
    by (induction ms looks rule: wait_loop.induct) (auto simp: is_terminal_def wait_look_def status_defs)
  then show ?thesis by (auto simp: ticket_wait_def deadline_def)
qed



end
