(* ===== verification/BN_Lexer.thy ===== *)
theory BN_Lexer
  imports BN_Types
begin

text \<open>
  Source text and tokens: \<open>crates/bn_source/src/lib.rs\<close>,
  \<open>crates/bn_frontend/src/token.rs\<close> and \<open>crates/bn_frontend/src/lexer.rs\<close>. Text is
  its UTF-8 bytes; a Rust \<open>char\<close> is the byte string that encodes it, so the lexer
  moves by characters and counts bytes and columns as the code does. The two word lists are
  generated from the language specification, and one message comes from the
  message catalogue: they are the fields of a record argument. The generator
  checks that the lists are strictly sorted; \<open>binary_search\<close> in a sorted slice is
  membership.
\<close>

unbundle bit_operations_syntax

section \<open>Sources\<close>

record source_position =
  p_source_id :: "64 word"
  p_revision :: "64 word"
  p_offset :: nat
  p_line :: nat
  p_column :: nat

record source_span =
  s_start :: source_position
  s_end :: source_position

record source_file =
  src_name :: str
  src_text :: str
  src_id :: "64 word"
  src_revision :: "64 word"

definition stable_hash :: "str \<Rightarrow> 64 word" where
  "stable_hash bytes =
     foldl (\<lambda>hash b. hash * 0x00000100000001b3 + word_of_nat (byte b)) 0xcbf29ce484222325 bytes"

definition source_new :: "str \<Rightarrow> str \<Rightarrow> source_file" where
  "source_new name s =
     \<lparr>src_name = name, src_text = s, src_id = stable_hash name, src_revision = stable_hash s\<rparr>"

section \<open>Characters\<close>

abbreviation LF :: char where "LF \<equiv> CHR 0x0A"
abbreviation CR :: char where "CR \<equiv> CHR 0x0D"
abbreviation TAB :: char where "TAB \<equiv> CHR 0x09"
abbreviation QUOTE :: char where "QUOTE \<equiv> CHR 0x22"
abbreviation BACKSLASH :: char where "BACKSLASH \<equiv> CHR 0x5C"

definition ascii_char :: "(char \<Rightarrow> bool) \<Rightarrow> str \<Rightarrow> bool" where
  "ascii_char p c = (case c of [b] \<Rightarrow> p b | _ \<Rightarrow> False)"

text \<open>\<open>char::is_control\<close>: the general category Cc, U+0000 to U+001F and U+007F to
  U+009F.\<close>

definition is_control :: "str \<Rightarrow> bool" where
  "is_control c \<longleftrightarrow> (case c of
     [b] \<Rightarrow> byte b < 32 \<or> byte b = 127
   | [a, b] \<Rightarrow> byte a = 194 \<and> byte b < 160
   | _ \<Rightarrow> False)"

definition is_ascii_alphanumeric :: "char \<Rightarrow> bool" where
  "is_ascii_alphanumeric b \<longleftrightarrow> is_ascii_alphabetic b \<or> is_ascii_digit b"

definition is_ascii_hexdigit :: "char \<Rightarrow> bool" where
  "is_ascii_hexdigit b \<longleftrightarrow> is_ascii_digit b \<or> (65 \<le> byte b \<and> byte b \<le> 70) \<or> (97 \<le> byte b \<and> byte b \<le> 102)"

definition is_identifier_start :: "char \<Rightarrow> bool" where
  "is_identifier_start b \<longleftrightarrow> is_ascii_alphabetic b \<or> b = CHR ''_''"

definition is_identifier_continue :: "char \<Rightarrow> bool" where
  "is_identifier_continue b \<longleftrightarrow> is_identifier_start b \<or> is_ascii_digit b"

fun is_decimal_loop :: "nat \<Rightarrow> nat \<Rightarrow> str \<Rightarrow> bool" where
  "is_decimal_loop dots digits [] \<longleftrightarrow> digits > 0 \<and> dots \<le> 1"
| "is_decimal_loop dots digits (b # s) \<longleftrightarrow>
     (if b = CHR ''.'' then is_decimal_loop (dots + 1) digits s
      else if is_ascii_digit b then is_decimal_loop dots (digits + 1) s
      else False)"

definition is_decimal :: "str \<Rightarrow> bool" where
  "is_decimal s = is_decimal_loop 0 0 s"

section \<open>Tokens\<close>

datatype symbol =
    Assign | Equal | NotEqual | Less | LessEqual | Greater | GreaterEqual | Plus | Minus | Star | Power | Slash
  | Percent | PlusAssign | MinusAssign | Increment | Decrement | StarAssign | PowerAssign | SlashAssign
  | PercentAssign | LeftParen | RightParen | LeftBracket | RightBracket | Comma | Colon | Dot

datatype token_kind =
    Identifier str | Integer str | Float str | String str | Keyword str | Special str | Symbol symbol | Newline | Eof

record token =
  t_kind :: token_kind
  t_span :: source_span

record lex_env =
  reserved_words :: "str list"
  special_float_literals :: "str list"
  escape_unsupported :: str

definition is_reserved_word :: "lex_env \<Rightarrow> str \<Rightarrow> bool" where
  "is_reserved_word env s \<longleftrightarrow> s \<in> set (reserved_words env)"

definition special_float_literal :: "lex_env \<Rightarrow> str \<Rightarrow> str option" where
  "special_float_literal env s = (if s \<in> set (special_float_literals env) then Some s else None)"

text \<open>A lexical diagnostic, with a message or with the offending text and the
  expectation.\<close>

datatype lex_error =
    Lexical str source_span
  | LexicalFacts str str source_span

section \<open>The lexer\<close>

record lexer =
  l_offset :: nat
  l_line :: nat
  l_column :: nat
  l_tokens :: "token list"

definition lexer_new :: lexer where
  "lexer_new = \<lparr>l_offset = 0, l_line = 1, l_column = 1, l_tokens = []\<rparr>"

definition rest :: "source_file \<Rightarrow> lexer \<Rightarrow> str" where
  "rest src l = drop (l_offset l) (src_text src)"

definition pos_of :: "source_file \<Rightarrow> lexer \<Rightarrow> source_position" where
  "pos_of src l = \<lparr>p_source_id = src_id src, p_revision = src_revision src, p_offset = l_offset l,
     p_line = l_line l, p_column = l_column l\<rparr>"

definition span_from :: "source_file \<Rightarrow> source_position \<Rightarrow> lexer \<Rightarrow> source_span" where
  "span_from src start l = \<lparr>s_start = start, s_end = pos_of src l\<rparr>"

definition lex_error_at :: "source_file \<Rightarrow> str \<Rightarrow> lexer \<Rightarrow> lex_error" where
  "lex_error_at src message l =
     LexicalFacts message ''valid BN character sequence'' (span_from src (pos_of src l) l)"

definition peek :: "source_file \<Rightarrow> lexer \<Rightarrow> str option" where
  "peek src l = next_char (rest src l)"

definition peek_next :: "source_file \<Rightarrow> lexer \<Rightarrow> str option" where
  "peek_next src l =
     (case next_char (rest src l) of None \<Rightarrow> None | Some c \<Rightarrow> next_char (drop (length c) (rest src l)))"

definition starts :: "source_file \<Rightarrow> str \<Rightarrow> lexer \<Rightarrow> bool" where
  "starts src s l \<longleftrightarrow> take (length s) (rest src l) = s"

definition advance :: "source_file \<Rightarrow> lexer \<Rightarrow> lexer" where
  "advance src l =
     (case peek src l of
        None \<Rightarrow> l
      | Some c \<Rightarrow> l\<lparr>l_offset := l_offset l + length c, l_column := l_column l + 1\<rparr>)"

definition push_token :: "source_file \<Rightarrow> token_kind \<Rightarrow> source_position \<Rightarrow> lexer \<Rightarrow> lexer" where
  "push_token src kind start l =
     l\<lparr>l_tokens := l_tokens l @ [\<lparr>t_kind = kind, t_span = span_from src start l\<rparr>]\<rparr>"

definition newline :: "source_file \<Rightarrow> lexer \<Rightarrow> lexer" where
  "newline src l =
     (let l1 = push_token src Newline (pos_of src l) (advance src l)
      in l1\<lparr>l_line := l_line l1 + 1, l_column := 1\<rparr>)"

text \<open>Each character advanced over shortens what is left, so the loops end.\<close>

lemma advance_offset:
  "peek src l = Some c \<Longrightarrow> l_offset l < length (src_text src) \<and> l_offset (advance src l) > l_offset l"
  using next_char_SomeD [of "rest src l" c] by (auto simp: peek_def advance_def rest_def)

lemma advance_less: "peek src l = Some c \<Longrightarrow>
    length (src_text src) - l_offset (advance src l) < length (src_text src) - l_offset l"
  using advance_offset [of src l c] by auto

lemma newline_less: "peek src l = Some c \<Longrightarrow>
    length (src_text src) - l_offset (newline src l) < length (src_text src) - l_offset l"
  using advance_less [of src l c] by (simp add: newline_def push_token_def Let_def)

lemma advance_le: "l_offset l \<le> l_offset (advance src l)"
  by (auto simp: advance_def split: option.splits)

function advance_while :: "source_file \<Rightarrow> (str \<Rightarrow> bool) \<Rightarrow> lexer \<Rightarrow> lexer" where
  "advance_while src p l =
     (case peek src l of
        None \<Rightarrow> l
      | Some c \<Rightarrow> if p c then advance_while src p (advance src l) else l)"
  by auto
termination
  by (relation "measure (\<lambda>(src, p, l). length (src_text src) - l_offset l)") (simp_all add: advance_less)

definition line_comment :: "source_file \<Rightarrow> lexer \<Rightarrow> lexer" where
  "line_comment src l = advance_while src (\<lambda>c. c \<noteq> [LF] \<and> c \<noteq> [CR]) l"

function block_comment_loop :: "source_file \<Rightarrow> source_position \<Rightarrow> lexer \<Rightarrow> lex_error + lexer" where
  "block_comment_loop src start l =
     (if starts src ''*/'' l then Inr (advance src (advance src l))
      else case peek src l of
        None \<Rightarrow> Inl (Lexical ''unterminated block comment'' (span_from src start l))
      | Some c \<Rightarrow>
          if starts src ''/*'' l then Inl (lex_error_at src ''nested block comments are not allowed'' l)
          else if c = [LF] then block_comment_loop src start (newline src l)
          else if c = [CR] then
            if peek_next src l = Some [LF] then block_comment_loop src start (newline src (advance src l))
            else Inl (lex_error_at src ''bare carriage return; use LF or CRLF'' l)
          else block_comment_loop src start (advance src l))"
  by auto
termination
proof (relation "measure (\<lambda>(src, start, l). length (src_text src) - l_offset l)", goal_cases)
  case (3 src start l c)
  then show ?case using advance_less [of src l c] advance_le [of "advance src l" src]
    by (simp add: newline_def push_token_def Let_def)
qed (simp_all add: advance_less newline_less)

definition block_comment :: "source_file \<Rightarrow> lexer \<Rightarrow> lex_error + lexer" where
  "block_comment src l = block_comment_loop src (pos_of src l) (advance src (advance src l))"

function string_loop :: "lex_env \<Rightarrow> source_file \<Rightarrow> source_position \<Rightarrow> str \<Rightarrow> lexer \<Rightarrow> lex_error + lexer" where
  "string_loop env src start v l =
     (case peek src l of
        None \<Rightarrow> Inl (Lexical ''unterminated string literal'' (span_from src start l))
      | Some c \<Rightarrow>
          if c = [LF] \<or> c = [CR] then Inl (Lexical ''string literals cannot contain a line break'' (span_from src start l))
          else if c = [QUOTE] then Inr (push_token src (String v) start (advance src l))
          else if c = [BACKSLASH] then
            (let l1 = advance src l
             in case peek src l1 of
                  None \<Rightarrow> Inl (lex_error_at src (escape_unsupported env) l1)
                | Some e \<Rightarrow>
                    if e = [QUOTE] then string_loop env src start (v @ [QUOTE]) (advance src l1)
                    else if e = [BACKSLASH] then string_loop env src start (v @ [BACKSLASH]) (advance src l1)
                    else Inl (lex_error_at src (escape_unsupported env) (advance src l1)))
          else if is_control c
          then Inl (Lexical ''string literals cannot contain control characters'' (span_from src start l))
          else string_loop env src start (v @ c) (advance src l))"
  by auto
termination
proof (relation "measure (\<lambda>(env, src, start, v, l). length (src_text src) - l_offset l)", goal_cases)
  case (2 env src start v l c l1 e)
  then show ?case using advance_less [of src l c] advance_less [of src l1 e] by simp
next
  case (3 env src start v l c l1 e)
  then show ?case using advance_less [of src l c] advance_less [of src l1 e] by simp
qed (simp_all add: advance_less)

declare advance_while.simps [simp del] block_comment_loop.simps [simp del] string_loop.simps [simp del]

definition lex_string :: "lex_env \<Rightarrow> source_file \<Rightarrow> lexer \<Rightarrow> lex_error + lexer" where
  "lex_string env src l = string_loop env src (pos_of src l) [] (advance src l)"

text \<open>The text between a start offset and the cursor.\<close>

definition text_from :: "source_file \<Rightarrow> nat \<Rightarrow> lexer \<Rightarrow> str" where
  "text_from src start l = take (l_offset l - start) (drop start (src_text src))"

definition valid_number :: "str \<Rightarrow> bool" where
  "valid_number s \<longleftrightarrow>
     (case strip_prefix ''0b'' s of None \<Rightarrow> False
      | Some digits \<Rightarrow> digits \<noteq> [] \<and> list_all (\<lambda>d. d = CHR ''0'' \<or> d = CHR ''1'') digits) \<or>
     (case strip_prefix ''0x'' s of None \<Rightarrow> False
      | Some digits \<Rightarrow> digits \<noteq> [] \<and> list_all is_ascii_hexdigit digits) \<or>
     is_decimal s \<and> \<not> ends_with ''.'' s"

definition lex_number :: "source_file \<Rightarrow> lexer \<Rightarrow> lex_error + lexer" where
  "lex_number src l =
     (let start = pos_of src l;
          l1 = advance_while src (ascii_char (\<lambda>b. is_ascii_alphanumeric b \<or> b = CHR ''_'' \<or> b = CHR ''.'')) l;
          s = text_from src (l_offset l) l1
      in if \<not> valid_number s
         then Inl (Lexical (''malformed numeric literal '' @ [CHR 0x27] @ s @ [CHR 0x27]) (span_from src start l1))
         else Inr (push_token src (if CHR ''.'' \<in> set s then Float s else Integer s) start l1))"

definition lex_identifier :: "lex_env \<Rightarrow> source_file \<Rightarrow> lexer \<Rightarrow> lexer" where
  "lex_identifier env src l =
     (let start = pos_of src l;
          l1 = advance_while src (ascii_char is_identifier_continue) l;
          s = text_from src (l_offset l) l1;
          kind = (case special_float_literal env s of
                    Some literal \<Rightarrow> Special literal
                  | None \<Rightarrow> if is_reserved_word env s then Keyword s else Identifier s)
      in push_token src kind start l1)"

text \<open>The symbols in the order the code tries them, with the text each needs.\<close>

definition wide_symbols :: "(str \<times> symbol) list" where
  "wide_symbols =
     [(''**='', PowerAssign), (''**'', Power), (''+='', PlusAssign), (''-='', MinusAssign), (''++'', Increment),
      (''--'', Decrement), (''*='', StarAssign), (''/='', SlashAssign), (''%='', PercentAssign),
      (''<='', LessEqual), (''>='', GreaterEqual), (''<>'', NotEqual)]"

definition narrow_symbols :: "(str \<times> symbol) list" where
  "narrow_symbols =
     [(''='', Assign), (''+'', Plus), (''-'', Minus), (''*'', Star), (''/'', Slash), (''%'', Percent),
      (''<'', Less), (''>'', Greater), (''('', LeftParen), ('')'', RightParen), (''['', LeftBracket),
      ('']'', RightBracket), ('','', Comma), ('':'', Colon), (''.'', Dot)]"

definition lex_symbol :: "source_file \<Rightarrow> lexer \<Rightarrow> (lex_error + lexer) outcome" where
  "lex_symbol src l =
     (let start = pos_of src l
      in case find (\<lambda>(s, _). starts src s l) wide_symbols of
           Some (s, y) \<Rightarrow> Done (Inr (push_token src (Symbol y) start ((advance src ^^ length s) l)))
         | None \<Rightarrow>
             (case peek src l of
                None \<Rightarrow> Panic
              | Some c \<Rightarrow>
                  (case map_of narrow_symbols c of
                     Some y \<Rightarrow> Done (Inr (push_token src (Symbol y) start (advance src l)))
                   | None \<Rightarrow>
                       Done (Inl (LexicalFacts c
                         (if c = ''^'' then ''** for exponentiation'' else ''a Basic Next token'')
                         (span_from src start (advance src l)))))))"

text \<open>One turn of the loop of \<open>run\<close> at the character \<open>c\<close>.\<close>

definition lex_turn :: "lex_env \<Rightarrow> source_file \<Rightarrow> str \<Rightarrow> lexer \<Rightarrow> (lex_error + lexer) outcome" where
  "lex_turn env src c l =
     (if c = '' '' \<or> c = [TAB] then Done (Inr (advance src l))
      else if c = [LF] then Done (Inr (newline src l))
      else if c = [CR] \<and> peek_next src l = Some [LF] then Done (Inr (newline src (advance src l)))
      else if c = [CR] then Done (Inl (lex_error_at src ''bare carriage return; use LF or CRLF'' l))
      else if c = ''/'' \<and> starts src ''//'' l then Done (Inr (line_comment src l))
      else if c = ''/'' \<and> starts src ''/*'' l then Done (block_comment src l)
      else if c = [QUOTE] then Done (lex_string env src l)
      else if ascii_char is_ascii_digit c then Done (lex_number src l)
      else if c = ''.'' \<and> (case peek_next src l of None \<Rightarrow> False | Some d \<Rightarrow> ascii_char is_ascii_digit d)
      then Done (Inl (lex_error_at src (''a number cannot start with '' @ [CHR 0x27, CHR ''.'', CHR 0x27]) l))
      else if ascii_char is_identifier_start c then Done (Inr (lex_identifier env src l))
      else lex_symbol src l)"

lemma newline_le: "l_offset l \<le> l_offset (newline src l)"
  using advance_le [of l src] by (simp add: newline_def push_token_def Let_def)

lemma push_offset [simp]: "l_offset (push_token src kind start l) = l_offset l"
  by (simp add: push_token_def)

lemma advance_while_le: "l_offset l \<le> l_offset (advance_while src p l)"
proof (induction src p l rule: advance_while.induct)
  case (1 src p l)
  show ?case
  proof (cases "\<exists>c. peek src l = Some c \<and> p c")
    case True
    then show ?thesis using 1 advance_le [of l src] by (force simp: advance_while.simps [of src p l])
  next
    case False
    then show ?thesis by (auto simp: advance_while.simps [of src p l] split: option.splits)
  qed
qed

lemma advance_while_less: "peek src l = Some c \<Longrightarrow> p c \<Longrightarrow> l_offset l < l_offset (advance_while src p l)"
  using advance_while_le [of "advance src l" src p] advance_offset [of src l c]
  by (simp add: advance_while.simps [of src p l])

lemma block_comment_le: "block_comment_loop src start l = Inr l' \<Longrightarrow> l_offset l \<le> l_offset l'"
proof (induction src start l rule: block_comment_loop.induct)
  case (1 src start l)
  have le: "l_offset l \<le> l_offset (newline src (advance src l))" "l_offset l \<le> l_offset (advance src (advance src l))"
    using advance_le le_trans newline_le by blast+
  show ?case using 1 le advance_le [of l src] newline_le [of l src]
    by (auto simp: block_comment_loop.simps [of src start l] split: if_splits option.splits intro: le_trans)
qed

lemma string_le: "string_loop env src start v l = Inr l' \<Longrightarrow> l_offset l \<le> l_offset l'"
proof (induction env src start v l rule: string_loop.induct)
  case (1 env src start v l)
  have "l_offset l \<le> l_offset (advance src (advance src l))" using advance_le le_trans by blast
  then show ?case using 1 advance_le [of l src]
    by (auto simp: string_loop.simps [of env src start v l] Let_def split: if_splits option.splits intro: le_trans)
qed

lemma funpow_advance_le: "l_offset l \<le> l_offset ((advance src ^^ n) l)"
  by (induction n) (auto intro: le_trans advance_le)

lemma starts_peek: "starts src (b # s) l \<Longrightarrow> byte b < 128 \<Longrightarrow> peek src l = Some [b]"
  by (cases "rest src l") (auto simp: starts_def peek_def char_len_def)

lemma wide_symbols_found:
  "find (\<lambda>(s, _). starts src s l) wide_symbols = Some (s, y) \<Longrightarrow> starts src s l \<and> (s, y) \<in> set wide_symbols"
  by (auto simp: find_Some_iff) (metis nth_mem)+

lemma wide_symbol_shape: "(s, y) \<in> set wide_symbols \<Longrightarrow> \<exists>b t. s = b # t \<and> byte b < 128 \<and> list_all is_ascii t"
proof -
  have "list_all (\<lambda>(s, _). s \<noteq> [] \<and> list_all is_ascii s) wide_symbols" by code_simp
  moreover assume "(s, y) \<in> set wide_symbols"
  ultimately have "s \<noteq> []" "list_all is_ascii s" by (auto simp: list_all_iff)
  then show ?thesis by (cases s) (auto simp: is_ascii_def)
qed

lemma lex_turn_progress:
  assumes "peek src l = Some c" "lex_turn env src c l = Done (Inr l')"
  shows "l_offset l < l_offset l' \<and> l_offset l < length (src_text src)"
proof -
  note adv = advance_offset [OF assms(1)]
  have two: "l_offset l < l_offset (newline src (advance src l))" "l_offset l < l_offset (newline src l)"
    "l_offset l < l_offset (advance src (advance src l))"
    using adv newline_le [of "advance src l" src] advance_le [of "advance src l" src]
    by (auto simp: newline_def push_token_def Let_def)
  have ident: "l_offset l < l_offset (lex_identifier env src l)" if "ascii_char is_identifier_start c"
    using that advance_while_less [OF assms(1), of "ascii_char is_identifier_continue"]
    by (auto simp: lex_identifier_def Let_def ascii_char_def is_identifier_continue_def split: list.splits)
  have num: "l_offset l < l_offset m" if "ascii_char is_ascii_digit c" "lex_number src l = Inr m" for m
    using that advance_while_less [OF assms(1)]
    by (force simp: lex_number_def Let_def ascii_char_def is_ascii_alphanumeric_def split: list.splits if_splits)
  have lc: "l_offset l < l_offset (line_comment src l)" if "c = ''/''"
    using that advance_while_less [OF assms(1)] by (simp add: line_comment_def)
  have sym: "l_offset l < l_offset m" if "lex_symbol src l = Done (Inr m)" for m
  proof (cases "find (\<lambda>(s, _). starts src s l) wide_symbols")
    case None
    then show ?thesis using that adv by (auto simp: lex_symbol_def Let_def split: option.splits)
  next
    case (Some sy)
    obtain s y where sy: "sy = (s, y)" by fastforce
    then obtain b t where "s = b # t" using Some wide_symbols_found wide_symbol_shape by (metis prod.inject)
    then have "l_offset m = l_offset ((advance src ^^ length t) (advance src l))"
      using that Some sy by (auto simp: lex_symbol_def Let_def funpow_swap1)
    then show ?thesis using adv funpow_advance_le [of "advance src l" "length t" src] by simp
  qed
  have str: "l_offset l < l_offset m" if "lex_string env src l = Inr m" for m
    using that adv string_le [of env src "pos_of src l" "[]" "advance src l" m] by (simp add: lex_string_def)
  have blk: "l_offset l < l_offset m" if "block_comment src l = Inr m" for m
    using that two block_comment_le [of src "pos_of src l" "advance src (advance src l)" m]
    by (simp add: block_comment_def)
  show ?thesis using assms(2) adv two ident num lc sym str blk
    by (auto simp: lex_turn_def split: if_splits)
qed

text \<open>The loop of \<open>run\<close>, and its end.\<close>

function lex_loop :: "lex_env \<Rightarrow> source_file \<Rightarrow> lexer \<Rightarrow> (lex_error + lexer) outcome" where
  "lex_loop env src l =
     (case peek src l of
        None \<Rightarrow> Done (Inr l)
      | Some c \<Rightarrow>
          (case lex_turn env src c l of
             Panic \<Rightarrow> Panic
           | Done (Inl e) \<Rightarrow> Done (Inl e)
           | Done (Inr l') \<Rightarrow> lex_loop env src l'))"
  by auto
termination
  by (relation "measure (\<lambda>(env, src, l). length (src_text src) - l_offset l)")
     (auto dest!: lex_turn_progress)

declare lex_loop.simps [simp del]

definition lex_finish :: "source_file \<Rightarrow> lexer \<Rightarrow> token list" where
  "lex_finish src l =
     (let l1 = (if l_tokens l \<noteq> [] \<and> t_kind (last (l_tokens l)) \<noteq> Newline
                then push_token src Newline (pos_of src l) l else l)
      in l_tokens (push_token src Eof (pos_of src l1) l1))"

definition lex_file :: "lex_env \<Rightarrow> source_file \<Rightarrow> (lex_error + token list) outcome" where
  "lex_file env src =
     (case lex_loop env src lexer_new of
        Panic \<Rightarrow> Panic
      | Done (Inl e) \<Rightarrow> Done (Inl e)
      | Done (Inr l) \<Rightarrow> Done (Inr (lex_finish src l)))"

section \<open>Where the cursor is\<close>

text \<open>The line and column after a text, counted from its bytes: lines by line
  feeds, columns by characters since the last one.\<close>

definition chars_of :: "str \<Rightarrow> nat" where
  "chars_of s = length (filter (\<lambda>b. \<not> is_continuation b) s)"

definition line_tail :: "str \<Rightarrow> str" where
  "line_tail s = rev (takeWhile (\<lambda>b. b \<noteq> LF) (rev s))"

definition place :: "str \<Rightarrow> nat \<times> nat" where
  "place s = (1 + count_list s LF, 1 + chars_of (line_tail s))"

definition exact_pos :: "source_file \<Rightarrow> source_position \<Rightarrow> bool" where
  "exact_pos src p \<longleftrightarrow> p_source_id p = src_id src \<and> p_revision p = src_revision src \<and>
     p_offset p \<le> length (src_text src) \<and> valid_utf8 (drop (p_offset p) (src_text src)) \<and>
     (p_line p, p_column p) = place (take (p_offset p) (src_text src))"

definition cursor_ok :: "source_file \<Rightarrow> lexer \<Rightarrow> bool" where
  "cursor_ok src l \<longleftrightarrow> exact_pos src (pos_of src l)"

lemma cursor_ok_alt:
  "cursor_ok src l \<longleftrightarrow> l_offset l \<le> length (src_text src) \<and> valid_utf8 (rest src l) \<and>
     (l_line l, l_column l) = place (take (l_offset l) (src_text src))"
  by (simp add: cursor_ok_def exact_pos_def pos_of_def rest_def)

lemma LF_byte: "byte LF = 10" by (simp add: byte_def)

lemma next_char_valid:
  assumes "valid_utf8 s" "next_char s = Some c"
  obtains b cs t where "s = c @ t" "valid_utf8 t" "c = b # cs" "\<not> is_continuation b" "list_all is_continuation cs"
    "byte b < 128 \<longrightarrow> cs = []"
proof -
  obtain a s' where s: "s = a # s'" using assms(2) by (cases s) auto
  have c: "c = take (char_len a) s" using assms(2) s by simp
  have a: "\<not> is_continuation a" using valid_utf8_head assms(1) s by blast
  have "\<exists>cs t. s = c @ t \<and> valid_utf8 t \<and> c = a # cs \<and> list_all is_continuation cs \<and> (byte a < 128 \<longrightarrow> cs = [])"
  proof (cases "byte a < 128")
    case True
    then show ?thesis using assms(1) by (simp add: c s char_len_def)
  next
    case F1: False
    obtain b s2 where s2: "s' = b # s2" "is_continuation b" using assms(1) F1 by (cases s') (auto simp: s)
    have high: "194 \<le> byte a"
      using assms(1) F1 by (auto simp: s s2 split: list.splits if_splits)
    show ?thesis
    proof (cases "byte a \<le> 223")
      case True
      then show ?thesis using assms(1) F1 high s2 by (simp add: c s char_len_def)
    next
      case F2: False
      obtain d s3 where s3: "s2 = d # s3" "is_continuation d" using assms(1) F1 F2 by (cases s2) (auto simp: s s2)
      show ?thesis
      proof (cases "byte a \<le> 239")
        case True
        then show ?thesis using assms(1) F1 F2 s2 s3 by (simp add: c s char_len_def)
      next
        case F3: False
        obtain e s4 where "s3 = e # s4" "is_continuation e" "valid_utf8 s4"
          using assms(1) F1 F2 F3 by (cases s3) (auto simp: s s2 s3)
        then show ?thesis using F1 F2 F3 s2 s3 by (simp add: c s char_len_def)
      qed
    qed
  qed
  then show thesis using that a by blast
qed

lemma line_tail_append: "LF \<notin> set c \<Longrightarrow> line_tail (s @ c) = line_tail s @ c"
proof -
  assume "LF \<notin> set c"
  then have "takeWhile (\<lambda>b. b \<noteq> LF) (rev c @ rev s) = rev c @ takeWhile (\<lambda>b. b \<noteq> LF) (rev s)"
    by (intro takeWhile_append2) (metis set_rev)
  then show ?thesis by (simp add: line_tail_def)
qed

lemma place_char:
  assumes "\<not> is_continuation b" "list_all is_continuation cs" "LF \<notin> set (b # cs)"
  shows "place (s @ b # cs) = (fst (place s), Suc (snd (place s)))"
proof -
  have "filter (\<lambda>b. \<not> is_continuation b) cs = []" using assms(2) by (auto simp: list_all_iff filter_empty_conv)
  moreover have "count_list (b # cs) LF = 0" using assms(3) by (metis count_notin)
  ultimately show ?thesis using assms(1) line_tail_append [OF assms(3), of s]
    by (simp add: place_def chars_of_def count_list_append)
qed

lemma place_LF: "place (s @ [LF]) = (Suc (fst (place s)), 1)"
  by (simp add: place_def line_tail_def chars_of_def count_list_append)

lemma take_at_cursor:
  "rest src l = c @ t \<Longrightarrow> l_offset l \<le> length (src_text src) \<Longrightarrow>
   take (l_offset l + length c) (src_text src) = take (l_offset l) (src_text src) @ c \<and>
   drop (l_offset l + length c) (src_text src) = t \<and> l_offset l + length c \<le> length (src_text src)"
  unfolding rest_def
  by (metis append_eq_conv_conj append_take_drop_id drop_drop length_append length_drop
      le_add_diff_inverse le_add1 nat_add_left_cancel_le add.commute take_add)

lemma advance_ok:
  assumes ok: "cursor_ok src l" and c: "peek src l = Some c" "c \<noteq> [LF]"
  shows "cursor_ok src (advance src l)"
proof -
  have l: "l_offset l \<le> length (src_text src)" "valid_utf8 (rest src l)"
    "(l_line l, l_column l) = place (take (l_offset l) (src_text src))" using ok by (simp_all add: cursor_ok_alt)
  obtain b cs t where s: "rest src l = c @ t" "valid_utf8 t" "c = b # cs" "\<not> is_continuation b"
    "list_all is_continuation cs" "byte b < 128 \<longrightarrow> cs = []"
    using next_char_valid [OF l(2)] c(1) unfolding peek_def by metis
  have "LF \<notin> set c" using s(3-6) c(2) LF_byte by (auto simp: list_all_iff is_continuation_def)
  then have "place (take (l_offset l) (src_text src) @ c) = (l_line l, Suc (l_column l))"
    using place_char [OF s(4,5)] l(3) s(3) by (metis fst_conv snd_conv)
  then show ?thesis using take_at_cursor [OF s(1) l(1)] s(2) c(1)
    by (simp add: cursor_ok_alt advance_def rest_def)
qed

lemma newline_ok:
  assumes ok: "cursor_ok src l" and c: "peek src l = Some [LF]"
  shows "cursor_ok src (newline src l)"
proof -
  have l: "l_offset l \<le> length (src_text src)" "valid_utf8 (rest src l)"
    "(l_line l, l_column l) = place (take (l_offset l) (src_text src))" using ok by (simp_all add: cursor_ok_alt)
  obtain t where s: "rest src l = [LF] @ t" "valid_utf8 t"
    using next_char_valid [OF l(2)] c unfolding peek_def by metis
  show ?thesis using take_at_cursor [OF s(1) l(1)] s(2) c place_LF [of "take (l_offset l) (src_text src)"] l(3)
    by (simp add: cursor_ok_alt newline_def advance_def push_token_def Let_def rest_def) (metis fst_conv)
qed

lemma new_ok: "valid_utf8 (src_text src) \<Longrightarrow> cursor_ok src lexer_new"
  by (simp add: cursor_ok_alt lexer_new_def rest_def place_def line_tail_def chars_of_def)

section \<open>What the tokens spell\<close>

definition symbol_text :: "symbol \<Rightarrow> str \<Rightarrow> bool" where
  "symbol_text y s \<longleftrightarrow> (s, y) \<in> set (wide_symbols @ narrow_symbols)"

fun escape :: "str \<Rightarrow> str" where
  "escape [] = []"
| "escape (b # s) = (if b = QUOTE \<or> b = BACKSLASH then [BACKSLASH, b] else [b]) @ escape s"

lemma escape_append [simp]: "escape (s @ t) = escape s @ escape t"
  by (induction s) auto

definition is_identifier :: "str \<Rightarrow> bool" where
  "is_identifier s \<longleftrightarrow> s \<noteq> [] \<and> is_identifier_start (hd s) \<and> list_all is_identifier_continue s"

fun spelled :: "lex_env \<Rightarrow> token_kind \<Rightarrow> str \<Rightarrow> bool" where
  "spelled env (Identifier v) s \<longleftrightarrow> s = v \<and> is_identifier v \<and> \<not> is_reserved_word env v \<and> special_float_literal env v = None"
| "spelled env (Keyword v) s \<longleftrightarrow> s = v \<and> is_identifier v \<and> is_reserved_word env v"
| "spelled env (Special v) s \<longleftrightarrow> s = v \<and> is_identifier v \<and> v \<in> set (special_float_literals env)"
| "spelled env (Integer v) s \<longleftrightarrow> s = v \<and> valid_number v \<and> CHR ''.'' \<notin> set v"
| "spelled env (Float v) s \<longleftrightarrow> s = v \<and> valid_number v \<and> CHR ''.'' \<in> set v"
| "spelled env (String v) s \<longleftrightarrow> s = [QUOTE] @ escape v @ [QUOTE]"
| "spelled env (Symbol y) s \<longleftrightarrow> symbol_text y s"
| "spelled env Newline s \<longleftrightarrow> s = [LF] \<or> s = []"
| "spelled env Eof s \<longleftrightarrow> s = []"

definition span_text :: "source_file \<Rightarrow> source_span \<Rightarrow> str" where
  "span_text src sp = take (p_offset (s_end sp) - p_offset (s_start sp)) (drop (p_offset (s_start sp)) (src_text src))"

text \<open>A position just past a line feed that still counts on the line before, as the
  end of a newline token and the place of a refused escape of a line feed do.\<close>

definition past_LF :: "source_file \<Rightarrow> source_position \<Rightarrow> bool" where
  "past_LF src p \<longleftrightarrow> 0 < p_offset p \<and> 0 < p_column p \<and> src_text src ! (p_offset p - 1) = LF \<and>
     exact_pos src (p\<lparr>p_offset := p_offset p - 1, p_column := p_column p - 1\<rparr>)"

definition token_ok :: "lex_env \<Rightarrow> source_file \<Rightarrow> token \<Rightarrow> bool" where
  "token_ok env src t \<longleftrightarrow>
     exact_pos src (s_start (t_span t)) \<and> (exact_pos src (s_end (t_span t)) \<or> t_kind t = Newline \<and> past_LF src (s_end (t_span t))) \<and>
     p_offset (s_start (t_span t)) \<le> p_offset (s_end (t_span t)) \<and>
     p_offset (s_end (t_span t)) \<le> length (src_text src) \<and>
     spelled env (t_kind t) (span_text src (t_span t))"

definition in_order :: "token list \<Rightarrow> bool" where
  "in_order ts = sorted_wrt (\<lambda>a b. p_offset (s_end (t_span a)) \<le> p_offset (s_start (t_span b))) ts"

definition tokens_ok :: "lex_env \<Rightarrow> source_file \<Rightarrow> nat \<Rightarrow> token list \<Rightarrow> bool" where
  "tokens_ok env src limit ts \<longleftrightarrow>
     list_all (\<lambda>t. token_ok env src t \<and> p_offset (s_end (t_span t)) \<le> limit) ts \<and> in_order ts"

definition good :: "lex_env \<Rightarrow> source_file \<Rightarrow> lexer \<Rightarrow> bool" where
  "good env src l \<longleftrightarrow> cursor_ok src l \<and> tokens_ok env src (l_offset l) (l_tokens l) \<and> Eof \<notin> t_kind ` set (l_tokens l)"

fun error_span :: "lex_error \<Rightarrow> source_span" where
  "error_span (Lexical message sp) = sp"
| "error_span (LexicalFacts found expected sp) = sp"

definition error_ok :: "source_file \<Rightarrow> lex_error \<Rightarrow> bool" where
  "error_ok src e \<longleftrightarrow> p_offset (s_start (error_span e)) \<le> p_offset (s_end (error_span e)) \<and>
     (exact_pos src (s_start (error_span e)) \<and> exact_pos src (s_end (error_span e)) \<or>
      s_end (error_span e) = s_start (error_span e) \<and> past_LF src (s_start (error_span e)))"

text \<open>The cursor moved on without a token.\<close>

definition moved :: "source_file \<Rightarrow> lexer \<Rightarrow> lexer \<Rightarrow> bool" where
  "moved src l l' \<longleftrightarrow> cursor_ok src l' \<and> l_tokens l' = l_tokens l \<and> l_offset l \<le> l_offset l'"

lemma tokens_ok_weaken: "tokens_ok env src a ts \<Longrightarrow> a \<le> b \<Longrightarrow> tokens_ok env src b ts"
  by (auto simp: tokens_ok_def list_all_iff)

lemma moved_good: "good env src l \<Longrightarrow> moved src l l' \<Longrightarrow> good env src l'"
  by (auto simp: good_def moved_def intro: tokens_ok_weaken)

lemma moved_refl: "cursor_ok src l \<Longrightarrow> moved src l l"
  by (simp add: moved_def)

lemma moved_trans: "moved src a b \<Longrightarrow> moved src b c \<Longrightarrow> moved src a c"
  by (simp add: moved_def)

lemma advance_tokens [simp]: "l_tokens (advance src l) = l_tokens l"
  by (simp add: advance_def split: option.splits)

lemma moved_advance: "cursor_ok src l \<Longrightarrow> peek src l = Some c \<Longrightarrow> c \<noteq> [LF] \<Longrightarrow> moved src l (advance src l)"
  by (simp add: moved_def advance_ok advance_le)

lemma pos_of_push [simp]: "pos_of src (push_token src kind start l) = pos_of src l"
  by (simp add: pos_of_def push_token_def)

lemma span_text_from: "span_text src (span_from src (pos_of src l) l') = text_from src (l_offset l) l'"
  by (simp add: span_text_def span_from_def pos_of_def text_from_def)

lemma push_good:
  assumes "good env src l" "moved src l l'" "kind \<noteq> Eof" "spelled env kind (text_from src (l_offset l) l')"
  shows "good env src (push_token src kind (pos_of src l) l')"
proof -
  let ?t = "\<lparr>t_kind = kind, t_span = span_from src (pos_of src l) l'\<rparr>"
  have c: "cursor_ok src l" "cursor_ok src l'" "l_tokens l' = l_tokens l" "l_offset l \<le> l_offset l'"
    using assms by (simp_all add: good_def moved_def)
  have "token_ok env src ?t \<and> p_offset (s_end (t_span ?t)) \<le> l_offset l'"
    using c assms(4) by (simp add: token_ok_def span_text_from)
      (simp add: span_from_def pos_of_def cursor_ok_def exact_pos_def)
  moreover have "tokens_ok env src (l_offset l) (l_tokens l)" using assms(1) by (simp add: good_def)
  then have "in_order (l_tokens l @ [?t])"
    by (auto simp: tokens_ok_def in_order_def sorted_wrt_append list_all_iff span_from_def pos_of_def)
  ultimately have "tokens_ok env src (l_offset l') (l_tokens l @ [?t])"
    using assms(1) c(4) by (auto simp: good_def tokens_ok_def list_all_iff)
  moreover have "cursor_ok src (push_token src kind (pos_of src l) l')" using c(2) by (simp add: cursor_ok_def)
  ultimately show ?thesis using assms(1,3) c(3) by (simp add: good_def push_token_def)
qed

lemma error_ok_span:
  "cursor_ok src l \<Longrightarrow> cursor_ok src l' \<Longrightarrow> l_offset l \<le> l_offset l' \<Longrightarrow>
     error_ok src (Lexical m (span_from src (pos_of src l) l')) \<and>
     error_ok src (LexicalFacts f x (span_from src (pos_of src l) l'))"
  by (simp add: error_ok_def span_from_def cursor_ok_def) (simp add: pos_of_def)

lemma error_at_ok: "cursor_ok src l \<Longrightarrow> error_ok src (lex_error_at src m l)"
  using error_ok_span [of src l l] by (simp add: lex_error_at_def)

lemma text_from_advance:
  "cursor_ok src l \<Longrightarrow> peek src l = Some c \<Longrightarrow> text_from src (l_offset l) (advance src l) = c"
proof -
  assume ok: "cursor_ok src l" and c: "peek src l = Some c"
  obtain t where t: "rest src l = c @ t" using next_char_valid ok c unfolding cursor_ok_alt peek_def by metis
  have "text_from src (l_offset l) (advance src l) = take (length c) (rest src l)"
    using c by (simp add: text_from_def advance_def rest_def)
  then show ?thesis by (simp add: t)
qed

lemma text_from_join:
  assumes "a \<le> l_offset l" "l_offset l \<le> l_offset l'"
  shows "text_from src a l' = text_from src a l @ text_from src (l_offset l) l'"
proof -
  have "l_offset l' - a = (l_offset l - a) + (l_offset l' - l_offset l)" "(l_offset l - a) + a = l_offset l" using assms by auto
  then show ?thesis unfolding text_from_def by (metis drop_drop take_add)
qed

lemma past_LF_advance:
  assumes "cursor_ok src l" "peek src l = Some [LF]"
  shows "past_LF src (pos_of src (advance src l))"
proof -
  have "rest src l \<noteq> [] \<and> hd (rest src l) = LF"
    using assms(2) char_len_pos unfolding peek_def by (cases "rest src l") (auto simp: take_Cons')
  then have "src_text src ! l_offset l = LF"
    by (metis drop_eq_Nil hd_drop_conv_nth not_le rest_def)
  then show ?thesis using assms by (simp add: past_LF_def advance_def cursor_ok_def pos_of_def)
qed

lemma newline_good:
  assumes "good env src l" "peek src l = Some [LF]"
  shows "good env src (newline src l)"
proof -
  let ?t = "\<lparr>t_kind = Newline, t_span = span_from src (pos_of src l) (advance src l)\<rparr>"
  have c: "cursor_ok src l" using assms(1) by (simp add: good_def)
  have n: "cursor_ok src (newline src l)" by (rule newline_ok [OF c assms(2)])
  have off: "l_offset (newline src l) = l_offset (advance src l)"
    by (simp add: newline_def push_token_def Let_def)
  have "token_ok env src ?t"
    using c n off advance_le [of l src] text_from_advance [OF c assms(2)]
      past_LF_advance [OF c assms(2)]
    by (simp add: token_ok_def span_text_from cursor_ok_alt)
       (simp add: span_from_def cursor_ok_def exact_pos_def pos_of_def rest_def)
  moreover have "in_order (l_tokens l @ [?t])" using assms(1)
    by (auto simp: good_def tokens_ok_def in_order_def sorted_wrt_append list_all_iff span_from_def pos_of_def)
  moreover have "p_offset (s_end (t_span ?t)) \<le> l_offset (newline src l)" by (simp add: off span_from_def pos_of_def)
  moreover have "tokens_ok env src (l_offset (newline src l)) (l_tokens l)"
    using assms(1) off advance_le [of l src] by (auto simp: good_def intro: tokens_ok_weaken)
  ultimately have "tokens_ok env src (l_offset (newline src l)) (l_tokens l @ [?t])"
    by (simp add: tokens_ok_def)
  moreover have "l_tokens (newline src l) = l_tokens l @ [?t]" by (simp add: newline_def push_token_def Let_def)
  ultimately show ?thesis using assms(1) n by (simp add: good_def)
qed

lemma advance_while_moved:
  "cursor_ok src l \<Longrightarrow> \<not> p [LF] \<Longrightarrow> moved src l (advance_while src p l)"
proof (induction src p l rule: advance_while.induct)
  case (1 src p l)
  show ?case
  proof (cases "\<exists>c. peek src l = Some c \<and> p c")
    case True
    then obtain c where c: "peek src l = Some c" "p c" "c \<noteq> [LF]" using 1(3) by auto
    have m: "moved src l (advance src l)" by (rule moved_advance [OF 1(2) c(1,3)])
    then have "moved src (advance src l) (advance_while src p (advance src l))"
      using 1(1) [OF c(1,2)] 1(3) by (simp add: moved_def)
    then show ?thesis using m c by (simp add: advance_while.simps [of src p l] moved_trans)
  next
    case False
    then show ?thesis using 1(2) by (auto simp: advance_while.simps [of src p l] moved_refl split: option.splits)
  qed
qed

lemma advance_while_text:
  "cursor_ok src l \<Longrightarrow> \<not> q LF \<Longrightarrow> list_all q (text_from src (l_offset l) (advance_while src (ascii_char q) l))"
proof (induction src "ascii_char q" l rule: advance_while.induct)
  case (1 src l)
  show ?case
  proof (cases "\<exists>c. peek src l = Some c \<and> ascii_char q c")
    case True
    then obtain c where c: "peek src l = Some c" "ascii_char q c" by auto
    then obtain b where b: "c = [b]" "q b" by (auto simp: ascii_char_def split: list.splits)
    have m: "moved src l (advance src l)" using moved_advance [OF 1(2) c(1)] b 1(3) by auto
    have "list_all q (text_from src (l_offset (advance src l)) (advance_while src (ascii_char q) (advance src l)))"
      using 1(1) [OF c] m 1(3) by (simp add: moved_def)
    then show ?thesis
      using text_from_join [OF advance_le [of l src] advance_while_le [of "advance src l" src "ascii_char q"]]
        text_from_advance [OF 1(2) c(1)] b c by (simp add: advance_while.simps [of src _ l])
  next
    case False
    then show ?thesis by (auto simp: advance_while.simps [of src _ l] text_from_def split: option.splits)
  qed
qed

lemma advance_while_head:
  assumes "cursor_ok src l" "peek src l = Some [b]" "q b" "\<not> q LF"
  shows "\<exists>s. text_from src (l_offset l) (advance_while src (ascii_char q) l) = b # s"
proof -
  have "ascii_char q [b]" using assms(3) by (simp add: ascii_char_def)
  then have "advance_while src (ascii_char q) l = advance_while src (ascii_char q) (advance src l)"
    using assms(2) by (simp add: advance_while.simps [of src _ l])
  then show ?thesis
    using text_from_join [OF advance_le [of l src] advance_while_le [of "advance src l" src "ascii_char q"], of src]
      text_from_advance [OF assms(1,2)] by simp
qed

lemma peek_ascii_member:
  assumes "cursor_ok src l" "peek src l = Some c" "x \<in> set c" "byte x < 128"
  shows "c = [x]"
proof -
  obtain b cs t where "rest src l = c @ t" "c = b # cs" "list_all is_continuation cs" "byte b < 128 \<longrightarrow> cs = []"
    using next_char_valid assms(1,2) unfolding cursor_ok_alt peek_def by metis
  then show ?thesis using assms(3,4) by (auto simp: list_all_iff is_continuation_def)
qed

lemma starts_moved:
  "cursor_ok src l \<Longrightarrow> starts src s l \<Longrightarrow> list_all is_ascii s \<Longrightarrow> LF \<notin> set s \<Longrightarrow>
     moved src l ((advance src ^^ length s) l) \<and> text_from src (l_offset l) ((advance src ^^ length s) l) = s"
proof (induction s arbitrary: l)
  case Nil
  then show ?case by (simp add: moved_refl text_from_def)
next
  case (Cons b s)
  have b: "peek src l = Some [b]" using starts_peek Cons.prems by (simp add: is_ascii_def)
  have m: "moved src l (advance src l)" using moved_advance [OF Cons.prems(1) b] Cons.prems(4) by auto
  have "starts src s (advance src l)"
    using Cons.prems(2) b unfolding starts_def advance_def rest_def
    by (auto simp: drop_Suc take_Suc tl_drop nth_drop split: if_splits) (metis list.distinct(1) list.sel(3) take_Suc tl_drop tl_take)
  then have IH: "moved src (advance src l) ((advance src ^^ length s) (advance src l))"
      "text_from src (l_offset (advance src l)) ((advance src ^^ length s) (advance src l)) = s"
    using Cons.IH [of "advance src l"] Cons.prems m by (simp_all add: moved_def)
  have "text_from src (l_offset l) ((advance src ^^ length s) (advance src l)) = b # s"
    using text_from_join [OF advance_le [of l src] funpow_advance_le [of "advance src l" "length s" src]]
      text_from_advance [OF Cons.prems(1) b] IH(2) by simp
  then show ?case using moved_trans [OF m IH(1)] by (simp add: funpow_swap1)
qed

text \<open>What every lexing routine promises: a good state, or an error at an exact place.\<close>

fun result_ok :: "lex_env \<Rightarrow> source_file \<Rightarrow> lex_error + lexer \<Rightarrow> bool" where
  "result_ok env src (Inl e) \<longleftrightarrow> error_ok src e"
| "result_ok env src (Inr l) \<longleftrightarrow> good env src l"

lemma good_cursor: "good env src l \<Longrightarrow> cursor_ok src l" by (simp add: good_def)

lemma crlf_good:
  assumes "good env src l" "peek src l = Some [CR]" "peek_next src l = Some [LF]"
  shows "good env src (newline src (advance src l))"
proof -
  have "good env src (advance src l)"
    using moved_good [OF assms(1) moved_advance [OF good_cursor [OF assms(1)] assms(2)]] by simp
  moreover have "peek src (advance src l) = Some [LF]"
    using assms(2,3) by (simp add: peek_next_def peek_def advance_def rest_def drop_drop add.commute)
  ultimately show ?thesis by (rule newline_good)
qed

lemma block_comment_good:
  "good env src l \<Longrightarrow> cursor_ok src l0 \<Longrightarrow> l_offset l0 \<le> l_offset l \<Longrightarrow>
     result_ok env src (block_comment_loop src (pos_of src l0) l)"
proof (induction src "pos_of src l0" l rule: block_comment_loop.induct)
  case (1 src l)
  note c = good_cursor [OF 1(4)]
  have le: "l_offset l0 \<le> l_offset (newline src l)" "l_offset l0 \<le> l_offset (advance src l)"
    "l_offset l0 \<le> l_offset (newline src (advance src l))"
    using 1(6) newline_le advance_le le_trans by blast+
  show ?case
  proof (cases "starts src ''*/'' l")
    case True
    have "moved src l (advance src (advance src l))"
      using starts_moved [OF c True] by (simp add: numeral_2_eq_2 is_ascii_def byte_def)
    then show ?thesis using True moved_good [OF 1(4)] by (simp add: block_comment_loop.simps [of src _ l])
  next
    case notend: False
    show ?thesis
    proof (cases "peek src l")
      case None
      then show ?thesis using notend error_ok_span [OF 1(5) c 1(6)] by (simp add: block_comment_loop.simps [of src _ l])
    next
      case (Some ch)
      note IH = 1(1) [OF notend Some] 1(2) [OF notend Some] 1(3) [OF notend Some]
      have adv: "good env src (advance src l)" if "ch \<noteq> [LF]"
        using moved_good [OF 1(4) moved_advance [OF c Some that]] .
      show ?thesis
        using notend Some error_at_ok [OF c] IH le 1(5) newline_good [OF 1(4)] crlf_good [OF 1(4)] adv
        by (auto simp: block_comment_loop.simps [of src _ l])
    qed
  qed
qed

lemma QUOTE_bytes: "byte QUOTE = 34" "byte BACKSLASH = 92" by (simp_all add: byte_def)

lemma escape_plain: "QUOTE \<notin> set s \<Longrightarrow> BACKSLASH \<notin> set s \<Longrightarrow> escape s = s"
  by (induction s) auto

lemma string_good:
  "good env src l0 \<Longrightarrow> moved src l0 l \<Longrightarrow> text_from src (l_offset l0) l = [QUOTE] @ escape v \<Longrightarrow>
     result_ok env src (string_loop env src (pos_of src l0) v l)"
proof (induction env src "pos_of src l0" v l rule: string_loop.induct)
  case (1 env src v l)
  note m = 1(5)
  have c: "cursor_ok src l" "l_offset l0 \<le> l_offset l" using m by (simp_all add: moved_def)
  note err = error_ok_span [OF good_cursor [OF 1(4)] c]
  show ?case
  proof (cases "peek src l")
    case None
    then show ?thesis using err by (simp add: string_loop.simps [of _ src _ _ l])
  next
    case (Some ch)
    have next_text: "text_from src (l_offset l0) (advance src l) = [QUOTE] @ escape v @ ch"
      using text_from_join [OF c(2) advance_le] text_from_advance [OF c(1) Some] 1(6) by simp
    have m1: "moved src l0 (advance src l)" if "ch \<noteq> [LF]"
      using moved_trans [OF m moved_advance [OF c(1) Some that]] .
    consider "ch = [LF] \<or> ch = [CR]" | "ch = [QUOTE]" | "ch = [BACKSLASH]"
      | "ch \<noteq> [LF]" "ch \<noteq> [CR]" "ch \<noteq> [QUOTE]" "ch \<noteq> [BACKSLASH]" by blast
    then show ?thesis
    proof cases
      case 1
      then show ?thesis using Some err by (auto simp: string_loop.simps [of _ src _ _ l])
    next
      case 2
      then have "good env src (push_token src (String v) (pos_of src l0) (advance src l))"
        using push_good [OF \<open>good env src l0\<close> m1] next_text by simp
      then show ?thesis using Some 2 by (simp add: string_loop.simps [of _ src _ _ l])
    next
      case 3
      note IH = 1(1,2) [OF Some]
      have m1': "moved src l0 (advance src l)" using m1 3 by simp
      then have c1: "cursor_ok src (advance src l)" "l_offset l0 \<le> l_offset (advance src l)" by (simp_all add: moved_def)
      show ?thesis
      proof (cases "peek src (advance src l)")
        case None
        then show ?thesis using Some 3 error_at_ok [OF c1(1)] by (simp add: string_loop.simps [of _ src _ _ l] Let_def)
      next
        case e: (Some e)
        have text2: "text_from src (l_offset l0) (advance src (advance src l)) = [QUOTE] @ escape v @ [BACKSLASH] @ e"
          using text_from_join [OF c1(2) advance_le] text_from_advance [OF c1(1) e] next_text 3 by simp
        have m2: "moved src l0 (advance src (advance src l))" if "e \<noteq> [LF]"
          using moved_trans [OF m1' moved_advance [OF c1(1) e that]] .
        have bad: "error_ok src (lex_error_at src (escape_unsupported env) (advance src (advance src l)))"
        proof (cases "e = [LF]")
          case True
          then show ?thesis using past_LF_advance [OF c1(1)] e
            by (simp add: error_ok_def lex_error_at_def span_from_def)
        next
          case False
          then show ?thesis using m2 error_at_ok by (simp add: moved_def)
        qed
        show ?thesis
        proof (cases "e = [QUOTE] \<or> e = [BACKSLASH]")
          case True
          then have "result_ok env src (string_loop env src (pos_of src l0) (v @ e) (advance src (advance src l)))"
            using IH [OF _ _ _ refl e] 3 m2 text2 \<open>good env src l0\<close> by auto
          then show ?thesis using Some 3 e True by (auto simp: string_loop.simps [of _ src _ _ l] Let_def)
        next
          case False
          then show ?thesis using Some 3 e bad by (simp add: string_loop.simps [of _ src _ _ l] Let_def)
        qed
      qed
    next
      case 4
      have "QUOTE \<notin> set ch" "BACKSLASH \<notin> set ch"
        using peek_ascii_member [OF c(1) Some] 4 QUOTE_bytes by force+
      then have "text_from src (l_offset l0) (advance src l) = [QUOTE] @ escape (v @ ch)"
        using next_text by (simp add: escape_plain)
      then show ?thesis using Some 4 err 1(3) [OF Some] m1 \<open>good env src l0\<close>
        by (auto simp: string_loop.simps [of _ src _ _ l])
    qed
  qed
qed

lemma number_good:
  assumes "good env src l"
  shows "result_ok env src (lex_number src l)"
proof -
  let ?q = "\<lambda>b. is_ascii_alphanumeric b \<or> b = CHR ''_'' \<or> b = CHR ''.''"
  have m: "moved src l (advance_while src (ascii_char ?q) l)"
    by (rule advance_while_moved [OF good_cursor [OF assms]])
       (simp add: ascii_char_def is_ascii_alphanumeric_def is_ascii_alphabetic_def is_ascii_digit_def LF_byte)
  then show ?thesis
    using push_good [OF assms m] error_ok_span [OF good_cursor [OF assms], of "advance_while src (ascii_char ?q) l"]
    by (simp add: lex_number_def Let_def moved_def)
qed

lemma identifier_good:
  assumes "good env src l" "peek src l = Some [b]" "is_identifier_start b"
  shows "good env src (lex_identifier env src l)"
proof -
  let ?l = "advance_while src (ascii_char is_identifier_continue) l"
  have LF: "\<not> is_identifier_continue LF"
    by (simp add: is_identifier_continue_def is_identifier_start_def is_ascii_alphabetic_def is_ascii_digit_def LF_byte)
  have m: "moved src l ?l"
    by (rule advance_while_moved [OF good_cursor [OF assms(1)]]) (simp add: ascii_char_def LF)
  have "is_identifier (text_from src (l_offset l) ?l)"
    using advance_while_text [where q = is_identifier_continue, OF good_cursor [OF assms(1)] LF]
      advance_while_head [where q = is_identifier_continue, OF good_cursor [OF assms(1)] assms(2) _ LF] assms(3)
    by (auto simp: is_identifier_def is_identifier_continue_def)
  then show ?thesis using push_good [OF assms(1) m]
    by (auto simp: lex_identifier_def Let_def special_float_literal_def)
qed

lemma symbols_plain: "(s, y) \<in> set (wide_symbols @ narrow_symbols) \<Longrightarrow> list_all is_ascii s \<and> LF \<notin> set s"
proof -
  have "list_all (\<lambda>(s, _). list_all is_ascii s \<and> LF \<notin> set s) (wide_symbols @ narrow_symbols)" by code_simp
  then show "(s, y) \<in> set (wide_symbols @ narrow_symbols) \<Longrightarrow> ?thesis" by (auto simp: list_all_iff)
qed

lemma symbol_good:
  assumes "good env src l" "peek src l = Some c" "c \<noteq> [LF]"
  shows "\<exists>r. lex_symbol src l = Done r \<and> result_ok env src r"
proof (cases "find (\<lambda>(s, _). starts src s l) wide_symbols")
  case (Some sy)
  obtain s y where sy: "sy = (s, y)" by fastforce
  then have s: "starts src s l" "(s, y) \<in> set wide_symbols" using wide_symbols_found Some by blast+
  then have "moved src l ((advance src ^^ length s) l) \<and> text_from src (l_offset l) ((advance src ^^ length s) l) = s"
    using starts_moved [OF good_cursor [OF assms(1)] s(1)] symbols_plain [of s y] by simp
  then have "good env src (push_token src (Symbol y) (pos_of src l) ((advance src ^^ length s) l))"
    using s(2) by (intro push_good assms(1)) (auto simp: symbol_text_def)
  then show ?thesis using Some sy by (simp add: lex_symbol_def Let_def)
next
  case None
  have m: "moved src l (advance src l)" by (rule moved_advance [OF good_cursor [OF assms(1)] assms(2,3)])
  have t: "text_from src (l_offset l) (advance src l) = c"
    by (rule text_from_advance [OF good_cursor [OF assms(1)] assms(2)])
  show ?thesis
  proof (cases "map_of narrow_symbols c")
    case n: None
    then show ?thesis using None assms(2) m error_ok_span [OF good_cursor [OF assms(1)], of "advance src l"]
      by (simp add: lex_symbol_def Let_def moved_def)
  next
    case (Some y)
    then have "good env src (push_token src (Symbol y) (pos_of src l) (advance src l))"
      using t by (intro push_good assms(1) m) (auto simp: symbol_text_def dest: map_of_SomeD)
    then show ?thesis using None Some assms(2) by (simp add: lex_symbol_def Let_def)
  qed
qed

lemma turn_good:
  assumes "good env src l" "peek src l = Some c"
  shows "\<exists>r. lex_turn env src c l = Done r \<and> result_ok env src r"
proof -
  note cur = good_cursor [OF assms(1)]
  have adv: "good env src (advance src l)" if "c \<noteq> [LF]"
    using moved_good [OF assms(1) moved_advance [OF cur assms(2) that]] .
  have lc: "good env src (line_comment src l)"
    unfolding line_comment_def by (rule moved_good [OF assms(1) advance_while_moved [OF cur]]) simp
  have bc: "result_ok env src (block_comment src l)" if "starts src ''/*'' l"
  proof -
    have m: "moved src l (advance src (advance src l))"
      using starts_moved [OF cur that] by (simp add: numeral_2_eq_2 is_ascii_def byte_def)
    then show ?thesis unfolding block_comment_def
      by (intro block_comment_good moved_good [OF assms(1)] cur) (simp_all add: moved_def)
  qed
  have st: "result_ok env src (lex_string env src l)" if "c = [QUOTE]"
    unfolding lex_string_def
    using that moved_advance [OF cur assms(2)] text_from_advance [OF cur assms(2)] by (intro string_good assms(1)) auto
  have id: "good env src (lex_identifier env src l)" if "ascii_char is_identifier_start c"
    using that identifier_good [OF assms(1)] assms(2) by (auto simp: ascii_char_def split: list.splits)
  consider "c = '' '' \<or> c = [TAB]" | "c = [LF]" | "c = [CR]" | "c \<noteq> [LF]" "c \<noteq> [CR]" "c \<noteq> '' ''" "c \<noteq> [TAB]" by blast
  then show ?thesis
  proof cases
    case 1
    then show ?thesis using adv by (auto simp: lex_turn_def)
  next
    case 2
    then show ?thesis using newline_good assms by (simp add: lex_turn_def)
  next
    case 3
    then show ?thesis using crlf_good [OF assms(1)] assms(2) error_at_ok [OF cur] by (auto simp: lex_turn_def)
  next
    case 4
    then show ?thesis using lc bc st number_good [OF assms(1)] error_at_ok [OF cur] id symbol_good [OF assms]
      by (simp add: lex_turn_def)
  qed
qed

lemma loop_good:
  "good env src l \<Longrightarrow> \<exists>r. lex_loop env src l = Done r \<and> result_ok env src r \<and>
     (\<forall>l'. r = Inr l' \<longrightarrow> peek src l' = None)"
proof (induction env src l rule: lex_loop.induct)
  case (1 env src l)
  show ?case
  proof (cases "peek src l")
    case None
    then show ?thesis using 1 by (simp add: lex_loop.simps [of env src l])
  next
    case (Some c)
    then obtain r where r: "lex_turn env src c l = Done r" "result_ok env src r" using turn_good [OF 1(2)] by blast
    show ?thesis
    proof (cases r)
      case (Inl e)
      then show ?thesis using r Some by (simp add: lex_loop.simps [of env src l])
    next
      case (Inr l')
      then show ?thesis using 1(1) [OF Some r(1) Inr] r Some by (simp add: lex_loop.simps [of env src l])
    qed
  qed
qed

lemma finish_ok:
  assumes "good env src l"
  shows "tokens_ok env src (length (src_text src)) (lex_finish src l) \<and>
    (\<exists>us e. lex_finish src l = us @ [e] \<and> t_kind e = Eof \<and> Eof \<notin> t_kind ` set us \<and>
       (us = [] \<or> t_kind (last us) = Newline))"
proof -
  define l1 where "l1 = (if l_tokens l \<noteq> [] \<and> t_kind (last (l_tokens l)) \<noteq> Newline
                then push_token src Newline (pos_of src l) l else l)"
  let ?e = "\<lparr>t_kind = Eof, t_span = span_from src (pos_of src l1) l1\<rparr>"
  have g: "good env src l1"
    using push_good [OF assms moved_refl [OF good_cursor [OF assms]], of Newline] assms
    by (simp add: l1_def text_from_def)
  then have off: "l_offset l1 \<le> length (src_text src)" by (simp add: good_def cursor_ok_alt)
  have "l_tokens l1 = [] \<or> t_kind (last (l_tokens l1)) = Newline"
    by (auto simp: l1_def push_token_def)
  moreover have f: "lex_finish src l = l_tokens l1 @ [?e]"
    by (simp add: lex_finish_def l1_def push_token_def Let_def)
  moreover have "token_ok env src ?e"
    using good_cursor [OF g] by (simp add: token_ok_def span_text_from text_from_def)
      (simp add: span_from_def cursor_ok_def exact_pos_def pos_of_def)
  moreover have "tokens_ok env src (length (src_text src)) (l_tokens l1)"
    using g off by (auto simp: good_def intro: tokens_ok_weaken)
  moreover have "in_order (l_tokens l1 @ [?e])" using g
    by (auto simp: good_def tokens_ok_def in_order_def sorted_wrt_append list_all_iff span_from_def pos_of_def)
  ultimately show ?thesis using g off
    by (auto simp: tokens_ok_def good_def span_from_def pos_of_def)
qed

lemma good_new: "valid_utf8 (src_text src) \<Longrightarrow> good env src lexer_new"
  by (simp add: good_def new_ok tokens_ok_def in_order_def) (simp add: lexer_new_def)

lemma lex_result:
  assumes "valid_utf8 (src_text src)"
  shows "(\<exists>e. lex_file env src = Done (Inl e) \<and> error_ok src e) \<or>
    (\<exists>l. lex_file env src = Done (Inr (lex_finish src l)) \<and> good env src l \<and> peek src l = None)"
proof -
  obtain r where r: "lex_loop env src lexer_new = Done r" "result_ok env src r" "\<forall>l'. r = Inr l' \<longrightarrow> peek src l' = None"
    using loop_good [OF good_new [OF assms]] by blast
  then show ?thesis by (cases r) (auto simp: lex_file_def)
qed

section \<open>Properties\<close>

abbreviation small_env :: lex_env where
  "small_env \<equiv> \<lparr>reserved_words = [''PRINT''], special_float_literals = [''NAN''], escape_unsupported = ''escape''\<rparr>"



text \<open>C8: the tokens are the text: each token's span is a piece of the text, on
  character boundaries, with its exact line and column, and that piece spells the token
  (a string literal with its escapes undone); the spans are disjoint and in
  order; and the list ends with exactly one end-of-file token, after a newline
  unless it is alone.\<close>

theorem lex_tokens_faithful:
  assumes "valid_utf8 (src_text src)" "lex_file env src = Done (Inr ts)"
  shows "tokens_ok env src (length (src_text src)) ts \<and>
    (\<exists>us e. ts = us @ [e] \<and> t_kind e = Eof \<and> Eof \<notin> t_kind ` set us \<and> (us = [] \<or> t_kind (last us) = Newline))"
  using lex_result [OF assms(1), of env] finish_ok assms(2) by auto

theorem lex_tokens_faithful_witness:
  "\<exists>ts. lex_file small_env (source_new ''m'' ''PRINT 0x1f'') = Done (Inr ts) \<and>
     map t_kind ts = [Keyword ''PRINT'', Integer ''0x1f'', Newline, Eof] \<and>
     tokens_ok small_env (source_new ''m'' ''PRINT 0x1f'') (length ''PRINT 0x1f'') ts"
proof -
  have v: "valid_utf8 (src_text (source_new ''m'' ''PRINT 0x1f''))" by code_simp
  have k: "case lex_file small_env (source_new ''m'' ''PRINT 0x1f'') of Done (Inr ts) \<Rightarrow>
      map t_kind ts = [Keyword ''PRINT'', Integer ''0x1f'', Newline, Eof] | _ \<Rightarrow> False" by code_simp
  then obtain ts where ts: "lex_file small_env (source_new ''m'' ''PRINT 0x1f'') = Done (Inr ts)"
    "map t_kind ts = [Keyword ''PRINT'', Integer ''0x1f'', Newline, Eof]"
    by (auto split: outcome.splits sum.splits)
  have tok: "tokens_ok small_env (source_new ''m'' ''PRINT 0x1f'') (length ''PRINT 0x1f'') ts"
    using lex_tokens_faithful [OF v ts(1), THEN conjunct1] unfolding source_new_def source_file.simps .
  show ?thesis by (rule exI [of _ ts]) (intro conjI ts tok)
qed

text \<open>The value of an integer literal, by Horner's rule in the base its prefix names.\<close>

definition hex_digit :: "char \<Rightarrow> nat" where
  "hex_digit c = (if byte c \<le> 57 then byte c - 48 else if byte c \<le> 70 then byte c - 55 else byte c - 87)"

definition literal_value :: "str \<Rightarrow> nat" where
  "literal_value v =
     (let (radix, digits) = (if take 2 v = ''0b'' then (2, drop 2 v) else if take 2 v = ''0x'' then (16, drop 2 v) else (10, v))
      in foldl (\<lambda>n c. n * radix + hex_digit c) 0 digits)"

lemma radix_value_digits:
  "list_all (\<lambda>c. radix_digit radix c = Some (hex_digit c)) s \<Longrightarrow>
     radix_value radix n s = Some (foldl (\<lambda>n c. n * radix + hex_digit c) n s)"
  by (induction s arbitrary: n) auto

lemma radix_digits:
  "is_ascii_digit c \<Longrightarrow> radix_digit 10 c = Some (hex_digit c)"
  "is_ascii_hexdigit c \<Longrightarrow> radix_digit 16 c = Some (hex_digit c)"
  "c = CHR ''0'' \<or> c = CHR ''1'' \<Longrightarrow> radix_digit 2 c = Some (hex_digit c)"
  by (auto simp: radix_digit_def hex_digit_def is_ascii_digit_def is_ascii_hexdigit_def Let_def byte_def)

lemma from_str_radix_digits:
  assumes "list_all (\<lambda>c. radix_digit radix c = Some (hex_digit c)) s" "s \<noteq> []" "radix \<le> 16"
  shows "from_str_radix radix s = try_fit i128_ok (int (foldl (\<lambda>n c. n * radix + hex_digit c) 0 s))"
proof -
  obtain c r where s: "s = c # r" using assms(2) by (cases s) auto
  have "radix_digit radix (CHR ''-'') = None" "radix_digit radix (CHR ''+'') = None"
    using assms(3) by (auto simp: radix_digit_def byte_def)
  then have "c \<noteq> CHR ''-''" "c \<noteq> CHR ''+''" using assms(1) by (auto simp: s)
  then show ?thesis using radix_value_digits [OF assms(1), of 0] by (simp add: from_str_radix_def s)
qed

lemma decimal_digits:
  "is_decimal_loop dots digits s \<Longrightarrow> CHR ''.'' \<notin> set s \<Longrightarrow> list_all is_ascii_digit s \<and> (digits = 0 \<longrightarrow> s \<noteq> [])"
proof (induction s arbitrary: dots digits)
  case (Cons b s)
  then have "is_ascii_digit b" "is_decimal_loop dots (digits + 1) s" by (auto split: if_splits)
  then show ?case using Cons.IH Cons.prems(2) by auto
qed simp

lemma valid_integer_parses:
  assumes "valid_number v" "CHR ''.'' \<notin> set v"
  shows "parse_integer v = try_fit i128_ok (int (literal_value v))"
proof -
  consider (bin) d where "v = ''0b'' @ d" "d \<noteq> []" "list_all (\<lambda>d. d = CHR ''0'' \<or> d = CHR ''1'') d"
    | (hex) d where "v = ''0x'' @ d" "d \<noteq> []" "list_all is_ascii_hexdigit d"
    | (dec) "v \<noteq> []" "list_all is_ascii_digit v"
    using assms decimal_digits [of 0 0 v]
    by (auto simp: valid_number_def is_decimal_def strip_prefix_eq_Some split: option.splits)
  then show ?thesis
  proof cases
    case bin
    then show ?thesis using from_str_radix_digits [of 2 d] radix_digits(3)
      by (simp add: parse_integer_def literal_value_def strip_prefix_def list_all_iff)
  next
    case hex
    then show ?thesis using from_str_radix_digits [of 16 d] radix_digits(2)
      by (simp add: parse_integer_def literal_value_def strip_prefix_def list_all_iff)
  next
    case dec
    then have "from_str_radix 10 v = try_fit i128_ok (int (foldl (\<lambda>n c. n * 10 + hex_digit c) 0 v))"
      using from_str_radix_digits [of 10 v] radix_digits(1) by (simp add: list_all_iff)
    then show ?thesis using no_radix_prefix [OF dec(2)]
      by (auto simp: parse_integer_def literal_value_def strip_prefix_def numeral_2_eq_2 split: if_splits)
  qed
qed

text \<open>Every integer token reads back as a number: \<open>parse_integer\<close> gives the value
  of its digits in the base of its prefix, and fails only where that value is
  past the largest \<open>i128\<close>.\<close>

theorem integer_tokens_parse:
  assumes "valid_utf8 (src_text src)" "lex_file env src = Done (Inr ts)" "t \<in> set ts" "t_kind t = Integer v"
  shows "parse_integer v = (if literal_value v < 2 ^ 127 then Some (int (literal_value v)) else None)"
proof -
  have "tokens_ok env src (length (src_text src)) ts" using lex_result [OF assms(1), of env] finish_ok assms(2) by auto
  then have "spelled env (Integer v) (span_text src (t_span t))"
    using assms(3,4) by (force simp: tokens_ok_def list_all_iff token_ok_def)
  then show ?thesis using valid_integer_parses [of v] by (auto simp: try_fit_def i128_ok_def)
qed

theorem integer_tokens_parse_witness: "parse_integer ''0x1f'' = Some 31"
proof -
  have v: "valid_utf8 (src_text (source_new ''m'' ''0x1f''))" by code_simp
  have k: "case lex_file small_env (source_new ''m'' ''0x1f'') of Done (Inr ts) \<Rightarrow>
      map t_kind ts = [Integer ''0x1f'', Newline, Eof] | _ \<Rightarrow> False" by code_simp
  then obtain ts where ts: "lex_file small_env (source_new ''m'' ''0x1f'') = Done (Inr ts)"
    "map t_kind ts = [Integer ''0x1f'', Newline, Eof]"
    by (auto split: outcome.splits sum.splits)
  then obtain t where "t \<in> set ts" "t_kind t = Integer ''0x1f''" by (cases ts) auto
  moreover have "literal_value ''0x1f'' = 31" by code_simp
  ultimately show ?thesis using integer_tokens_parse [OF v ts(1)] by simp
qed

end
