(* ===== verification/BN_Pointer_Test.thy ===== *)
theory BN_Pointer_Test
  imports BN_Types
begin

text \<open>
  The \<open>IS POINTER TO\<close> tests of \<open>crates/bn_types/src/pointers.rs\<close>: the text of a
  test is compacted and parsed, and then decided from what the allocation
  holds. Texts are UTF-8 bytes, walked by characters where the code does.
\<close>

section \<open>Definitions\<close>

record pointer_is_test =
  pt_void :: bool
  pt_element :: bn_type
  pt_length :: pointer_length

text \<open>\<open>str::replace\<close> of a non-empty pattern: every match from the left.\<close>

function replace_all :: "str \<Rightarrow> str \<Rightarrow> str \<Rightarrow> str" where
  "replace_all pat new [] = []"
| "replace_all pat new (c # s) =
     (if pat \<noteq> [] \<and> take (length pat) (c # s) = pat
      then new @ replace_all pat new (drop (length pat) (c # s)) else c # replace_all pat new s)"
  by pat_completeness auto
termination
proof (relation "measure (\<lambda>(pat, new, s). length s)", goal_cases)
  case (2 pat new c s)
  then show ?case by (cases pat) auto
qed simp_all

text \<open>\<open>char::is_whitespace\<close>: the property White_Space, by the UTF-8 bytes of its
  characters.\<close>

definition is_whitespace :: "str \<Rightarrow> bool" where
  "is_whitespace c \<longleftrightarrow>
     (case map byte c of
        [a] \<Rightarrow> 9 \<le> a \<and> a \<le> 13 \<or> a = 32
      | [a, b] \<Rightarrow> a = 0xC2 \<and> (b = 0x85 \<or> b = 0xA0)
      | [a, b, d] \<Rightarrow>
          a = 0xE1 \<and> b = 0x9A \<and> d = 0x80 \<or>
          a = 0xE2 \<and> b = 0x80 \<and> (0x80 \<le> d \<and> d \<le> 0x8A \<or> d = 0xA8 \<or> d = 0xA9 \<or> d = 0xAF) \<or>
          a = 0xE2 \<and> b = 0x81 \<and> d = 0x9F \<or> a = 0xE3 \<and> b = 0x80 \<and> d = 0x80
      | _ \<Rightarrow> False)"

definition is_bracket :: "str option \<Rightarrow> bool" where
  "is_bracket c \<longleftrightarrow> c = Some ''['' \<or> c = Some '']''"

fun compact_loop :: "str option \<Rightarrow> str list \<Rightarrow> str \<Rightarrow> str" where
  "compact_loop previous [] compact = compact"
| "compact_loop previous (c # cs) compact =
     (if is_whitespace c then
        if is_bracket previous \<or> is_bracket (find (\<lambda>d. \<not> is_whitespace d) cs) \<or> ends_with '' '' compact
        then compact_loop previous cs compact
        else compact_loop previous cs (compact @ '' '')
      else compact_loop (Some c) cs (compact @ c))"

definition compact_pointer_test :: "str \<Rightarrow> str" where
  "compact_pointer_test test =
     compact_loop None (chars (replace_all ''RightBracket'' '']'' (replace_all ''LeftBracket'' ''['' test))) ''''"

text \<open>\<open>str::rsplit_once\<close> at a byte.\<close>

definition rsplit_once :: "char \<Rightarrow> str \<Rightarrow> (str \<times> str) option" where
  "rsplit_once c s =
     (if c \<in> set s
      then let tail = rev (takeWhile (\<lambda>b. b \<noteq> c) (rev s)) in Some (take (length s - length tail - 1) s, tail)
      else None)"

definition pointer_name_length :: "str \<Rightarrow> (str \<times> pointer_length) option" where
  "pointer_name_length r =
     (case strip_suffix ''[]'' r of
        Some name \<Rightarrow> Some (name, LenDynamic)
      | None \<Rightarrow>
          (case rsplit_once (CHR ''['') r of
             None \<Rightarrow> Some (r, LenOne)
           | Some (name, bracket) \<Rightarrow>
               (case strip_suffix '']'' bracket of
                  None \<Rightarrow> None
                | Some number \<Rightarrow>
                    if name \<noteq> [] \<and> number \<noteq> [] \<and> list_all is_ascii_digit number
                    then map_option (\<lambda>n. (name, LenFixed n)) (parse_unsigned u64_ok number)
                    else None)))"

definition parse_pointer_is :: "str \<Rightarrow> pointer_is_test option" where
  "parse_pointer_is test =
     (case Option.bind (strip_prefix ''POINTER'' (compact_pointer_test test)) (strip_prefix '' TO '') of
        None \<Rightarrow> None
      | Some r \<Rightarrow>
          if r = [] then None
          else if r = ''VOID'' then Some \<lparr>pt_void = True, pt_element = TNamed ''VOID'', pt_length = LenDynamic\<rparr>
          else case pointer_name_length r of
            None \<Rightarrow> None
          | Some (name, len) \<Rightarrow>
              if name = [] then None
              else Some \<lparr>pt_void = False,
                pt_element = (case scalar_test_type name of Some ty \<Rightarrow> ty | None \<Rightarrow> TNamed name), pt_length = len\<rparr>)"

definition pointer_is_holds :: "int \<Rightarrow> int \<Rightarrow> str \<Rightarrow> bool option" where
  "pointer_is_holds from_code from_len test =
     (case parse_pointer_is test of
        None \<Rightarrow> None
      | Some spec \<Rightarrow>
          if pt_void spec then Some True
          else
            let to_code = (case member_code (pt_element spec) of Some c \<Rightarrow> c | None \<Rightarrow> 0xFFFFFFFF);
                to_len = (case pt_length spec of LenFixed n \<Rightarrow> Some n | LenOne \<Rightarrow> Some 1 | LenDynamic \<Rightarrow> None)
            in Some (check_restore from_code from_len to_code to_len = RestoreOk))"

definition elements_match :: "bn_type \<Rightarrow> pointer_is_test \<Rightarrow> bool" where
  "elements_match element spec \<longleftrightarrow>
     (if element = pt_element spec then True
      else
        let name_matches = (\<lambda>test_name.
          case element of
            TImportedNamed m name \<Rightarrow> import_test_matches m name test_name
          | TImportedTypeName m name \<Rightarrow> import_test_matches m name test_name
          | _ \<Rightarrow> False)
        in case pt_element spec of
          TNamed n \<Rightarrow> name_matches n
        | TTypeName n \<Rightarrow> name_matches n
        | _ \<Rightarrow> False)"

definition pointer_member_matches :: "bn_type \<Rightarrow> str \<Rightarrow> bool" where
  "pointer_member_matches member test \<longleftrightarrow>
     (case member of
        TPointer element len \<Rightarrow>
          (case parse_pointer_is test of
             None \<Rightarrow> False
           | Some spec \<Rightarrow>
               if pt_void spec then element = TNamed ''VOID''
               else len = pt_length spec \<and> elements_match element spec)
      | _ \<Rightarrow> False)"

definition pointer_element_matches :: "bn_type \<Rightarrow> str \<Rightarrow> bool" where
  "pointer_element_matches member test \<longleftrightarrow>
     (case member of
        TPointer element len \<Rightarrow>
          (case parse_pointer_is test of
             None \<Rightarrow> False
           | Some spec \<Rightarrow> \<not> pt_void spec \<and> elements_match element spec)
      | _ \<Rightarrow> False)"

section \<open>Reading a test back\<close>

definition upper_word :: "str \<Rightarrow> bool" where
  "upper_word s \<longleftrightarrow> s \<noteq> [] \<and> list_all (\<lambda>b. 65 \<le> byte b \<and> byte b \<le> 90 \<or> is_ascii_digit b) s"

text \<open>A text without one of the bytes of the pattern is left alone.\<close>

lemma replace_all_none: "x \<in> set pat \<Longrightarrow> x \<notin> set s \<Longrightarrow> replace_all pat new s = s"
proof (induction pat new s rule: replace_all.induct)
  case (2 pat new c s)
  have "take (length pat) (c # s) \<noteq> pat" using 2(3,4) set_take_subset [of "length pat" "c # s"] by auto
  then show ?case using 2 by simp
qed simp

definition plain_byte :: "char \<Rightarrow> bool" where
  "plain_byte b \<longleftrightarrow> is_ascii b \<and> \<not> is_whitespace [b] \<and> b \<noteq> CHR ''t''"

lemma compact_plain:
  "list_all plain_byte s \<Longrightarrow>
   compact_loop prev (map (\<lambda>b. [b]) s @ cs) acc = compact_loop (if s = [] then prev else Some [last s]) cs (acc @ s)"
  by (induction s arbitrary: prev acc) (simp_all add: plain_byte_def)

lemma compact_space:
  assumes "\<not> is_bracket prev" "\<not> is_whitespace c" "c \<noteq> ''[''" "c \<noteq> '']''" "\<not> ends_with '' '' acc"
  shows "compact_loop prev ('' '' # c # cs) acc = compact_loop prev (c # cs) (acc @ '' '')"
  using assms by (simp add: is_whitespace_def is_bracket_def byte_def)

lemma ends_with_byte: "ends_with [x] (s @ [y]) \<longleftrightarrow> x = y"
  by (auto simp: ends_with_def)

lemma compact_pointer:
  assumes "list_all plain_byte (b # s)" "b \<noteq> CHR ''[''" "b \<noteq> CHR '']''"
  shows "compact_pointer_test (''POINTER TO '' @ b # s) = ''POINTER TO '' @ b # s"
proof -
  let ?t = "''POINTER TO '' @ b # s"
  have "CHR ''t'' \<notin> set (b # s)" using assms(1) by (auto simp: list_all_iff plain_byte_def)
  then have t: "CHR ''t'' \<notin> set ?t" by auto
  have "replace_all ''LeftBracket'' ''['' ?t = ?t" "replace_all ''RightBracket'' '']'' ?t = ?t"
    by (rule replace_all_none [OF _ t], simp)+
  then have r: "replace_all ''RightBracket'' '']'' (replace_all ''LeftBracket'' ''['' ?t) = ?t" by metis
  have w: "list_all plain_byte ''POINTER''" "list_all plain_byte ''TO''" by code_simp+
  have "list_all is_ascii ?t" using assms(1) by (auto simp: list_all_iff plain_byte_def is_ascii_def byte_def)
  then have "chars ?t = map (\<lambda>b. [b]) ''POINTER'' @ '' '' # map (\<lambda>b. [b]) ''TO'' @ '' '' # map (\<lambda>b. [b]) (b # s)"
    by (subst chars_ascii) simp_all
  then have "compact_pointer_test ?t =
      compact_loop None (map (\<lambda>b. [b]) ''POINTER'' @ '' '' # map (\<lambda>b. [b]) ''TO'' @ '' '' # map (\<lambda>b. [b]) (b # s)) ''''"
    unfolding compact_pointer_test_def r by simp
  also have "\<dots> = compact_loop (Some ''R'') ('' '' # ''T'' # ''O'' # '' '' # map (\<lambda>b. [b]) (b # s)) ''POINTER''"
    by (subst compact_plain [OF w(1)]) simp
  also have "\<dots> = compact_loop (Some ''R'') (''T'' # ''O'' # '' '' # map (\<lambda>b. [b]) (b # s)) ''POINTER ''"
    by (subst compact_space) (simp_all add: is_bracket_def is_whitespace_def byte_def ends_with_def)
  also have "\<dots> = compact_loop (Some ''O'') ('' '' # [b] # map (\<lambda>b. [b]) s) ''POINTER TO''"
    using compact_plain [OF w(2), of "Some ''R''" "'' '' # [b] # map (\<lambda>b. [b]) s" "''POINTER ''"] by simp
  also have "\<dots> = compact_loop (Some ''O'') (map (\<lambda>b. [b]) (b # s)) ''POINTER TO ''"
    by (subst compact_space) (use assms in \<open>simp_all add: is_bracket_def plain_byte_def ends_with_def\<close>)
  also have "\<dots> = ?t" using compact_plain [OF assms(1), of "Some ''O''" "[]" "''POINTER TO ''"] by simp
  finally show ?thesis .
qed

lemma upper_plain: "list_all (\<lambda>b. 65 \<le> byte b \<and> byte b \<le> 90 \<or> is_ascii_digit b) s \<Longrightarrow> list_all plain_byte s"
  by (auto simp: list_all_iff plain_byte_def is_ascii_def is_ascii_digit_def is_whitespace_def byte_def)

lemma digits_plain: "list_all is_ascii_digit s \<Longrightarrow> list_all plain_byte s"
  by (rule upper_plain) (auto simp: list_all_iff)

lemma parse_pointer_of:
  assumes name: "upper_word name" "r = name @ tail" "list_all plain_byte tail" "r \<noteq> ''VOID''"
    and parts: "pointer_name_length r = Some (name, len)"
  shows "parse_pointer_is (''POINTER TO '' @ r) = Some \<lparr>pt_void = False,
    pt_element = (case scalar_test_type name of Some ty \<Rightarrow> ty | None \<Rightarrow> TNamed name), pt_length = len\<rparr>"
proof -
  obtain b s where b: "name = b # s" using name(1) by (cases name) (auto simp: upper_word_def)
  have "list_all plain_byte (b # s @ tail)" using name(1,3) upper_plain [of "b # s"] b by (simp add: upper_word_def)
  moreover have "b \<noteq> CHR ''[''" "b \<noteq> CHR '']''" using name(1) b by (auto simp: upper_word_def is_ascii_digit_def byte_def)
  ultimately have "compact_pointer_test (''POINTER TO '' @ r) = ''POINTER TO '' @ r"
    using compact_pointer [of b "s @ tail"] b name(2) by simp
  then show ?thesis using parts name(4) b name(2)
    by (simp add: parse_pointer_is_def strip_prefix_def split: option.split)
qed

lemma upper_no_bracket: "upper_word name \<Longrightarrow> CHR ''['' \<notin> set name \<and> CHR '']'' \<notin> set name"
  by (auto simp: upper_word_def list_all_iff is_ascii_digit_def byte_def)

lemma takeWhile_none: "x \<notin> set s \<Longrightarrow> takeWhile (\<lambda>b. b \<noteq> x) (s @ x # t) = s"
  by (induction s) auto

lemma rsplit_once_at: "c \<notin> set t \<Longrightarrow> rsplit_once c (s @ c # t) = Some (s, t)"
  using takeWhile_none [of c "rev t" "rev s"] by (simp add: rsplit_once_def Let_def)

section \<open>Properties\<close>

text \<open>The text of a pointer test names its type: for a type name of upper-case letters
  and digits, \<open>POINTER TO name\<close>, with \<open>[]\<close> and with \<open>[n]\<close>, parse to that type with the
  length one, any and \<open>n\<close>, so the test holds of an allocation exactly when the element
  code is that of the type and the length is as named.\<close>

theorem pointer_test_names_type:
  assumes "upper_word name" "name \<noteq> ''VOID''" "u64_ok n"
  defines "ty \<equiv> (case scalar_test_type name of Some t \<Rightarrow> t | None \<Rightarrow> TNamed name)"
  shows "parse_pointer_is (''POINTER TO '' @ name) = Some \<lparr>pt_void = False, pt_element = ty, pt_length = LenOne\<rparr> \<and>
    parse_pointer_is (''POINTER TO '' @ name @ ''[]'') = Some \<lparr>pt_void = False, pt_element = ty, pt_length = LenDynamic\<rparr> \<and>
    parse_pointer_is (''POINTER TO '' @ name @ ''['' @ show_nat (nat n) @ '']'') =
      Some \<lparr>pt_void = False, pt_element = ty, pt_length = LenFixed n\<rparr> \<and>
    pointer_is_holds code len (''POINTER TO '' @ name @ ''['' @ show_nat (nat n) @ '']'') =
      Some (code = (case member_code ty of Some c \<Rightarrow> c | None \<Rightarrow> 0xFFFFFFFF) \<and> len = n)"
proof -
  note nb = upper_no_bracket [OF assms(1)]
  have ne: "name \<noteq> []" using assms(1) by (simp add: upper_word_def)
  have br: "plain_byte (CHR ''['')" "plain_byte (CHR '']'')" by code_simp+
  have lst: "last name \<noteq> CHR '']''" using nb ne last_in_set by metis
  have one: "pointer_name_length name = Some (name, LenOne)"
    using nb by (auto simp: pointer_name_length_def strip_suffix_eq_Some rsplit_once_def split: option.splits)
  have dyn: "pointer_name_length (name @ ''[]'') = Some (name, LenDynamic)"
    by (simp add: pointer_name_length_def)
  let ?num = "show_nat (nat n)"
  have num: "list_all is_ascii_digit ?num" "CHR ''['' \<notin> set ?num"
    using show_nat_digits [of "nat n"] by (auto simp: list_all_iff is_ascii_digit_def byte_def)
  obtain ds d where d: "?num = ds @ [d]" by (metis rev_exhaust show_nat_nonempty)
  then have "is_ascii_digit d" using num(1) by simp
  then have nosuffix: "strip_suffix ''[]'' (name @ ''['' @ ?num @ '']'') = None"
    by (auto simp: strip_suffix_def d is_ascii_digit_def byte_def)
  have "parse_unsigned u64_ok ?num = Some n"
    using assms(3) num(1) by (simp add: parse_unsigned_digits try_fit_def u64_ok_def)
  then have sized: "pointer_name_length (name @ ''['' @ ?num @ '']'') = Some (name, LenFixed n)"
    using nosuffix rsplit_once_at [of "CHR ''[''" "?num @ '']''" name] num ne
    by (simp add: pointer_name_length_def)
  have p3: "parse_pointer_is (''POINTER TO '' @ name @ ''['' @ ?num @ '']'') =
      Some \<lparr>pt_void = False, pt_element = ty, pt_length = LenFixed n\<rparr>"
    unfolding ty_def by (rule parse_pointer_of [OF assms(1) refl _ _ sized])
      (use br digits_plain [OF num(1)] in \<open>auto simp: append_eq_Cons_conv\<close>)
  have p1: "parse_pointer_is (''POINTER TO '' @ name) = Some \<lparr>pt_void = False, pt_element = ty, pt_length = LenOne\<rparr>"
    unfolding ty_def using parse_pointer_of [OF assms(1) _ _ assms(2) one, of "[]"] by simp
  have p2: "parse_pointer_is (''POINTER TO '' @ name @ ''[]'') = Some \<lparr>pt_void = False, pt_element = ty, pt_length = LenDynamic\<rparr>"
    unfolding ty_def by (rule parse_pointer_of [OF assms(1) refl _ _ dyn])
      (use br in \<open>auto simp: append_eq_Cons_conv\<close>)
  from p1 p2 p3 show ?thesis by (simp add: pointer_is_holds_def check_restore_def split: option.splits)
qed

theorem pointer_test_names_type_witness:
  "pointer_is_holds 4 3 (''POINTER TO '' @ ''INTEGER'' @ ''['' @ show_nat (nat 3) @ '']'') = Some True"
proof -
  have "upper_word ''INTEGER''" by code_simp
  then show ?thesis using pointer_test_names_type [of "''INTEGER''" 3 4 3]
    by (simp add: u64_ok_def scalar_test_type_def)
qed

end
