(* ===== verification/BN_Compare.thy ===== *)
theory BN_Compare
  imports BN_Value BN_Class_Model BN_Pointer_Test
begin

text \<open>
  Equality and type tests of runtime values: \<open>crates/bn_interp/src/compare.rs\<close>. A
  \<open>FLOAT\<close> is the bits of its \<open>f64\<close>: classification and comparison are read off the
  bits; the conversion of an integer is an argument (\<open>as f64\<close>). Texts of the
  message catalogue are the argument \<open>cat\<close>.
\<close>

unbundle bit_operations_syntax

section \<open>Floating-point bits\<close>

definition f64_exponent :: "64 word \<Rightarrow> 64 word" where
  "f64_exponent w = drop_bit 52 w AND 0x7ff"

definition f64_mantissa :: "64 word \<Rightarrow> 64 word" where
  "f64_mantissa w = w AND 0xfffffffffffff"

definition f64_is_nan :: "64 word \<Rightarrow> bool" where
  "f64_is_nan w \<longleftrightarrow> f64_exponent w = 0x7ff \<and> f64_mantissa w \<noteq> 0"

definition f64_is_infinite :: "64 word \<Rightarrow> bool" where
  "f64_is_infinite w \<longleftrightarrow> f64_exponent w = 0x7ff \<and> f64_mantissa w = 0"

definition f64_is_finite :: "64 word \<Rightarrow> bool" where
  "f64_is_finite w \<longleftrightarrow> f64_exponent w \<noteq> 0x7ff"

definition f64_INFINITY :: "64 word" where "f64_INFINITY = 0x7ff0000000000000"
definition f64_NEG_INFINITY :: "64 word" where "f64_NEG_INFINITY = 0xfff0000000000000"

text \<open>Sign and magnitude: the order of the numbers that are not NaN, both zeros
  alike.\<close>

definition f64_key :: "64 word \<Rightarrow> int" where
  "f64_key w = (let m = uint (w AND 0x7fffffffffffffff) in if w AND 0x8000000000000000 = 0 then m else - m)"

definition f64_eq :: "64 word \<Rightarrow> 64 word \<Rightarrow> bool" where
  "f64_eq a b \<longleftrightarrow> \<not> f64_is_nan a \<and> \<not> f64_is_nan b \<and> f64_key a = f64_key b"

definition f64_lt :: "64 word \<Rightarrow> 64 word \<Rightarrow> bool" where
  "f64_lt a b \<longleftrightarrow> \<not> f64_is_nan a \<and> \<not> f64_is_nan b \<and> f64_key a < f64_key b"

definition f64_le :: "64 word \<Rightarrow> 64 word \<Rightarrow> bool" where
  "f64_le a b \<longleftrightarrow> \<not> f64_is_nan a \<and> \<not> f64_is_nan b \<and> f64_key a \<le> f64_key b"

section \<open>Equality\<close>

fun equals :: "(int \<Rightarrow> 64 word) \<Rightarrow> bn_value \<Rightarrow> bn_value \<Rightarrow> bool"
  and equals_all :: "(int \<Rightarrow> 64 word) \<Rightarrow> bn_value list \<Rightarrow> bn_value list \<Rightarrow> bool" where
  "equals as_f64 (VInteger a _) v \<longleftrightarrow>
     (case v of VInteger b _ \<Rightarrow> a = b | VFloat b _ \<Rightarrow> f64_eq (as_f64 a) b | _ \<Rightarrow> False)"
| "equals as_f64 (VFloat a _) v \<longleftrightarrow>
     (case v of VFloat b _ \<Rightarrow> f64_eq a b | VInteger b _ \<Rightarrow> f64_eq a (as_f64 b) | _ \<Rightarrow> False)"
| "equals as_f64 (VBoolean a) v \<longleftrightarrow> (case v of VBoolean b \<Rightarrow> a = b | _ \<Rightarrow> False)"
| "equals as_f64 (VString a) v \<longleftrightarrow> (case v of VString b \<Rightarrow> a = b | _ \<Rightarrow> False)"
| "equals as_f64 (VFunction a) v \<longleftrightarrow> (case v of VFunction b \<Rightarrow> a = b | _ \<Rightarrow> False)"
| "equals as_f64 (VHandle a) v \<longleftrightarrow> (case v of VHandle b \<Rightarrow> a = b | _ \<Rightarrow> False)"
| "equals as_f64 (VFile a) v \<longleftrightarrow> (case v of VFile b \<Rightarrow> a = b | _ \<Rightarrow> False)"
| "equals as_f64 (VDataFrame a) v \<longleftrightarrow> (case v of VDataFrame b \<Rightarrow> a = b | _ \<Rightarrow> False)"
| "equals as_f64 (VDate a) v \<longleftrightarrow> (case v of VDate b \<Rightarrow> a = b | _ \<Rightarrow> False)"
| "equals as_f64 (VTime a) v \<longleftrightarrow> (case v of VTime b \<Rightarrow> a = b | _ \<Rightarrow> False)"
| "equals as_f64 (VTimeZone a) v \<longleftrightarrow> (case v of VTimeZone b \<Rightarrow> a = b | _ \<Rightarrow> False)"
| "equals as_f64 VNull v \<longleftrightarrow> v = VNull"
| "equals as_f64 VNotAvailable v \<longleftrightarrow> v = VNotAvailable"
| "equals as_f64 VEndOfFile v \<longleftrightarrow> v = VEndOfFile"
| "equals as_f64 VHostConsole v \<longleftrightarrow> v = VHostConsole"
| "equals as_f64 (VError code message _) v \<longleftrightarrow>
     (case v of VError code' message' _ \<Rightarrow> code = code' \<and> message = message' | _ \<Rightarrow> False)"
| "equals as_f64 (VObject a _) v \<longleftrightarrow> (case v of VObject b _ \<Rightarrow> a = b | _ \<Rightarrow> False)"
| "equals as_f64 (VPointer a _) v \<longleftrightarrow> (case v of VPointer b _ \<Rightarrow> a = b | _ \<Rightarrow> False)"
| "equals as_f64 (VRecord (RecordValue n fs)) v \<longleftrightarrow>
     (case v of VRecord r \<Rightarrow> n = type_name r \<and> length fs = record_len r \<and> equals_all as_f64 fs (record_fields r) | _ \<Rightarrow> False)"
| "equals as_f64 (VVector a) v \<longleftrightarrow>
     (case v of VVector b \<Rightarrow> length a = length b \<and> equals_all as_f64 a b | _ \<Rightarrow> False)"
| "equals as_f64 _ v \<longleftrightarrow> False"
| "equals_all as_f64 [] bs \<longleftrightarrow> True"
| "equals_all as_f64 (a # as) bs \<longleftrightarrow>
     (case bs of [] \<Rightarrow> True | b # bs' \<Rightarrow> equals as_f64 a b \<and> equals_all as_f64 as bs')"

section \<open>Type tests\<close>

text \<open>\<open>rsplit('.').next()\<close>.\<close>

definition last_part :: "str \<Rightarrow> str" where
  "last_part s = rev (takeWhile (\<lambda>b. b \<noteq> CHR ''.'') (rev s))"

definition starts_with :: "str \<Rightarrow> str \<Rightarrow> bool" where
  "starts_with p s \<longleftrightarrow> take (length p) s = p"

definition is_host_file_type :: "str \<Rightarrow> bool" where
  "is_host_file_type name \<longleftrightarrow> name = ''FS.File'' \<or> ends_with ''.File'' name \<and> \<not> starts_with ''#'' name"

definition is_host_file_method :: "str \<Rightarrow> bool" where
  "is_host_file_method name \<longleftrightarrow>
     (case rsplit_once (CHR ''.'') name of
        None \<Rightarrow> False
      | Some (owner, method) \<Rightarrow>
          is_host_file_type owner \<and>
          method \<in> {''Close'', ''ReadLine'', ''ReadAll'', ''Write'', ''ReadBytes'', ''WriteBytes'', ''WriteLine''})"

text \<open>The arm for the name of a class, record or library value.\<close>

definition is_named_value :: "(str \<Rightarrow> str \<Rightarrow> str) \<Rightarrow> class_model \<Rightarrow> str \<Rightarrow> bn_value \<Rightarrow> bool" where
  "is_named_value cat classes test v \<longleftrightarrow>
     (case v of
        VFile _ \<Rightarrow> is_host_file_type test
      | VDataFrame _ \<Rightarrow> test = ''DataFrame'' \<or> ends_with ''.DataFrame'' test \<and> \<not> starts_with ''#'' test
      | VLogFields _ \<Rightarrow> test = ''BNLog.Fields'' \<or> test = ''Fields''
      | VLogEntry _ \<Rightarrow> test = ''BNLog.Entry'' \<or> test = ''Entry''
      | VLogLogger _ \<Rightarrow> test = ''BNLog.Logger'' \<or> test = ''Logger''
      | VJson _ \<Rightarrow> test = ''BNJson.Json'' \<or> test = ''Json''
      | VCryptoBytes _ \<Rightarrow> test = cat ''modules'' ''type.crypto_bytes'' \<or> test = ''Bytes'' \<or>
          test = cat ''modules'' ''type.compress_bytes''
      | VCryptoKey _ \<Rightarrow> test = cat ''modules'' ''type.crypto_key'' \<or> test = ''Key''
      | VCompressBytes _ \<Rightarrow> test = cat ''modules'' ''type.compress_bytes'' \<or> test = ''Bytes'' \<or>
          test = cat ''modules'' ''type.crypto_bytes''
      | VCompressZip _ \<Rightarrow> test = cat ''modules'' ''type.compress_zip_archive'' \<or> test = ''ZipArchive''
      | VDispatchQueue _ \<Rightarrow> test = ''BNDispatch.Queue'' \<or> test = ''Queue''
      | VDispatchTicket _ \<Rightarrow> test = ''BNDispatch.Ticket'' \<or> test = ''Ticket''
      | VDispatchGroup _ \<Rightarrow> test = ''BNDispatch.Group'' \<or> test = ''Group''
      | VDispatchBarrier _ \<Rightarrow> test = ''BNDispatch.Barrier'' \<or> test = ''Barrier''
      | VDispatchSemaphore _ \<Rightarrow> test = ''BNDispatch.Semaphore'' \<or> test = ''Semaphore''
      | VDispatchMutex _ \<Rightarrow> test = ''BNDispatch.Mutex'' \<or> test = ''Mutex''
      | VTcpStream _ \<Rightarrow> test = ''HOST.Net.TCPStream''
      | VTcpListener _ \<Rightarrow> test = ''HOST.Net.TCPListener''
      | VUdpSocket _ \<Rightarrow> test = ''HOST.Net.UDPSocket''
      | VObject _ cls \<Rightarrow> cls = test \<or> last_part cls = test \<or> is_upcast classes cls test
      | VRecord r \<Rightarrow> type_name r = test
      | _ \<Rightarrow> False)"

text \<open>The arms before it: scalars and the fixed names.\<close>

definition is_scalar_value :: "bn_type \<Rightarrow> bn_value \<Rightarrow> bool" where
  "is_scalar_value ty v \<longleftrightarrow>
     (case v of
        VInteger _ kind \<Rightarrow> TInteger kind = ty
      | VFloat _ kind \<Rightarrow> TFloat kind = ty
      | VBoolean _ \<Rightarrow> TBoolean = ty
      | VString _ \<Rightarrow> TString = ty
      | _ \<Rightarrow> False)"

definition fixed_tests :: "(str \<times> (bn_value \<Rightarrow> bool)) list" where
  "fixed_tests =
     [(''NAN'', \<lambda>v. case v of VFloat f _ \<Rightarrow> f64_is_nan f | _ \<Rightarrow> False),
      (''INF'', \<lambda>v. case v of VFloat f _ \<Rightarrow> f64_eq f f64_INFINITY | _ \<Rightarrow> False),
      (''-INF'', \<lambda>v. case v of VFloat f _ \<Rightarrow> f64_eq f f64_NEG_INFINITY | _ \<Rightarrow> False),
      (''NULL'', \<lambda>v. v = VNull),
      (''NA'', \<lambda>v. v = VNotAvailable),
      (''EOF'', \<lambda>v. v = VEndOfFile),
      (''Error'', \<lambda>v. case v of VError _ _ _ \<Rightarrow> True | _ \<Rightarrow> False),
      (''DATE'', \<lambda>v. case v of VDate _ \<Rightarrow> True | _ \<Rightarrow> False),
      (''TIME'', \<lambda>v. case v of VTime _ \<Rightarrow> True | _ \<Rightarrow> False),
      (''TIMEZONE'', \<lambda>v. case v of VTimeZone _ \<Rightarrow> True | _ \<Rightarrow> False)]"

definition is_pointer_value :: "int option \<Rightarrow> str \<Rightarrow> bn_value \<Rightarrow> bool" where
  "is_pointer_value pointer_len test v \<longleftrightarrow>
     (case v of
        VPointer _ element \<Rightarrow>
          pointer_is_holds element (case pointer_len of Some n \<Rightarrow> n | None \<Rightarrow> 0) test = Some True
      | _ \<Rightarrow> False)"

text \<open>\<open>ELEMENT[n][m]\<close>: the first dimension, and the test for the elements.\<close>

definition vector_test :: "str \<Rightarrow> (str \<times> str) option" where
  "vector_test test =
     (if ends_with '']'' test \<and> CHR ''['' \<in> set test then
        let open_at = length (takeWhile (\<lambda>b. b \<noteq> CHR ''['') test);
            close_at = open_at + length (takeWhile (\<lambda>b. b \<noteq> CHR '']'') (drop open_at test))
        in Some (take (close_at - Suc open_at) (drop (Suc open_at) test), take open_at test @ drop (Suc close_at) test)
      else None)"

fun is_value :: "(str \<Rightarrow> str \<Rightarrow> str) \<Rightarrow> class_model \<Rightarrow> int option \<Rightarrow> str \<Rightarrow> bn_value \<Rightarrow> bool"
  and is_value_all :: "(str \<Rightarrow> str \<Rightarrow> str) \<Rightarrow> class_model \<Rightarrow> str \<Rightarrow> bn_value list \<Rightarrow> bool" where
  "is_value cat classes pointer_len test v \<longleftrightarrow>
     (case scalar_test_type test of
        Some ty \<Rightarrow> is_scalar_value ty v
      | None \<Rightarrow>
          (case map_of fixed_tests test of
             Some p \<Rightarrow> p v
           | None \<Rightarrow>
               if starts_with (cat ''frontend'' ''msg.pointer_to_prefix'') test then is_pointer_value pointer_len test v
               else case vector_test test of
                 Some (dimension, element) \<Rightarrow>
                   (case v of
                      VVector items \<Rightarrow>
                        parse_unsigned u64_ok dimension = Some (int (length items)) \<and> is_value_all cat classes element items
                    | _ \<Rightarrow> False)
               | None \<Rightarrow> is_named_value cat classes test v))"
| "is_value_all cat classes element [] \<longleftrightarrow> True"
| "is_value_all cat classes element (v # vs) \<longleftrightarrow>
     is_value cat classes None element v \<and> is_value_all cat classes element vs"

declare is_value.simps [simp del]

section \<open>Values of a declared type\<close>

text \<open>The name a type carries, by the type constructors an arm of the match accepts.\<close>

fun any_name :: "bn_type \<Rightarrow> str option" where
  "any_name (TNamed name) = Some name"
| "any_name (TTypeName name) = Some name"
| "any_name (TImportedNamed _ name) = Some name"
| "any_name (TImportedTypeName _ name) = Some name"
| "any_name _ = None"

definition library_name :: "bn_type \<Rightarrow> str option" where
  "library_name ty = (case ty of TTypeName _ \<Rightarrow> None | _ \<Rightarrow> any_name ty)"

definition plain_name :: "bn_type \<Rightarrow> str option" where
  "plain_name ty = (case ty of TNamed name \<Rightarrow> Some name | _ \<Rightarrow> None)"

definition name_is :: "str option \<Rightarrow> (str \<Rightarrow> bool) \<Rightarrow> bool" where
  "name_is name p \<longleftrightarrow> (case name of Some n \<Rightarrow> p n | None \<Rightarrow> False)"

definition names_library :: "str list \<Rightarrow> str \<Rightarrow> str \<Rightarrow> bool" where
  "names_library full short name \<longleftrightarrow> name \<in> set full \<or> name = short \<or> ends_with (CHR ''.'' # short) name"

definition value_matches_type :: "(str \<Rightarrow> str \<Rightarrow> str) \<Rightarrow> bn_value \<Rightarrow> bn_type \<Rightarrow> bool" where
  "value_matches_type cat v ty \<longleftrightarrow>
     (case v of
        VInteger _ _ \<Rightarrow> (case ty of TInteger _ \<Rightarrow> True | _ \<Rightarrow> False)
      | VFloat _ _ \<Rightarrow> (case ty of TFloat _ \<Rightarrow> True | _ \<Rightarrow> False)
      | VBoolean _ \<Rightarrow> ty = TBoolean
      | VFunction _ \<Rightarrow> (case ty of TFunction _ _ \<Rightarrow> True | _ \<Rightarrow> False)
      | VString _ \<Rightarrow> ty = TString
      | VVector _ \<Rightarrow> (case ty of TVector _ _ \<Rightarrow> True | _ \<Rightarrow> False)
      | VNull \<Rightarrow> ty = TNull \<or> name_is (plain_name ty) (\<lambda>n. n = ''VOID'')
      | VNotAvailable \<Rightarrow> ty = TNotAvailable
      | VEndOfFile \<Rightarrow> ty = TEndOfFile
      | VObject _ _ \<Rightarrow> any_name ty \<noteq> None
      | VPointer _ _ \<Rightarrow> (case ty of TPointer _ _ \<Rightarrow> True | _ \<Rightarrow> False)
      | VDate _ \<Rightarrow> name_is (plain_name ty) (\<lambda>n. n = ''DATE'')
      | VTime _ \<Rightarrow> name_is (plain_name ty) (\<lambda>n. n = ''TIME'')
      | VTimeZone _ \<Rightarrow> name_is (plain_name ty) (\<lambda>n. n = ''TIMEZONE'')
      | VError _ _ _ \<Rightarrow> name_is (plain_name ty) (\<lambda>n. n = ''Error'')
      | VTcpStream _ \<Rightarrow> name_is (plain_name ty) (\<lambda>n. n = ''HOST.Net.TCPStream'')
      | VTcpListener _ \<Rightarrow> name_is (plain_name ty) (\<lambda>n. n = ''HOST.Net.TCPListener'')
      | VUdpSocket _ \<Rightarrow> name_is (plain_name ty) (\<lambda>n. n = ''HOST.Net.UDPSocket'')
      | VFile _ \<Rightarrow> (case ty of TNamed n \<Rightarrow> is_host_file_type n | TTypeName n \<Rightarrow> is_host_file_type n | _ \<Rightarrow> False)
      | VDataFrame _ \<Rightarrow> name_is (any_name ty) (\<lambda>n. n = ''DataFrame'' \<or> ends_with ''.DataFrame'' n)
      | VRecord r \<Rightarrow> name_is (any_name ty) (\<lambda>n. type_name r = n \<or> last_part (type_name r) = n \<or>
          starts_with ''Net.'' n \<and> type_name r = ''HOST.'' @ n)
      | VLogFields _ \<Rightarrow> name_is (library_name ty) (names_library [''BNLog.Fields''] ''Fields'')
      | VLogEntry _ \<Rightarrow> name_is (library_name ty) (names_library [''BNLog.Entry''] ''Entry'')
      | VLogLogger _ \<Rightarrow> name_is (library_name ty) (names_library [''BNLog.Logger''] ''Logger'')
      | VJson _ \<Rightarrow> name_is (library_name ty) (names_library [''BNJson.Json''] ''Json'')
      | VCryptoBytes _ \<Rightarrow> name_is (library_name ty)
          (names_library [cat ''modules'' ''type.crypto_bytes'', cat ''modules'' ''type.compress_bytes''] ''Bytes'')
      | VCryptoKey _ \<Rightarrow> name_is (library_name ty) (names_library [cat ''modules'' ''type.crypto_key''] ''Key'')
      | VCompressBytes _ \<Rightarrow> name_is (library_name ty)
          (names_library [cat ''modules'' ''type.compress_bytes'', cat ''modules'' ''type.crypto_bytes''] ''Bytes'')
      | VCompressZip _ \<Rightarrow> name_is (library_name ty)
          (names_library [cat ''modules'' ''type.compress_zip_archive''] ''ZipArchive'')
      | VDispatchQueue _ \<Rightarrow> name_is (library_name ty) (names_library [''BNDispatch.Queue''] ''Queue'')
      | VDispatchTicket _ \<Rightarrow> name_is (library_name ty) (names_library [''BNDispatch.Ticket''] ''Ticket'')
      | VDispatchGroup _ \<Rightarrow> name_is (library_name ty) (names_library [''BNDispatch.Group''] ''Group'')
      | VDispatchBarrier _ \<Rightarrow> name_is (library_name ty) (names_library [''BNDispatch.Barrier''] ''Barrier'')
      | VDispatchSemaphore _ \<Rightarrow> name_is (library_name ty) (names_library [''BNDispatch.Semaphore''] ''Semaphore'')
      | VDispatchMutex _ \<Rightarrow> name_is (library_name ty) (names_library [''BNDispatch.Mutex''] ''Mutex'')
      | _ \<Rightarrow> False)"

section \<open>Laws of equality\<close>

text \<open>The values equal to themselves: no NaN, no type, and of the handles only files,
  data frames and named handles, at any depth.\<close>

fun comparable :: "bn_value \<Rightarrow> bool" where
  "comparable (VFloat f _) \<longleftrightarrow> \<not> f64_is_nan f"
| "comparable (VVector vs) \<longleftrightarrow> list_all comparable vs"
| "comparable (VRecord (RecordValue _ fs)) \<longleftrightarrow> list_all comparable fs"
| "comparable v \<longleftrightarrow>
     (case v of
        VInteger _ _ \<Rightarrow> True | VBoolean _ \<Rightarrow> True | VString _ \<Rightarrow> True | VFunction _ \<Rightarrow> True | VNull \<Rightarrow> True
      | VNotAvailable \<Rightarrow> True | VEndOfFile \<Rightarrow> True | VHostConsole \<Rightarrow> True | VHandle _ \<Rightarrow> True | VFile _ \<Rightarrow> True
      | VDataFrame _ \<Rightarrow> True | VError _ _ _ \<Rightarrow> True | VObject _ _ \<Rightarrow> True | VPointer _ _ \<Rightarrow> True | VDate _ \<Rightarrow> True
      | VTime _ \<Rightarrow> True | VTimeZone _ \<Rightarrow> True | _ \<Rightarrow> False)"

lemma equals_all_refl: "equals_all as_f64 vs vs \<longleftrightarrow> list_all (\<lambda>v. equals as_f64 v v) vs"
  by (induction vs) simp_all

lemma equals_refl: "equals as_f64 v v \<longleftrightarrow> comparable v"
proof (induction v rule: comparable.induct)
  case (2 vs)
  then show ?case by (simp add: equals_all_refl list_all_iff)
next
  case (3 n fs)
  then show ?case by (simp add: equals_all_refl list_all_iff record_len_def)
qed (simp_all add: f64_eq_def)

lemma equals_record [simp]:
  "equals as_f64 (VRecord r) v \<longleftrightarrow>
     (case v of VRecord r' \<Rightarrow> type_name r = type_name r' \<and> record_len r = record_len r' \<and>
        equals_all as_f64 (record_fields r) (record_fields r') | _ \<Rightarrow> False)"
  by (cases r) (simp add: record_len_def split: bn_value.split)

lemma f64_eq_sym: "f64_eq a b \<longleftrightarrow> f64_eq b a"
  by (auto simp: f64_eq_def)

lemma equals_right [simp]:
  "equals as_f64 v VNull \<longleftrightarrow> v = VNull" "equals as_f64 v VNotAvailable \<longleftrightarrow> v = VNotAvailable"
  "equals as_f64 v VEndOfFile \<longleftrightarrow> v = VEndOfFile" "equals as_f64 v VHostConsole \<longleftrightarrow> v = VHostConsole"
  "\<not> equals as_f64 v VHostArgs" "\<not> equals as_f64 v (VType s)"
  "\<not> equals as_f64 v (VTcpStream x)" "\<not> equals as_f64 v (VTcpListener x)"
  "\<not> equals as_f64 v (VUdpSocket x)" "\<not> equals as_f64 v (VLogFields x)"
  "\<not> equals as_f64 v (VLogEntry x)" "\<not> equals as_f64 v (VLogLogger x)"
  "\<not> equals as_f64 v (VJson x)" "\<not> equals as_f64 v (VCryptoBytes x)"
  "\<not> equals as_f64 v (VCryptoKey x)" "\<not> equals as_f64 v (VCompressBytes x)"
  "\<not> equals as_f64 v (VCompressZip x)" "\<not> equals as_f64 v (VDispatchQueue x)"
  "\<not> equals as_f64 v (VDispatchTicket x)" "\<not> equals as_f64 v (VDispatchGroup x)"
  "\<not> equals as_f64 v (VDispatchBarrier x)" "\<not> equals as_f64 v (VDispatchSemaphore x)"
  "\<not> equals as_f64 v (VDispatchMutex x)"
  by (cases v; simp)+

lemma equals_sym_aux:
  "equals as_f64 v w \<longleftrightarrow> equals as_f64 w v"
  "length vs = length ws \<Longrightarrow> equals_all as_f64 vs ws \<longleftrightarrow> equals_all as_f64 ws vs"
proof (induction as_f64 v w and as_f64 vs ws rule: equals_equals_all.induct)
  case (1 as_f64 a k v)
  then show ?case by (cases v) (auto simp: f64_eq_sym)
qed (auto simp: f64_eq_sym record_len_def split: bn_value.splits record_value.splits list.splits)

section \<open>Properties\<close>

text \<open>Equality of values is symmetric, and a value equals itself exactly when it holds
  no NaN and none of the values that equality never answers for (types and library
  handles other than files and data frames), at any depth.\<close>

theorem equals_laws:
  "(equals as_f64 v w \<longleftrightarrow> equals as_f64 w v) \<and> (equals as_f64 v v \<longleftrightarrow> comparable v)"
  using equals_sym_aux(1) equals_refl by blast

end
