(* ===== verification/BN_Operators.thy ===== *)
theory BN_Operators
  imports BN_Compare BN_Diagnostic
begin

text \<open>
  The operators of the interpreter: \<open>crates/bn_interp/src/numeric.rs\<close>, the value
  part of \<open>executor.rs\<close> (unary and binary operators, shifts, conversions, the
  tests of the counted \<open>FOR\<close>), and \<open>integer_from_count\<close> of \<open>executor/helpers.rs\<close>.
  An \<open>i128\<close> is an \<open>int\<close> with its range checked where the code checks it. The
  IEEE operations of \<open>f64\<close>, the text of a float and the message catalogue are the
  record \<open>float_ops\<close>. The span of a diagnostic is the one the operator got and is
  left out.
\<close>

unbundle bit_operations_syntax

section \<open>Traps\<close>

type_synonym trap = diagnostic

record float_ops =
  as_f64 :: "int \<Rightarrow> 64 word"
  as_f32 :: "64 word \<Rightarrow> 64 word"
  f_add :: "64 word \<Rightarrow> 64 word \<Rightarrow> 64 word"
  f_sub :: "64 word \<Rightarrow> 64 word \<Rightarrow> 64 word"
  f_mul :: "64 word \<Rightarrow> 64 word \<Rightarrow> 64 word"
  f_div :: "64 word \<Rightarrow> 64 word \<Rightarrow> 64 word"
  f_powf :: "64 word \<Rightarrow> 64 word \<Rightarrow> 64 word"
  f_trunc :: "64 word \<Rightarrow> int"
  f_text :: "64 word \<Rightarrow> float_type \<Rightarrow> str"
  catalogue :: "str \<Rightarrow> str \<Rightarrow> str"

section \<open>Numbers\<close>

definition integer_of :: "bn_value \<Rightarrow> trap + (int \<times> integer_type)" where
  "integer_of v =
     (case v of VInteger n kind \<Rightarrow> Inr (n, kind)
      | _ \<Rightarrow> Inl (TYPE_MISMATCH ''integral value'' ''non-integral value'' ''integer operation''))"

definition boolean_of :: "bn_value \<Rightarrow> trap + bool" where
  "boolean_of v =
     (case v of VBoolean b \<Rightarrow> Inr b
      | _ \<Rightarrow> Inl (TYPE_MISMATCH ''BOOLEAN'' ''non-BOOLEAN value'' ''boolean operation''))"

definition number_as_float :: "float_ops \<Rightarrow> bn_value \<Rightarrow> trap + 64 word" where
  "number_as_float fo v =
     (case v of
        VInteger n _ \<Rightarrow> Inr (as_f64 fo n)
      | VFloat f kind \<Rightarrow> Inr (case kind of Float32 \<Rightarrow> as_f32 fo f | Float64 \<Rightarrow> f)
      | _ \<Rightarrow> Inl (TYPE_MISMATCH ''numeric value'' ''non-numeric value'' ''numeric operation''))"

definition is_float_value :: "bn_value \<Rightarrow> bool" where
  "is_float_value v \<longleftrightarrow> (case v of VFloat _ _ \<Rightarrow> True | _ \<Rightarrow> False)"

definition integer_kind :: "bn_type \<Rightarrow> integer_type option" where
  "integer_kind ty = (case ty of TInteger kind \<Rightarrow> Some kind | _ \<Rightarrow> None)"

definition float_kind :: "bn_type \<Rightarrow> float_type" where
  "float_kind ty = (case ty of TFloat kind \<Rightarrow> kind | _ \<Rightarrow> Float64)"

definition float_value :: "float_ops \<Rightarrow> 64 word \<Rightarrow> float_type \<Rightarrow> bn_value" where
  "float_value fo f kind = VFloat (case kind of Float32 \<Rightarrow> as_f32 fo f | Float64 \<Rightarrow> f) kind"

fun integer_range :: "integer_type \<Rightarrow> int \<times> int" where
  "integer_range Byte = (0, 255)"
| "integer_range Int8 = (- 128, 127)"
| "integer_range Int16 = (- 32768, 32767)"
| "integer_range Int32 = (- 2147483648, 2147483647)"
| "integer_range Int64 = (- 9223372036854775808, 9223372036854775807)"
| "integer_range UInt16 = (0, 65535)"
| "integer_range UInt32 = (0, 4294967295)"
| "integer_range UInt64 = (0, 18446744073709551615)"

definition in_integer_range :: "integer_type \<Rightarrow> int \<Rightarrow> bool" where
  "in_integer_range kind n \<longleftrightarrow> fst (integer_range kind) \<le> n \<and> n \<le> snd (integer_range kind)"

definition exit_code :: "int \<Rightarrow> trap + int" where
  "exit_code code =
     (if 0 \<le> code \<and> code \<le> 255 then Inr code else Inl (INVALID_EXIT_CODE ''exit code must be in 0..255''))"

definition ordered :: "str \<Rightarrow> int \<Rightarrow> int \<Rightarrow> trap + bn_value" where
  "ordered operator l r =
     (if operator = ''Less'' then Inr (VBoolean (l < r))
      else if operator = ''LessEqual'' then Inr (VBoolean (l \<le> r))
      else if operator = ''Greater'' then Inr (VBoolean (l > r))
      else if operator = ''GreaterEqual'' then Inr (VBoolean (l \<ge> r))
      else Inl (TYPE_MISMATCH ''ordered comparison operator'' operator ''numeric ordered comparison''))"

definition checked_integer :: "int option \<Rightarrow> bn_type \<Rightarrow> trap + bn_value" where
  "checked_integer v ty =
     (case v of
        None \<Rightarrow> Inl (NUMERIC_OVERFLOW ''performing an integer operation'')
      | Some n \<Rightarrow>
          let kind = (case integer_kind ty of Some k \<Rightarrow> k | None \<Rightarrow> Int32)
          in if \<not> in_integer_range kind n
             then Inl (NUMERIC_OVERFLOW (''converting '' @ show_int n @ '' to '' @ integer_type_name kind))
             else Inr (VInteger n kind))"

definition integer_from_count :: "nat \<Rightarrow> trap + bn_value" where
  "integer_from_count count =
     (case try_fit i128_ok (int count) of
        None \<Rightarrow> Inl (NUMERIC_OVERFLOW ''converting a value to INTEGER'')
      | Some n \<Rightarrow>
          if \<not> (0 \<le> n \<and> n \<le> 2147483647) then Inl (NUMERIC_OVERFLOW ''converting a value to INTEGER'')
          else Inr (VInteger n Int32))"

section \<open>Integer operations of \<open>i128\<close>\<close>

definition wrap_i128 :: "int \<Rightarrow> int" where
  "wrap_i128 x = (x + 2 ^ 127) mod 2 ^ 128 - 2 ^ 127"

definition checked_div_euclid :: "int \<Rightarrow> int \<Rightarrow> int option" where
  "checked_div_euclid l r =
     (if r = 0 then None else try_fit i128_ok (if 0 < r then l div r else - (l div (- r))))"

definition checked_rem_euclid :: "int \<Rightarrow> int \<Rightarrow> int option" where
  "checked_rem_euclid l r =
     (if r = 0 \<or> l = - (2 ^ 127) \<and> r = - 1 then None else Some (l mod \<bar>r\<bar>))"

definition division_by_zero :: "str \<Rightarrow> trap" where
  "division_by_zero operator = DIVISION_BY_ZERO (operator_spelling operator)"

definition shift_integer :: "int \<Rightarrow> int \<Rightarrow> bn_type \<Rightarrow> bool \<Rightarrow> trap + bn_value" where
  "shift_integer v count ty left =
     (let w = width (case integer_kind ty of Some k \<Rightarrow> k | None \<Rightarrow> Int32)
      in if count < 0 \<or> count \<ge> int w
         then Inl (INVALID_SHIFT_COUNT (''shift count must be in 0..'' @ show_nat w))
         else if left then checked_integer (Some (wrap_i128 (push_bit (nat count) v))) ty
         else checked_integer (Some (wrap_i128 (drop_bit (nat count) (v mod 2 ^ 128 AND (2 ^ w - 1))))) ty)"

section \<open>Operators\<close>

definition unary :: "float_ops \<Rightarrow> str \<Rightarrow> bn_value \<Rightarrow> bn_type \<Rightarrow> trap + bn_value" where
  "unary fo operator operand ty =
     (let mismatch = Inl (TYPE_MISMATCH ''numeric or BOOLEAN operand'' ''incompatible value'' (''unary '' @ operator))
      in if operator = ''Minus'' then
           (case operand of
              VInteger n _ \<Rightarrow> checked_integer (try_fit i128_ok (- n)) ty
            | VFloat f _ \<Rightarrow> Inr (float_value fo (f XOR 0x8000000000000000) (float_kind ty))
            | _ \<Rightarrow> mismatch)
         else if operator = ''NOT'' then
           (case operand of
              VBoolean b \<Rightarrow> Inr (VBoolean (\<not> b))
            | VInteger n _ \<Rightarrow> checked_integer (Some (NOT n)) ty
            | _ \<Rightarrow> mismatch)
         else mismatch)"

text \<open>The byte order of strings.\<close>

fun bytes_lt :: "str \<Rightarrow> str \<Rightarrow> bool" where
  "bytes_lt _ [] \<longleftrightarrow> False"
| "bytes_lt [] (_ # _) \<longleftrightarrow> True"
| "bytes_lt (a # as) (b # bs) \<longleftrightarrow> byte a < byte b \<or> a = b \<and> bytes_lt as bs"

definition binary_boolean :: "str \<Rightarrow> bool \<Rightarrow> bool \<Rightarrow> trap + bn_value" where
  "binary_boolean operator l r =
     (if operator = ''AND'' then Inr (VBoolean (l \<and> r))
      else if operator = ''OR'' then Inr (VBoolean (l \<or> r))
      else if operator = ''XOR'' then Inr (VBoolean (l \<noteq> r))
      else Inl (TYPE_MISMATCH ''AND, OR or XOR'' operator ''BOOLEAN operation''))"

definition binary_string :: "float_ops \<Rightarrow> str \<Rightarrow> str \<Rightarrow> str \<Rightarrow> trap + bn_value" where
  "binary_string fo operator l r =
     (if operator = ''Plus'' then Inr (VString (l @ r))
      else if operator = ''Less'' then Inr (VBoolean (bytes_lt l r))
      else if operator = ''LessEqual'' then Inr (VBoolean (\<not> bytes_lt r l))
      else if operator = ''Greater'' then Inr (VBoolean (bytes_lt r l))
      else if operator = ''GreaterEqual'' then Inr (VBoolean (\<not> bytes_lt l r))
      else Inl (TYPE_MISMATCH (catalogue fo ''frontend'' ''msg.plus_or_an_ordering_operator'') operator
        ''STRING operation''))"

definition binary_float :: "float_ops \<Rightarrow> str \<Rightarrow> 64 word \<Rightarrow> 64 word \<Rightarrow> bn_type \<Rightarrow> trap + bn_value" where
  "binary_float fo operator l r ty =
     (let number = (\<lambda>f. Inr (float_value fo f (float_kind ty)))
      in if operator = ''Plus'' then number (f_add fo l r)
         else if operator = ''Minus'' then number (f_sub fo l r)
         else if operator = ''Star'' then number (f_mul fo l r)
         else if operator = ''Slash'' then number (f_div fo l r)
         else if operator = ''Power'' then number (f_powf fo l r)
         else if operator = ''Less'' then Inr (VBoolean (f64_lt l r))
         else if operator = ''LessEqual'' then Inr (VBoolean (f64_le l r))
         else if operator = ''Greater'' then Inr (VBoolean (f64_lt r l))
         else if operator = ''GreaterEqual'' then Inr (VBoolean (f64_le r l))
         else Inl (TYPE_MISMATCH ''numeric operator'' operator ''floating operation''))"

definition binary_integer :: "str \<Rightarrow> int \<Rightarrow> int \<Rightarrow> bn_type \<Rightarrow> trap + bn_value" where
  "binary_integer operator l r ty =
     (if operator = ''Plus'' then checked_integer (try_fit i128_ok (l + r)) ty
      else if operator = ''Minus'' then checked_integer (try_fit i128_ok (l - r)) ty
      else if operator = ''Star'' then checked_integer (try_fit i128_ok (l * r)) ty
      else if operator = ''DIV'' \<and> r \<noteq> 0 then checked_integer (checked_div_euclid l r) ty
      else if operator = ''Percent'' \<and> r \<noteq> 0 then checked_integer (checked_rem_euclid l r) ty
      else if operator = ''DIV'' \<or> operator = ''Percent'' then Inl (division_by_zero operator)
      else if operator = ''Power'' \<and> r \<ge> 0 then
        (case try_fit u32_ok r of
           None \<Rightarrow> Inl (INVALID_EXPONENT ''integer exponent is too large'')
         | Some e \<Rightarrow> checked_integer (try_fit i128_ok (l ^ nat e)) ty)
      else if operator = ''Power'' then Inl (INVALID_EXPONENT ''integer exponent cannot be negative'')
      else if operator = ''AND'' then checked_integer (Some (l AND r)) ty
      else if operator = ''OR'' then checked_integer (Some (l OR r)) ty
      else if operator = ''XOR'' then checked_integer (Some (l XOR r)) ty
      else if operator = ''SHL'' then shift_integer l r ty True
      else if operator = ''SHR'' then shift_integer l r ty False
      else if operator = ''Less'' then Inr (VBoolean (l < r))
      else if operator = ''LessEqual'' then Inr (VBoolean (l \<le> r))
      else if operator = ''Greater'' then Inr (VBoolean (l > r))
      else if operator = ''GreaterEqual'' then Inr (VBoolean (l \<ge> r))
      else Inl (TYPE_MISMATCH ''integer operator'' operator ''integer operation''))"

text \<open>\<open>if let (Value::X(left), Value::X(right)) = (left, right)\<close>.\<close>

definition both :: "(bn_value \<Rightarrow> 'a option) \<Rightarrow> bn_value \<Rightarrow> bn_value \<Rightarrow> ('a \<times> 'a) option" where
  "both get l r = (case get l of None \<Rightarrow> None | Some a \<Rightarrow> map_option (Pair a) (get r))"

definition get_boolean :: "bn_value \<Rightarrow> bool option" where
  "get_boolean v = (case v of VBoolean b \<Rightarrow> Some b | _ \<Rightarrow> None)"

definition get_string :: "bn_value \<Rightarrow> str option" where
  "get_string v = (case v of VString s \<Rightarrow> Some s | _ \<Rightarrow> None)"

definition get_date :: "bn_value \<Rightarrow> int option" where
  "get_date v = (case v of VDate d \<Rightarrow> Some d | _ \<Rightarrow> None)"

definition get_time :: "bn_value \<Rightarrow> int option" where
  "get_time v = (case v of VTime t \<Rightarrow> Some t | _ \<Rightarrow> None)"

definition both_floats :: "float_ops \<Rightarrow> bn_value \<Rightarrow> bn_value \<Rightarrow> trap + (64 word \<times> 64 word)" where
  "both_floats fo l r = try_sum (number_as_float fo l) (\<lambda>a. try_sum (number_as_float fo r) (\<lambda>b. Inr (a, b)))"

definition is_float_type :: "bn_type \<Rightarrow> bool" where
  "is_float_type ty \<longleftrightarrow> (case ty of TFloat _ \<Rightarrow> True | _ \<Rightarrow> False)"

text \<open>The numeric operators: \<open>Power\<close> to a float type, dates, times, floats, integers.\<close>

definition binary_numeric :: "float_ops \<Rightarrow> str \<Rightarrow> bn_value \<Rightarrow> bn_value \<Rightarrow> bn_type \<Rightarrow> trap + bn_value" where
  "binary_numeric fo operator l r ty =
     (if operator = ''Power'' \<and> is_float_type ty then
        try_sum (both_floats fo l r) (\<lambda>(a, b). Inr (float_value fo (f_powf fo a b) (float_kind ty)))
      else case both get_date l r of
        Some (a, b) \<Rightarrow> ordered operator a b
      | None \<Rightarrow>
          (case both get_time l r of
             Some (a, b) \<Rightarrow> ordered operator a b
           | None \<Rightarrow>
               if is_float_value l \<or> is_float_value r \<or> operator = ''Slash'' then
                 try_sum (both_floats fo l r) (\<lambda>(a, b). binary_float fo operator a b ty)
               else
                 try_sum (integer_of l) (\<lambda>(a, _). try_sum (integer_of r) (\<lambda>(b, _).
                   binary_integer operator a b ty))))"

definition binary ::
  "float_ops \<Rightarrow> str \<Rightarrow> bn_value \<Rightarrow> bn_value \<Rightarrow> bn_type \<Rightarrow> class_model \<Rightarrow> int option \<Rightarrow> trap + bn_value" where
  "binary fo operator l r ty classes pointer_len =
     (if operator = ''IS'' then
        (case r of
           VType test \<Rightarrow> Inr (VBoolean (is_value (catalogue fo) classes pointer_len test l))
         | _ \<Rightarrow> Inl (INVALID_IR ''IS requires a type operand''))
      else if operator = ''Assign'' then Inr (VBoolean (equals (as_f64 fo) l r))
      else if operator = ''NotEqual'' then Inr (VBoolean (\<not> equals (as_f64 fo) l r))
      else case both get_boolean l r of
        Some (a, b) \<Rightarrow> binary_boolean operator a b
      | None \<Rightarrow>
          (case both get_string l r of
             Some (a, b) \<Rightarrow> binary_string fo operator a b
           | None \<Rightarrow> binary_numeric fo operator l r ty))"

section \<open>The counted \<open>FOR\<close>\<close>

definition for_condition :: "bn_value \<Rightarrow> bn_value \<Rightarrow> bn_value \<Rightarrow> trap + bn_value" where
  "for_condition current bound step =
     try_sum (integer_of current) (\<lambda>(c, _). try_sum (integer_of bound) (\<lambda>(e, _). try_sum (integer_of step) (\<lambda>(s, _).
       if s = 0 then Inl (INVALID_FOR_STEP ''FOR STEP cannot be zero'')
       else Inr (VBoolean (if s > 0 then c \<le> e else c \<ge> e)))))"

definition for_fits :: "bn_value \<Rightarrow> bn_value \<Rightarrow> trap + bn_value" where
  "for_fits current step =
     try_sum (integer_of current) (\<lambda>(c, kind). try_sum (integer_of step) (\<lambda>(s, _).
       Inr (VBoolean (case try_fit i128_ok (c + s) of None \<Rightarrow> False | Some n \<Rightarrow> in_integer_range kind n))))"

section \<open>Conversions\<close>

definition finite_float :: "float_ops \<Rightarrow> 64 word \<Rightarrow> float_type \<Rightarrow> trap + bn_value" where
  "finite_float fo f kind =
     (if kind = Float32 \<and> f64_is_finite f \<and> f64_is_infinite (as_f32 fo f)
      then Inl (NUMERIC_OVERFLOW ''FLOAT64 value does not fit FLOAT32'')
      else Inr (float_value fo f kind))"

definition cast_boolean :: "bn_value \<Rightarrow> bool" where
  "cast_boolean v =
     (case v of
        VBoolean b \<Rightarrow> b
      | VInteger n _ \<Rightarrow> n \<noteq> 0
      | VFloat f _ \<Rightarrow> \<not> f64_eq f 0
      | VString s \<Rightarrow> s \<noteq> []
      | VNull \<Rightarrow> False | VNotAvailable \<Rightarrow> False | VEndOfFile \<Rightarrow> False
      | _ \<Rightarrow> True)"

definition cast_integer :: "float_ops \<Rightarrow> bn_value \<Rightarrow> bn_type \<Rightarrow> trap + bn_value" where
  "cast_integer fo v ty =
     (case v of
        VInteger n _ \<Rightarrow> checked_integer (Some n) ty
      | VFloat f _ \<Rightarrow>
          if f64_is_finite f then checked_integer (Some (f_trunc fo f)) ty
          else Inl (INVALID_NUMERIC_CONVERSION ''NAN and infinity cannot convert to an integer'')
      | _ \<Rightarrow> Inl (TYPE_MISMATCH ''INTEGER'' ''non-integer-compatible value'' ''integer conversion''))"

text \<open>\<open>render\<close> of the values that have a text conversion.\<close>

definition cast_string :: "float_ops \<Rightarrow> bn_value \<Rightarrow> trap + bn_value" where
  "cast_string fo v =
     (case v of
        VString _ \<Rightarrow> Inr v
      | VInteger n _ \<Rightarrow> Inr (VString (integer_text n))
      | VFloat f kind \<Rightarrow> Inr (VString (f_text fo f kind))
      | VBoolean b \<Rightarrow> Inr (VString (boolean_text b))
      | _ \<Rightarrow> Inl (TYPE_MISMATCH ''number or BOOLEAN'' ''incompatible value'' ''text conversion''))"

definition cast_named :: "bn_value \<Rightarrow> trap + bn_value" where
  "cast_named v =
     (case v of
        VObject _ _ \<Rightarrow> Inr v | VRecord _ \<Rightarrow> Inr v | VHandle _ \<Rightarrow> Inr v | VNull \<Rightarrow> Inr v
      | _ \<Rightarrow> Inl (TYPE_MISMATCH ''named value'' ''incompatible value'' ''named conversion''))"

definition cast :: "float_ops \<Rightarrow> bn_value \<Rightarrow> bn_type \<Rightarrow> trap + bn_value" where
  "cast fo v ty =
     (case ty of
        TBoolean \<Rightarrow> Inr (VBoolean (cast_boolean v))
      | TInteger _ \<Rightarrow> cast_integer fo v ty
      | TFloat _ \<Rightarrow> try_sum (number_as_float fo v) (\<lambda>f. finite_float fo f (float_kind ty))
      | TString \<Rightarrow> cast_string fo v
      | TNamed _ \<Rightarrow> cast_named v
      | TImportedNamed _ _ \<Rightarrow> cast_named v
      | _ \<Rightarrow>
          if value_matches_type (catalogue fo) v ty then Inr v
          else Inl (TYPE_MISMATCH ''supported conversion target'' ''incompatible value or type'' ''value conversion''))"

definition same_numeric_kind :: "bn_value \<Rightarrow> bn_type \<Rightarrow> bool" where
  "same_numeric_kind v ty \<longleftrightarrow>
     (case v of
        VInteger _ kind \<Rightarrow> ty = TInteger kind
      | VFloat _ kind \<Rightarrow> ty = TFloat kind
      | _ \<Rightarrow> False)"

definition numeric_class_matches :: "bn_value \<Rightarrow> bn_type \<Rightarrow> bool" where
  "numeric_class_matches v ty \<longleftrightarrow>
     (case v of
        VInteger _ _ \<Rightarrow> integer_kind ty \<noteq> None
      | VFloat _ _ \<Rightarrow> is_float_type ty
      | _ \<Rightarrow> False)"

definition is_number :: "bn_value \<Rightarrow> bool" where
  "is_number v \<longleftrightarrow> (case v of VInteger _ _ \<Rightarrow> True | VFloat _ _ \<Rightarrow> True | _ \<Rightarrow> False)"

definition widened_alternative :: "bn_value \<Rightarrow> bn_type list \<Rightarrow> bn_type option" where
  "widened_alternative v types =
     (if \<not> is_number v \<or> list_ex (same_numeric_kind v) types then None
      else case filter (numeric_class_matches v) types of [target] \<Rightarrow> Some target | _ \<Rightarrow> None)"

text \<open>The arms of \<open>coerce\<close> that keep the value.\<close>

definition coerce_keeps :: "bn_value \<Rightarrow> bn_type \<Rightarrow> bool" where
  "coerce_keeps v ty \<longleftrightarrow>
     (let named = (any_name ty \<noteq> None);
          dispatch = (case ty of TNamed _ \<Rightarrow> True | TImportedNamed _ _ \<Rightarrow> True | _ \<Rightarrow> False)
      in case v of
        VBoolean _ \<Rightarrow> ty = TBoolean
      | VString _ \<Rightarrow> ty = TString
      | VVector _ \<Rightarrow> (case ty of TVector _ _ \<Rightarrow> True | _ \<Rightarrow> False)
      | VFunction _ \<Rightarrow> (case ty of TFunction _ _ \<Rightarrow> True | _ \<Rightarrow> False)
      | VNull \<Rightarrow> ty = TNull \<or> ty = TNamed ''VOID''
      | VNotAvailable \<Rightarrow> ty = TNotAvailable
      | VEndOfFile \<Rightarrow> ty = TEndOfFile
      | VHostConsole \<Rightarrow> ty = THostConsole
      | VHandle _ \<Rightarrow> (case ty of TNamed _ \<Rightarrow> True | TPointer _ _ \<Rightarrow> True | _ \<Rightarrow> False)
      | VPointer _ _ \<Rightarrow> (case ty of TPointer _ _ \<Rightarrow> True | _ \<Rightarrow> False)
      | VRecord _ \<Rightarrow> named | VObject _ _ \<Rightarrow> named | VTcpStream _ \<Rightarrow> named | VTcpListener _ \<Rightarrow> named
      | VUdpSocket _ \<Rightarrow> named | VLogFields _ \<Rightarrow> named | VLogEntry _ \<Rightarrow> named | VLogLogger _ \<Rightarrow> named
      | VJson _ \<Rightarrow> named | VCryptoBytes _ \<Rightarrow> named | VCryptoKey _ \<Rightarrow> named | VCompressBytes _ \<Rightarrow> named
      | VCompressZip _ \<Rightarrow> named
      | VDispatchQueue _ \<Rightarrow> dispatch | VDispatchTicket _ \<Rightarrow> dispatch | VDispatchGroup _ \<Rightarrow> dispatch
      | VDispatchBarrier _ \<Rightarrow> dispatch | VDispatchSemaphore _ \<Rightarrow> dispatch | VDispatchMutex _ \<Rightarrow> dispatch
      | VFile _ \<Rightarrow> named | VDataFrame _ \<Rightarrow> named
      | VType _ \<Rightarrow> ty \<in> {THostClock, THostRandom, THostFileSystem, THostNet, THostExec, THostEnv}
      | VDate _ \<Rightarrow> ty = TNamed ''DATE''
      | VTime _ \<Rightarrow> ty = TNamed ''TIME''
      | VTimeZone _ \<Rightarrow> ty = TNamed ''TIMEZONE''
      | VError _ _ _ \<Rightarrow> ty = TNamed ''Error''
      | _ \<Rightarrow> False)"

definition is_error :: "bn_value \<Rightarrow> bool" where
  "is_error v \<longleftrightarrow> (case v of VError _ _ _ \<Rightarrow> True | _ \<Rightarrow> False)"

text \<open>The two numeric arms; the recursion on a widened alternative always lands on one
  of them, because the alternative has the class of the value.\<close>

definition coerce_number :: "float_ops \<Rightarrow> bn_value \<Rightarrow> bn_type \<Rightarrow> (trap + bn_value) option" where
  "coerce_number fo v ty =
     (case v of
        VInteger n _ \<Rightarrow> if integer_kind ty \<noteq> None then Some (checked_integer (Some n) ty) else None
      | VFloat f _ \<Rightarrow> if is_float_type ty then Some (finite_float fo f (float_kind ty)) else None
      | _ \<Rightarrow> None)"

lemma widened_member: "widened_alternative v types = Some target \<Longrightarrow> target \<in> set types \<and> numeric_class_matches v target"
  by (auto simp: widened_alternative_def filter_eq_Cons_iff split: if_splits list.splits)

function coerce :: "float_ops \<Rightarrow> bn_value \<Rightarrow> bn_type \<Rightarrow> trap + bn_value" where
  "coerce fo v ty =
     (case coerce_number fo v ty of
        Some res \<Rightarrow> res
      | None \<Rightarrow>
          (case ty of
             TAlternative types \<Rightarrow>
               (case widened_alternative v types of
                  Some target \<Rightarrow> coerce fo v target
                | None \<Rightarrow>
                    if list_ex (value_matches_type (catalogue fo) v) types then Inr v
                    else if \<not> is_error v \<and> TNamed ''VOID'' \<in> set types then Inr VNull
                    else Inl (TYPE_MISMATCH ''IR destination type'' ''runtime value'' ''IR coercion''))
           | _ \<Rightarrow>
               if coerce_keeps v ty then Inr v
               else Inl (TYPE_MISMATCH ''IR destination type'' ''runtime value'' ''IR coercion'')))"
  by pat_completeness auto
termination
proof (relation "measure (\<lambda>(fo, v, ty). size ty)", goal_cases)
  case (2 fo v ty types target)
  then have "target \<in> set types" using widened_member by blast
  then show ?case using 2 size_list_estimation' [of target types "size target" size] by simp
qed simp

declare coerce.simps [simp del]

section \<open>Integer ranges\<close>

definition signed_kind :: "integer_type \<Rightarrow> bool" where
  "signed_kind kind \<longleftrightarrow> kind \<in> {Int8, Int16, Int32, Int64}"

lemma range_signed: "signed_kind kind \<Longrightarrow> in_integer_range kind n \<longleftrightarrow> - (2 ^ (width kind - 1)) \<le> n \<and> n < 2 ^ (width kind - 1)"
  by (cases kind) (auto simp: signed_kind_def in_integer_range_def)

lemma range_unsigned: "\<not> signed_kind kind \<Longrightarrow> in_integer_range kind n \<longleftrightarrow> 0 \<le> n \<and> n < 2 ^ width kind"
  by (cases kind) (auto simp: signed_kind_def in_integer_range_def)

lemma range_i128: "in_integer_range kind n \<Longrightarrow> i128_ok n \<and> \<bar>n\<bar> < 2 ^ 64"
  by (cases kind) (auto simp: in_integer_range_def i128_ok_def)

lemma range_signed_bits:
  "signed_kind kind \<Longrightarrow> in_integer_range kind n \<longleftrightarrow> signed_take_bit (width kind - 1) n = n"
  by (simp add: range_signed signed_take_bit_int_eq_self_iff)

lemma range_unsigned_bits: "\<not> signed_kind kind \<Longrightarrow> in_integer_range kind n \<longleftrightarrow> take_bit (width kind) n = n"
  by (simp add: range_unsigned take_bit_int_eq_self_iff)

lemma signed_take_bit_bitwise:
  fixes l r :: int
  shows "signed_take_bit n (l AND r) = signed_take_bit n l AND signed_take_bit n r"
    "signed_take_bit n (l OR r) = signed_take_bit n l OR signed_take_bit n r"
    "signed_take_bit n (l XOR r) = signed_take_bit n l XOR signed_take_bit n r"
  by (simp_all add: bit_eq_iff bit_simps)

lemma range_bitwise:
  assumes "in_integer_range kind l" "in_integer_range kind r"
  shows "in_integer_range kind (l AND r)" "in_integer_range kind (l OR r)" "in_integer_range kind (l XOR r)"
proof -
  have "in_integer_range kind (l AND r) \<and> in_integer_range kind (l OR r) \<and> in_integer_range kind (l XOR r)"
  proof (cases "signed_kind kind")
    case True
    then show ?thesis using assms
      by (simp add: range_signed_bits signed_take_bit_bitwise)
  next
    case False
    then show ?thesis using assms by (simp add: range_unsigned_bits)
  qed
  then show "in_integer_range kind (l AND r)" "in_integer_range kind (l OR r)" "in_integer_range kind (l XOR r)" by auto
qed

lemma range_not: "in_integer_range kind n \<Longrightarrow> in_integer_range kind (NOT n) \<longleftrightarrow> signed_kind kind"
  by (cases kind) (auto simp: signed_kind_def in_integer_range_def not_int_def)

lemma checked_range:
  "checked_integer (try_fit i128_ok n) (TInteger kind) =
     (if in_integer_range kind n then Inr (VInteger n kind)
      else if i128_ok n then Inl (NUMERIC_OVERFLOW (''converting '' @ show_int n @ '' to '' @ integer_type_name kind))
      else Inl (NUMERIC_OVERFLOW ''performing an integer operation''))"
  using range_i128 [of kind n] by (simp add: checked_integer_def try_fit_def integer_kind_def)

lemma checked_range_Some:
  "checked_integer (Some n) (TInteger kind) =
     (if in_integer_range kind n then Inr (VInteger n kind)
      else Inl (NUMERIC_OVERFLOW (''converting '' @ show_int n @ '' to '' @ integer_type_name kind)))"
  by (simp add: checked_integer_def integer_kind_def)

lemma checked_integer_typed:
  "checked_integer v ty = Inr w \<Longrightarrow> \<exists>n kind. w = VInteger n kind \<and> in_integer_range kind n \<and>
     kind = (case integer_kind ty of Some k \<Rightarrow> k | None \<Rightarrow> Int32)"
  by (auto simp: checked_integer_def Let_def split: option.splits if_splits)

lemma both_None [simp]:
  "both get_boolean (VInteger a k) v = None" "both get_string (VInteger a k) v = None"
  "both get_date (VInteger a k) v = None" "both get_time (VInteger a k) v = None"
  by (simp_all add: both_def get_boolean_def get_string_def get_date_def get_time_def)

text \<open>The integer operators reach \<open>binary_integer\<close>.\<close>

lemma binary_on_integers:
  assumes "operator \<notin> {''IS'', ''Assign'', ''NotEqual'', ''Slash''}" "\<not> is_float_type ty"
  shows "binary fo operator (VInteger l k1) (VInteger r k2) ty classes pl = binary_integer operator l r ty"
  using assms by (simp add: binary_def binary_numeric_def is_float_value_def integer_of_def)

text \<open>The mathematical result of an integer operator.\<close>

definition euclid_div :: "int \<Rightarrow> int \<Rightarrow> int" where
  "euclid_div l r = (if 0 < r then l div r else - (l div (- r)))"

lemma euclid_laws: "r \<noteq> 0 \<Longrightarrow> l = euclid_div l r * r + l mod \<bar>r\<bar> \<and> 0 \<le> l mod \<bar>r\<bar> \<and> l mod \<bar>r\<bar> < \<bar>r\<bar>"
proof (cases "0 < r")
  case False
  moreover assume "r \<noteq> 0"
  ultimately have "r < 0" by simp
  moreover have "l = - r * (l div - r) + l mod - r" by (metis mult_div_mod_eq)
  ultimately show ?thesis by (simp add: euclid_div_def algebra_simps)
qed (simp add: euclid_div_def)

definition exact_result :: "str \<Rightarrow> int \<Rightarrow> int \<Rightarrow> int option" where
  "exact_result operator l r =
     (if operator = ''Plus'' then Some (l + r)
      else if operator = ''Minus'' then Some (l - r)
      else if operator = ''Star'' then Some (l * r)
      else if operator = ''DIV'' \<and> r \<noteq> 0 then Some (euclid_div l r)
      else if operator = ''Percent'' \<and> r \<noteq> 0 then Some (l mod \<bar>r\<bar>)
      else if operator = ''Power'' \<and> 0 \<le> r \<and> r < 2 ^ 32 then Some (l ^ nat r)
      else if operator = ''AND'' then Some (l AND r)
      else if operator = ''OR'' then Some (l OR r)
      else if operator = ''XOR'' then Some (l XOR r)
      else None)"

lemma operator_names:
  "exact_result operator l r = Some n \<Longrightarrow>
     operator \<in> {''Plus'', ''Minus'', ''Star'', ''DIV'', ''Percent'', ''Power'', ''AND'', ''OR'', ''XOR''}"
  by (auto simp: exact_result_def split: if_splits)

lemma binary_integer_exact:
  assumes "exact_result operator l r = Some n" "in_integer_range k1 l" "in_integer_range k2 r"
  shows "(in_integer_range kind n \<longrightarrow> binary_integer operator l r (TInteger kind) = Inr (VInteger n kind)) \<and>
    (\<not> in_integer_range kind n \<longrightarrow> (\<exists>m. binary_integer operator l r (TInteger kind) = Inl (NUMERIC_OVERFLOW m)))"
proof -
  have l: "l \<noteq> - (2 ^ 127)" using range_i128 [OF assms(2)] by auto
  have dive: "checked_div_euclid l r = try_fit i128_ok (euclid_div l r)" if "r \<noteq> 0"
    using that by (simp add: checked_div_euclid_def euclid_div_def)
  have reme: "checked_rem_euclid l r = Some (l mod \<bar>r\<bar>)" if "r \<noteq> 0"
    using that l by (simp add: checked_rem_euclid_def)
  have pow: "try_fit u32_ok r = Some r" if "0 \<le> r" "r < 2 ^ 32" using that by (simp add: u32_ok_def)
  from operator_names [OF assms(1)] show ?thesis using assms(1)
    by (elim insertE emptyE)
       (auto simp: exact_result_def binary_integer_def checked_range checked_range_Some dive reme pow split: if_splits)
qed

section \<open>Shifts\<close>

lemma width_bounds: "8 \<le> width kind" "width kind \<le> 64"
  by (cases kind; simp)+

lemma wrap_small: "\<bar>x\<bar> < 2 ^ 127 \<Longrightarrow> wrap_i128 x = x"
  by (auto simp: wrap_i128_def mod_pos_pos_trivial)

lemma shl_value:
  assumes "in_integer_range kind l" "0 \<le> c" "c < int (width kind)"
  shows "wrap_i128 (push_bit (nat c) l) = l * 2 ^ nat c"
proof -
  have "nat c \<le> 63" using assms(3) width_bounds(2) [of kind] by linarith
  then have p: "(2::int) ^ nat c \<le> 2 ^ 63" by (rule power_increasing) simp
  have "\<bar>l * 2 ^ nat c\<bar> = \<bar>l\<bar> * 2 ^ nat c" by (simp add: abs_mult)
  also have "\<dots> \<le> \<bar>l\<bar> * 2 ^ 63" using p by (intro mult_left_mono) auto
  also have "\<dots> < 2 ^ 64 * 2 ^ 63" using range_i128 [OF assms(1)] by (intro mult_strict_right_mono) auto
  finally show ?thesis by (simp add: wrap_small push_bit_eq_mult)
qed

lemma div_power_le: "0 \<le> u \<Longrightarrow> u div 2 ^ n \<le> (u :: int)"
  using zdiv_mono2 [of u 1 "2 ^ n"] by simp

lemma shr_value:
  assumes "in_integer_range kind l" "0 \<le> c" "c < int (width kind)"
  shows "wrap_i128 (drop_bit (nat c) (l mod 2 ^ 128 AND (2 ^ width kind - 1))) = l mod 2 ^ width kind div 2 ^ nat c"
proof -
  have "l mod 2 ^ 128 AND (2 ^ width kind - 1) = take_bit (width kind) (take_bit 128 l)"
    by (metis mask_eq_exp_minus_1 take_bit_eq_mask take_bit_eq_mod)
  also have "\<dots> = l mod 2 ^ width kind"
    unfolding take_bit_take_bit using width_bounds(2) [of kind] by (simp add: min_def take_bit_eq_mod)
  finally have eq: "drop_bit (nat c) (l mod 2 ^ 128 AND (2 ^ width kind - 1)) = l mod 2 ^ width kind div 2 ^ nat c"
    by (simp add: drop_bit_eq_div)
  have "l mod 2 ^ width kind < 2 ^ width kind" by simp
  also have "(2::int) ^ width kind \<le> 2 ^ 64" using width_bounds(2) [of kind] by (rule power_increasing) simp
  finally have "l mod 2 ^ width kind div 2 ^ nat c < 2 ^ 64"
    using div_power_le [of "l mod 2 ^ width kind" "nat c"] by simp
  moreover have "0 \<le> l mod 2 ^ width kind div 2 ^ nat c" by (simp add: pos_imp_zdiv_nonneg_iff)
  ultimately have "\<bar>l mod 2 ^ width kind div 2 ^ nat c\<bar> < 2 ^ 127" by simp
  then show ?thesis unfolding eq by (rule wrap_small)
qed

lemma range_shr:
  assumes "in_integer_range kind l" "0 \<le> c" "c < int (width kind)"
  shows "in_integer_range kind (l mod 2 ^ width kind div 2 ^ nat c) \<longleftrightarrow> 0 \<le> l \<or> 0 < c"
proof -
  let ?w = "width kind" and ?u = "l mod 2 ^ width kind"
  have u: "0 \<le> ?u" "?u < 2 ^ ?w" by auto
  have q: "0 \<le> ?u div 2 ^ nat c" "?u div 2 ^ nat c \<le> ?u"
    using u(1) by (auto simp: pos_imp_zdiv_nonneg_iff intro!: div_power_le)
  show ?thesis
  proof (cases "signed_kind kind")
    case False
    then show ?thesis using assms q u by (simp add: range_unsigned)
  next
    case signed: True
    have w: "(2::int) ^ ?w = 2 * 2 ^ (?w - 1)" using width_bounds(1) [of kind] by (simp flip: power_Suc)
    have l: "- (2 ^ (?w - 1)) \<le> l" "l < 2 ^ (?w - 1)" using assms(1) signed by (simp_all add: range_signed)
    show ?thesis
    proof (cases "0 \<le> l")
      case True
      then have "?u = l" using l(2) w by simp
      then show ?thesis using True q l(2) signed by (simp add: range_signed)
    next
      case neg: False
      have "?u = (l + 2 ^ ?w) mod 2 ^ ?w" by simp
      also have "\<dots> = l + 2 ^ ?w" using neg l w by (intro mod_pos_pos_trivial) linarith+
      finally have ge: "2 ^ (?w - 1) \<le> ?u" using l w by linarith
      show ?thesis
      proof (cases "c = 0")
        case True
        then show ?thesis using neg ge signed by (simp add: range_signed)
      next
        case False
        then obtain k where k: "nat c = Suc k" using assms(2) by (cases "nat c") auto
        have "?u div 2 ^ nat c = ?u div 2 div 2 ^ k" by (simp add: k zdiv_zmult2_eq)
        also have "\<dots> \<le> ?u div 2" using u(1) by (intro div_power_le) (auto simp: pos_imp_zdiv_nonneg_iff)
        also have "\<dots> < 2 ^ (?w - 1)" using u(2) w by linarith
        finally show ?thesis using False assms(2) q(1) signed by (simp add: range_signed)
      qed
    qed
  qed
qed

lemma shift_checked:
  assumes "in_integer_range kind l" "0 \<le> c" "c < int (width kind)"
  shows "shift_integer l c (TInteger kind) True = checked_integer (Some (l * 2 ^ nat c)) (TInteger kind)"
    "shift_integer l c (TInteger kind) False = checked_integer (Some (l mod 2 ^ width kind div 2 ^ nat c)) (TInteger kind)"
  unfolding shl_value [OF assms, symmetric] shr_value [OF assms, symmetric]
  using assms by (simp_all add: shift_integer_def integer_kind_def Let_def)

section \<open>Properties\<close>

abbreviation no_floats :: float_ops where
  "no_floats \<equiv> \<lparr>as_f64 = \<lambda>_. 0, as_f32 = \<lambda>f. f, f_add = \<lambda>a b. a, f_sub = \<lambda>a b. a, f_mul = \<lambda>a b. a, f_div = \<lambda>a b. a,
     f_powf = \<lambda>a b. a, f_trunc = \<lambda>_. 0, f_text = \<lambda>_ _. ''1.0'', catalogue = \<lambda>_ key. key\<rparr>"

abbreviation no_classes :: class_model where "no_classes \<equiv> class_model_new"



text \<open>\<open>DIV\<close> and \<open>%\<close> are Euclidean division: where both give a result, the quotient
  times the divisor plus the remainder is the dividend and the remainder is at least
  zero and below the magnitude of the divisor; a zero divisor stops the program with the
  operator's source spelling.\<close>

theorem euclidean_division:
  assumes "in_integer_range k1 l" "in_integer_range k2 r"
    "binary fo ''DIV'' (VInteger l k1) (VInteger r k2) (TInteger kind) classes pl = Inr (VInteger q kq)"
    "binary fo ''Percent'' (VInteger l k1) (VInteger r k2) (TInteger kind) classes pl = Inr (VInteger m km)"
  shows "l = q * r + m \<and> 0 \<le> m \<and> m < \<bar>r\<bar> \<and>
    binary fo ''Percent'' (VInteger l k1) (VInteger 0 k2) (TInteger kind) classes pl = Inl (DIVISION_BY_ZERO ''%'')"
proof -
  have b: "binary fo op (VInteger x k1) (VInteger y k2) (TInteger kind) classes pl =
      binary_integer op x y (TInteger kind)" if "op \<in> {''DIV'', ''Percent''}" for op x y
    using that by (intro binary_on_integers) (auto simp: is_float_type_def)
  have r: "r \<noteq> 0"
  proof
    assume "r = 0"
    then show False using assms(3) by (simp add: b binary_integer_def)
  qed
  have "exact_result ''DIV'' l r = Some (euclid_div l r)" "exact_result ''Percent'' l r = Some (l mod \<bar>r\<bar>)"
    using r by (simp_all add: exact_result_def)
  note e = binary_integer_exact [OF this(1) assms(1,2), of kind] binary_integer_exact [OF this(2) assms(1,2), of kind]
  have "q = euclid_div l r" using e(1) assms(3) b [of "''DIV''" l r] by auto
  moreover have "m = l mod \<bar>r\<bar>" using e(2) assms(4) b [of "''Percent''" l r] by auto
  moreover have "binary_integer ''Percent'' l 0 (TInteger kind) = Inl (DIVISION_BY_ZERO ''%'')"
    by (simp add: binary_integer_def division_by_zero_def operator_spelling_def)
  ultimately show ?thesis using euclid_laws [OF r, of l] b [of "''Percent''" l 0] by simp
qed

theorem euclidean_division_witness:
  "(7 :: int) = - 3 * - 2 + 1 \<and> (1 :: int) < \<bar>- 2\<bar>"
proof -
  have "binary no_floats ''DIV'' (VInteger 7 Int32) (VInteger (- 2) Int32) (TInteger Int32) no_classes None =
      Inr (VInteger (- 3) Int32)"
    "binary no_floats ''Percent'' (VInteger 7 Int32) (VInteger (- 2) Int32) (TInteger Int32) no_classes None =
      Inr (VInteger 1 Int32)" by code_simp+
  from euclidean_division [OF _ _ this] show ?thesis by (simp add: in_integer_range_def)
qed

text \<open>C34: shifts: for a count from zero to the width less one, \<open>SHL\<close> multiplies by the
  power of two or overflows, and \<open>SHR\<close> divides the operand's bit pattern, as an unsigned
  number of the width, by the power of two, filling with zeros; that result is in the
  type except for a negative operand shifted by zero, which overflows instead of
  staying as it is. Every other count is refused.\<close>

theorem shifts_exact:
  assumes "in_integer_range kind l" "in_integer_range k2 c"
  shows "(let shl = binary fo ''SHL'' (VInteger l kind) (VInteger c k2) (TInteger kind) classes pl;
              shr = binary fo ''SHR'' (VInteger l kind) (VInteger c k2) (TInteger kind) classes pl
     in if 0 \<le> c \<and> c < int (width kind)
        then (if in_integer_range kind (l * 2 ^ nat c) then shl = Inr (VInteger (l * 2 ^ nat c) kind)
              else \<exists>m. shl = Inl (NUMERIC_OVERFLOW m)) \<and>
             (if l < 0 \<and> c = 0 then \<exists>m. shr = Inl (NUMERIC_OVERFLOW m)
              else shr = Inr (VInteger (l mod 2 ^ width kind div 2 ^ nat c) kind))
        else \<exists>m. shl = Inl (INVALID_SHIFT_COUNT m) \<and> shr = Inl (INVALID_SHIFT_COUNT m))"
proof -
  have "binary fo op (VInteger l kind) (VInteger c k2) (TInteger kind) classes pl = binary_integer op l c (TInteger kind)"
    if "op \<in> {''SHL'', ''SHR''}" for op
    using that by (intro binary_on_integers) (auto simp: is_float_type_def)
  then have b: "binary fo ''SHL'' (VInteger l kind) (VInteger c k2) (TInteger kind) classes pl = shift_integer l c (TInteger kind) True"
    "binary fo ''SHR'' (VInteger l kind) (VInteger c k2) (TInteger kind) classes pl = shift_integer l c (TInteger kind) False"
    by (simp_all add: binary_integer_def)
  show ?thesis
  proof (cases "0 \<le> c \<and> c < int (width kind)")
    case True
    then show ?thesis
      using range_shr [OF assms(1), of c] shift_checked [OF assms(1), of c]
      by (simp add: b checked_range_Some linorder_not_le)
  next
    case False
    then show ?thesis unfolding b by (auto simp: shift_integer_def integer_kind_def Let_def)
  qed
qed

theorem shifts_exact_witness:
  "binary no_floats ''SHR'' (VInteger (- 8) Int8) (VInteger 1 Int32) (TInteger Int8) no_classes None =
     Inr (VInteger 124 Int8) \<and>
   (\<exists>m. binary no_floats ''SHR'' (VInteger (- 8) Int8) (VInteger 0 Int32) (TInteger Int8) no_classes None =
     Inl (NUMERIC_OVERFLOW m))"
  using shifts_exact [of Int8 "- 8" Int32 1 no_floats no_classes None]
    shifts_exact [of Int8 "- 8" Int32 0 no_floats no_classes None]
  by (simp add: in_integer_range_def Let_def)

text \<open>\<open>NOT\<close> on an operand of a signed integer type gives the complement of its bits in the
  same type; on every operand of an unsigned type it stops with an overflow.\<close>

theorem not_signed_only:
  assumes "in_integer_range kind n"
  shows "if signed_kind kind then unary fo ''NOT'' (VInteger n kind) (TInteger kind) = Inr (VInteger (NOT n) kind)
    else \<exists>m. unary fo ''NOT'' (VInteger n kind) (TInteger kind) = Inl (NUMERIC_OVERFLOW m)"
  using range_not [OF assms] by (simp add: unary_def Let_def checked_range_Some)

theorem not_signed_only_witness:
  "\<exists>m. unary no_floats ''NOT'' (VInteger 5 UInt16) (TInteger UInt16) = Inl (NUMERIC_OVERFLOW m)"
  using not_signed_only [of UInt16 5 no_floats] by (simp add: in_integer_range_def signed_kind_def)

text \<open>Runtime integers are in the range of their kind.\<close>

definition value_ok :: "bn_value \<Rightarrow> bool" where
  "value_ok v \<longleftrightarrow> (case v of VInteger n kind \<Rightarrow> in_integer_range kind n | _ \<Rightarrow> True)"

lemma value_ok_simps [simp]:
  "value_ok (VInteger n kind) \<longleftrightarrow> in_integer_range kind n" "value_ok (VFloat f k)" "value_ok (VBoolean b)"
  "value_ok (VString s)" "value_ok VNull"
  by (simp_all add: value_ok_def)

lemma checked_integer_ok: "checked_integer v ty = Inr w \<Longrightarrow> value_ok w"
  using checked_integer_typed by fastforce

lemma float_value_ok [simp]: "value_ok (float_value fo f k)"
  by (simp add: float_value_def)

lemma finite_float_ok: "finite_float fo f k = Inr w \<Longrightarrow> value_ok w"
  by (auto simp: finite_float_def split: if_splits)

lemma unary_ok: "unary fo operator v ty = Inr w \<Longrightarrow> value_ok w"
  by (cases v) (auto simp: unary_def Let_def split: if_splits dest: checked_integer_ok)

lemma shift_integer_ok: "shift_integer v c ty left = Inr w \<Longrightarrow> value_ok w"
  by (auto simp: shift_integer_def Let_def split: if_splits dest: checked_integer_ok)

lemma ordered_ok: "ordered operator l r = Inr w \<Longrightarrow> value_ok w"
  by (auto simp: ordered_def split: if_splits)

lemma binary_integer_ok: "binary_integer operator l r ty = Inr w \<Longrightarrow> value_ok w"
  unfolding binary_integer_def
  by (auto split: if_splits option.splits dest: checked_integer_ok shift_integer_ok)

lemma binary_float_ok: "binary_float fo operator l r ty = Inr w \<Longrightarrow> value_ok w"
  by (auto simp: binary_float_def Let_def split: if_splits)

lemma binary_numeric_ok: "binary_numeric fo operator l r ty = Inr w \<Longrightarrow> value_ok w"
  unfolding binary_numeric_def
  by (auto simp: try_sum_Inr split: if_splits option.splits dest: ordered_ok binary_float_ok binary_integer_ok)

lemma binary_ok: "binary fo operator l r ty classes pl = Inr w \<Longrightarrow> value_ok w"
  unfolding binary_def
  by (auto simp: binary_boolean_def binary_string_def split: if_splits option.splits bn_value.splits dest: binary_numeric_ok)

lemma cast_ok: "cast fo v ty = Inr w \<Longrightarrow> value_ok v \<Longrightarrow> value_ok w"
proof -
  assume c: "cast fo v ty = Inr w" and v: "value_ok v"
  have i: "cast_integer fo v t = Inr w \<Longrightarrow> value_ok w" for t
    by (cases v) (auto simp: cast_integer_def split: if_splits dest: checked_integer_ok)
  have s: "cast_string fo v = Inr w \<Longrightarrow> value_ok w"
    using v by (cases v) (auto simp: cast_string_def)
  have n: "cast_named v = Inr w \<Longrightarrow> value_ok w" using v by (cases v) (auto simp: cast_named_def)
  show ?thesis using c v i s n
    by (cases ty) (auto simp: cast_def try_sum_Inr split: if_splits dest: finite_float_ok)
qed

lemma coerce_number_ok: "coerce_number fo v ty = Some (Inr w) \<Longrightarrow> value_ok w"
  by (cases v) (auto simp: coerce_number_def split: if_splits dest: checked_integer_ok finite_float_ok)

lemma coerce_ok: "coerce fo v ty = Inr w \<Longrightarrow> value_ok v \<Longrightarrow> value_ok w"
proof (induction fo v ty rule: coerce.induct)
  case (1 fo v ty)
  show ?case
  proof (cases "coerce_number fo v ty")
    case (Some res)
    then show ?thesis using 1(2) coerce_number_ok by (simp add: coerce.simps [of fo v ty])
  next
    case None
    show ?thesis using 1 None coerce.simps [of fo v ty]
      by (cases ty) (auto split: if_splits option.splits)
  qed
qed

text \<open>C10: operators and conversions keep runtime values well formed: from values whose
  integers lie in the range of their type, every unary and binary operator, \<open>AS\<close>
  conversion and store coercion yields such a value, whatever the operator,
  operands and types.\<close>

theorem operators_keep_values_ok:
  assumes "value_ok v"
  shows "(unary fo operator v ty = Inr w \<longrightarrow> value_ok w) \<and>
    (binary fo operator v u ty classes pl = Inr w \<longrightarrow> value_ok w) \<and>
    (cast fo v ty = Inr w \<longrightarrow> value_ok w) \<and> (coerce fo v ty = Inr w \<longrightarrow> value_ok w)"
  using assms by (auto dest: unary_ok binary_ok cast_ok coerce_ok)

theorem operators_keep_values_ok_witness:
  "cast no_floats (VInteger 7 Int64) (TInteger Byte) = Inr (VInteger 7 Byte) \<and> value_ok (VInteger 7 Byte)"
proof -
  have "cast no_floats (VInteger 7 Int64) (TInteger Byte) = Inr (VInteger 7 Byte)" by code_simp
  moreover have "value_ok (VInteger 7 Int64)" by (simp add: in_integer_range_def)
  ultimately show ?thesis
    using operators_keep_values_ok [of "VInteger 7 Int64" no_floats _ "TInteger Byte" "VInteger 7 Byte"] by blast
qed

text \<open>C35: storing an integer in an alternative type: it stays as it is when its own type is
  an alternative; otherwise it takes the only integer alternative, keeping its number and
  overflowing when it does not fit; with no integer alternative it becomes \<open>NULL\<close> for
  \<open>VOID\<close> and is refused else; and with several integer alternatives, none its own, it keeps
  a type that is none of them.\<close>

theorem coerce_integer_alternative:
  assumes "in_integer_range kind n"
  shows "coerce fo (VInteger n kind) (TAlternative types) =
    (if TInteger kind \<in> set types then Inr (VInteger n kind)
     else case filter (\<lambda>ty. integer_kind ty \<noteq> None) types of
       [] \<Rightarrow> if TNamed ''VOID'' \<in> set types then Inr VNull
             else Inl (TYPE_MISMATCH ''IR destination type'' ''runtime value'' ''IR coercion'')
     | [target] \<Rightarrow> checked_integer (Some n) target
     | _ \<Rightarrow> Inr (VInteger n kind))"
proof -
  have m: "value_matches_type (catalogue fo) (VInteger n kind) ty \<longleftrightarrow> integer_kind ty \<noteq> None" for ty
    by (cases ty) (simp_all add: value_matches_type_def integer_kind_def)
  have f: "numeric_class_matches (VInteger n kind) = (\<lambda>ty. integer_kind ty \<noteq> None)"
    by (simp add: numeric_class_matches_def fun_eq_iff)
  have k: "list_ex (same_numeric_kind (VInteger n kind)) types \<longleftrightarrow> TInteger kind \<in> set types"
    by (auto simp: list_ex_iff same_numeric_kind_def)
  have none: "coerce_number fo (VInteger n kind) (TAlternative types) = None"
    by (simp add: coerce_number_def integer_kind_def)
  have step: "coerce fo (VInteger n kind) target = checked_integer (Some n) target" if "integer_kind target \<noteq> None" for target
    using that by (simp add: coerce.simps [of fo "VInteger n kind" target] coerce_number_def)
  let ?ints = "filter (\<lambda>ty. integer_kind ty \<noteq> None) types"
  have ex: "list_ex (value_matches_type (catalogue fo) (VInteger n kind)) types \<longleftrightarrow> ?ints \<noteq> []"
    by (auto simp: list_ex_iff m filter_empty_conv)
  have own: "TInteger kind \<in> set types \<Longrightarrow> ?ints \<noteq> []" by (auto simp: filter_empty_conv integer_kind_def intro!: bexI [of _ "TInteger kind"])
  show ?thesis
  proof (cases "TInteger kind \<in> set types")
    case True
    then show ?thesis using own ex none k
      by (simp add: coerce.simps [of fo _ "TAlternative types"] widened_alternative_def)
  next
    case False
    show ?thesis
    proof (cases ?ints)
      case Nil
      then show ?thesis using False none k ex f
        by (simp add: coerce.simps [of fo _ "TAlternative types"] widened_alternative_def is_number_def is_error_def)
    next
      case (Cons target more)
      then have t: "integer_kind target \<noteq> None" by (auto simp: filter_eq_Cons_iff)
      show ?thesis using Cons False none k ex f step [OF t]
        by (cases more)
          (simp_all add: coerce.simps [of fo _ "TAlternative types"] widened_alternative_def is_number_def)
    qed
  qed
qed

theorem coerce_integer_alternative_witness:
  "coerce no_floats (VInteger 300 Int32) (TAlternative [TInteger Int64, TNamed ''Error'']) = Inr (VInteger 300 Int64)"
  using coerce_integer_alternative [of Int32 300 no_floats "[TInteger Int64, TNamed ''Error'']"]
  by (simp add: in_integer_range_def integer_kind_def checked_range_Some)

text \<open>The counted \<open>FOR\<close>: \<open>$for_fits\<close> answers true exactly when adding the step in the
  counter's type gives a result, so the increment it guards never overflows; and
  \<open>$for_condition\<close> compares upwards for a positive step, downwards for a negative one,
  and refuses a zero step.\<close>

theorem for_tests_exact:
  assumes "in_integer_range kind c" "in_integer_range k2 s" "in_integer_range k3 e"
  shows "for_fits (VInteger c kind) (VInteger s k2) =
      Inr (VBoolean (binary fo ''Plus'' (VInteger c kind) (VInteger s k2) (TInteger kind) classes pl =
        Inr (VInteger (c + s) kind))) \<and>
    for_condition (VInteger c kind) (VInteger e k3) (VInteger s k2) =
      (if s = 0 then Inl (INVALID_FOR_STEP ''FOR STEP cannot be zero'')
       else Inr (VBoolean (if 0 < s then c \<le> e else e \<le> c)))"
proof -
  have "exact_result ''Plus'' c s = Some (c + s)" by (simp add: exact_result_def)
  note x = binary_integer_exact [OF this assms(1,2), of kind]
  have "binary fo ''Plus'' (VInteger c kind) (VInteger s k2) (TInteger kind) classes pl =
      binary_integer ''Plus'' c s (TInteger kind)"
    by (intro binary_on_integers) (auto simp: is_float_type_def)
  moreover have "(case try_fit i128_ok (c + s) of None \<Rightarrow> False | Some n \<Rightarrow> in_integer_range kind n) \<longleftrightarrow>
      in_integer_range kind (c + s)"
    using range_i128 [of kind "c + s"] by (auto simp: try_fit_def)
  ultimately show ?thesis using x
    by (cases "in_integer_range kind (c + s)") (auto simp: for_fits_def for_condition_def integer_of_def)
qed

theorem for_tests_exact_witness:
  "for_fits (VInteger 120 Int8) (VInteger 10 Int8) = Inr (VBoolean False)"
proof -
  have "binary no_floats ''Plus'' (VInteger 120 Int8) (VInteger 10 Int8) (TInteger Int8) no_classes None \<noteq>
      Inr (VInteger (120 + 10) Int8)" by code_simp
  then show ?thesis using for_tests_exact [of Int8 120 Int8 10 Int8 0 no_floats no_classes None]
    by (simp add: in_integer_range_def)
qed

end
