(* ===== verification/BN_IR.thy ===== *)
theory BN_IR
  imports BN_Types BN_Class_Model
begin

text \<open>
  The intermediate representation: \<open>crates/bn_ir/src/model.rs\<close>, the operand tables of
  \<open>validate/operands.rs\<close> and the method resolution of \<open>dispatch.rs\<close>. Identifiers are
  natural numbers, the ordered maps are association lists with one entry per key, a
  \<open>HashSet\<close> is a set. Source spans, which only place diagnostics, are left out, and so
  are the import records of a module, which hold nothing else. A diagnostic is its
  message.
\<close>

section \<open>Data\<close>

type_synonym block_id = nat
type_synonym value_id = nat
type_synonym symbol_id = nat

record field_ref =
  fr_owner :: str
  fr_id :: nat
  fr_slot :: nat

record field_layout_entry =
  fe_id :: nat
  fe_slot :: nat
  fe_ty :: bn_type
  fe_declaring_owner :: str
  fe_weak :: bool

record field_layout =
  fl_owner :: str
  fl_fields :: "field_layout_entry list"

datatype ir_function_kind =
    KUser | KEntry | KConstructor | KDestructor | KFieldInit | KInit | KDefault | KReleaseFields

datatype ir_constant =
    CInteger str | CFloat str | CString str | CBoolean bool | CNull | CNotAvailable | CEndOfFile
  | CFunction str | CType str | CHostConsole | CHostArgs

datatype (plugins only: code size) instruction =
    IConstant value_id ir_constant bn_type
  | IDefault value_id bn_type "nat list" "value_id list"
  | IPhi value_id "(block_id \<times> value_id) list" bn_type
  | ILoad value_id symbol_id bn_type
  | IRetain value_id value_id bn_type
  | ITake value_id symbol_id bn_type
  | ITakeMember value_id value_id "field_ref option" str str bn_type
  | IEndBinding symbol_id
  | IStore symbol_id value_id "value_id option" bn_type
  | ICopy value_id value_id bn_type
  | IUnary value_id str value_id bn_type
  | IBinary value_id str value_id value_id bn_type
  | ICast value_id value_id bn_type
  | ICall value_id value_id "value_id list" bn_type
  | IDispatchSubmit value_id value_id value_id value_id "value_id list" bn_type
  | IDispatchAwait value_id value_id value_id value_id bn_type
  | IInput value_id "value_id option" bn_type
  | IVector value_id "value_id list" bn_type
  | IIndex value_id value_id value_id bn_type
  | IMember value_id value_id "field_ref option" str str bn_type
  | ISetIndex symbol_id "value_id list" value_id "value_id option" bn_type
  | ISetMemberIndex value_id "field_ref option" str str "value_id list" value_id "value_id option" bn_type
  | ISetFieldIndex symbol_id str "str list" "field_ref list option" "value_id list" value_id "value_id option" bn_type
  | ISetStaticIndex str str "value_id list" value_id "value_id option" bn_type
  | ILength value_id value_id
  | ISizeOf value_id value_id
  | IPrint "value_id list"
  | IClearScreen value_id
  | IBeep value_id
  | IAllocate value_id str "value_id list" bn_type
  | IRelease value_id "str option"
  | ISetMember value_id "field_ref option" str str value_id "value_id option" bn_type
  | ISetField symbol_id str "str list" "field_ref list option" value_id "value_id option" bn_type
  | IEnsureClass str
  | ILoadStatic value_id str str bn_type
  | IStoreStatic str str value_id "value_id option" bn_type

datatype terminator =
    TermJump block_id
  | TermBranch value_id block_id block_id
  | TermReturn "value_id option"
  | TermStop value_id

record basic_block =
  bb_id :: block_id
  bb_instructions :: "instruction list"
  bb_terminator :: terminator

record ir_function =
  fn_name :: str
  fn_kind :: ir_function_kind
  fn_owner :: "str option"
  fn_asynchronous :: bool
  fn_parameters :: "symbol_id list"
  fn_weak_symbols :: "symbol_id set"
  fn_return_type :: bn_type
  fn_entry :: block_id
  fn_blocks :: "basic_block list"

record ir_module =
  m_source_name :: "str option"
  m_functions :: "ir_function list"
  m_field_names :: "str list"
  m_field_layouts :: "(str \<times> field_layout) list"
  m_class_model :: class_model
  m_interfaces :: "str set"
  m_bndata_providers :: "module_id set"
  m_bnmath_providers :: "module_id set"
  m_bnlog_providers :: "module_id set"
  m_bnjson_providers :: "module_id set"
  m_bnweb_providers :: "module_id set"
  m_bndispatch_providers :: "module_id set"
  m_bncrypto_providers :: "module_id set"
  m_bncompress_providers :: "module_id set"
  m_bnsqlite_providers :: "module_id set"
  m_bnffi_providers :: "module_id set"

section \<open>Lookups\<close>

definition find_layout :: "ir_module \<Rightarrow> str \<Rightarrow> field_layout option" where
  "find_layout m owner = map_of (m_field_layouts m) owner"

definition field_named :: "ir_module \<Rightarrow> str \<Rightarrow> field_layout_entry \<Rightarrow> bool" where
  "field_named m name entry \<longleftrightarrow> fe_id entry < length (m_field_names m) \<and> m_field_names m ! fe_id entry = name"

definition field_ref_of :: "ir_module \<Rightarrow> str \<Rightarrow> str \<Rightarrow> field_ref option" where
  "field_ref_of m owner name =
     (case find_layout m owner of
        None \<Rightarrow> None
      | Some layout \<Rightarrow>
          map_option (\<lambda>entry. \<lparr>fr_owner = owner, fr_id = fe_id entry, fr_slot = fe_slot entry\<rparr>)
            (find (field_named m name) (fl_fields layout)))"

definition field_is_weak :: "ir_module \<Rightarrow> field_ref \<Rightarrow> bool" where
  "field_is_weak m field \<longleftrightarrow>
     (case find_layout m (fr_owner field) of
        None \<Rightarrow> False
      | Some layout \<Rightarrow>
          fr_slot field < length (fl_fields layout) \<and>
          fe_weak (fl_fields layout ! fr_slot field) \<and> fe_id (fl_fields layout ! fr_slot field) = fr_id field)"

definition entry_function :: "ir_module \<Rightarrow> ir_function option" where
  "entry_function m = find (\<lambda>f. fn_kind f = KEntry) (m_functions m)"

definition function_of_kind :: "ir_module \<Rightarrow> ir_function_kind \<Rightarrow> str \<Rightarrow> ir_function option" where
  "function_of_kind m kind owner = find (\<lambda>f. fn_kind f = kind \<and> fn_owner f = Some owner) (m_functions m)"

text \<open>\<open>module.compress\<close> of the catalogue is \<open>BNCompress\<close>.\<close>

definition standard_library_of :: "ir_module \<Rightarrow> module_id \<Rightarrow> str option" where
  "standard_library_of m i =
     map_option snd (find (\<lambda>(providers, _). i \<in> providers)
       [(m_bnmath_providers m, ''BNMath''),
        (m_bndata_providers m, ''BNData''),
        (m_bnlog_providers m, ''BNLog''),
        (m_bnjson_providers m, ''BNJson''),
        (m_bnweb_providers m, ''BNWeb''),
        (m_bndispatch_providers m, ''BNDispatch''),
        (m_bncrypto_providers m, ''BNCrypto''),
        (m_bncompress_providers m, ''BNCompress''),
        (m_bnsqlite_providers m, ''BNSqlite''),
        (m_bnffi_providers m, ''BNFfi'')])"

definition kind_of :: "ir_module \<Rightarrow> str \<Rightarrow> ir_function_kind option" where
  "kind_of m name = map_option fn_kind (find (\<lambda>f. fn_name f = name) (m_functions m))"

section \<open>Operand tables\<close>

definition instruction_defines :: "instruction \<Rightarrow> value_id option" where
  "instruction_defines i =
     (case i of
        IConstant d _ _ \<Rightarrow> Some d | IDefault d _ _ _ \<Rightarrow> Some d | IPhi d _ _ \<Rightarrow> Some d | ILoad d _ _ \<Rightarrow> Some d
      | ICopy d _ _ \<Rightarrow> Some d | IUnary d _ _ _ \<Rightarrow> Some d | IBinary d _ _ _ _ \<Rightarrow> Some d | ICast d _ _ \<Rightarrow> Some d
      | ICall d _ _ _ \<Rightarrow> Some d | IDispatchSubmit d _ _ _ _ _ \<Rightarrow> Some d | IDispatchAwait d _ _ _ _ \<Rightarrow> Some d
      | IInput d _ _ \<Rightarrow> Some d | IVector d _ _ \<Rightarrow> Some d | IIndex d _ _ _ \<Rightarrow> Some d
      | IMember d _ _ _ _ _ \<Rightarrow> Some d | ILength d _ \<Rightarrow> Some d | ISizeOf d _ \<Rightarrow> Some d
      | IAllocate d _ _ _ \<Rightarrow> Some d | IRetain d _ _ \<Rightarrow> Some d | ITake d _ _ \<Rightarrow> Some d
      | ITakeMember d _ _ _ _ _ \<Rightarrow> Some d | ILoadStatic d _ _ _ \<Rightarrow> Some d
      | IStore _ _ p _ \<Rightarrow> p | ISetIndex _ _ _ p _ \<Rightarrow> p | ISetMemberIndex _ _ _ _ _ _ p _ \<Rightarrow> p
      | ISetFieldIndex _ _ _ _ _ _ p _ \<Rightarrow> p | ISetStaticIndex _ _ _ _ p _ \<Rightarrow> p
      | ISetMember _ _ _ _ _ p _ \<Rightarrow> p | ISetField _ _ _ _ _ p _ \<Rightarrow> p | IStoreStatic _ _ _ p _ \<Rightarrow> p
      | _ \<Rightarrow> None)"

definition instruction_uses :: "instruction \<Rightarrow> value_id list" where
  "instruction_uses i =
     (case i of
        ICopy _ v _ \<Rightarrow> [v] | IUnary _ _ v _ \<Rightarrow> [v] | ICast _ v _ \<Rightarrow> [v] | ILength _ v \<Rightarrow> [v]
      | ISizeOf _ v \<Rightarrow> [v] | IStore _ v _ _ \<Rightarrow> [v] | IRetain _ v _ \<Rightarrow> [v] | IRelease v _ \<Rightarrow> [v]
      | IBinary _ _ l r _ \<Rightarrow> [l, r]
      | ICall _ callee arguments _ \<Rightarrow> callee # arguments
      | IDispatchSubmit _ callee queue task arguments _ \<Rightarrow> [callee, queue, task] @ arguments
      | IDispatchAwait _ callee ticket timeout _ \<Rightarrow> [callee, ticket, timeout]
      | IVector _ vs _ \<Rightarrow> vs | IPrint vs \<Rightarrow> vs
      | IIndex _ obj ix _ \<Rightarrow> [obj, ix]
      | IMember _ obj _ _ _ _ \<Rightarrow> [obj] | ITakeMember _ obj _ _ _ _ \<Rightarrow> [obj] | IClearScreen c \<Rightarrow> [c] | IBeep c \<Rightarrow> [c]
      | ISetIndex _ indices v _ _ \<Rightarrow> indices @ [v]
      | ISetFieldIndex _ _ _ _ indices v _ _ \<Rightarrow> indices @ [v]
      | ISetStaticIndex _ _ indices v _ _ \<Rightarrow> indices @ [v]
      | ISetMemberIndex obj _ _ _ indices v _ _ \<Rightarrow> [obj] @ indices @ [v]
      | ISetMember obj _ _ _ v _ _ \<Rightarrow> [obj, v]
      | ISetField _ _ _ _ v _ _ \<Rightarrow> [v] | IStoreStatic _ _ v _ _ \<Rightarrow> [v]
      | IAllocate _ _ arguments _ \<Rightarrow> arguments
      | IDefault _ _ _ dynamic \<Rightarrow> dynamic
      | IPhi _ incoming _ \<Rightarrow> map snd incoming
      | IInput _ prompt _ \<Rightarrow> (case prompt of None \<Rightarrow> [] | Some v \<Rightarrow> [v])
      | _ \<Rightarrow> [])"

definition instruction_type :: "instruction \<Rightarrow> bn_type option" where
  "instruction_type i =
     (let previous = (\<lambda>p ty. map_option (\<lambda>_. ty) p)
      in case i of
        IConstant _ _ ty \<Rightarrow> Some ty | IDefault _ ty _ _ \<Rightarrow> Some ty | IPhi _ _ ty \<Rightarrow> Some ty | ILoad _ _ ty \<Rightarrow> Some ty
      | ICopy _ _ ty \<Rightarrow> Some ty | IUnary _ _ _ ty \<Rightarrow> Some ty | IBinary _ _ _ _ ty \<Rightarrow> Some ty | ICast _ _ ty \<Rightarrow> Some ty
      | ICall _ _ _ ty \<Rightarrow> Some ty | IDispatchSubmit _ _ _ _ _ ty \<Rightarrow> Some ty | IDispatchAwait _ _ _ _ ty \<Rightarrow> Some ty
      | IInput _ _ ty \<Rightarrow> Some ty | IVector _ _ ty \<Rightarrow> Some ty | IIndex _ _ _ ty \<Rightarrow> Some ty
      | IMember _ _ _ _ _ ty \<Rightarrow> Some ty | IAllocate _ _ _ ty \<Rightarrow> Some ty | IRetain _ _ ty \<Rightarrow> Some ty
      | ITake _ _ ty \<Rightarrow> Some ty | ITakeMember _ _ _ _ _ ty \<Rightarrow> Some ty | ILoadStatic _ _ _ ty \<Rightarrow> Some ty
      | IStore _ _ p ty \<Rightarrow> previous p ty | ISetIndex _ _ _ p ty \<Rightarrow> previous p ty
      | ISetMemberIndex _ _ _ _ _ _ p ty \<Rightarrow> previous p ty | ISetFieldIndex _ _ _ _ _ _ p ty \<Rightarrow> previous p ty
      | ISetStaticIndex _ _ _ _ p ty \<Rightarrow> previous p ty | ISetMember _ _ _ _ _ p ty \<Rightarrow> previous p ty
      | ISetField _ _ _ _ _ p ty \<Rightarrow> previous p ty | IStoreStatic _ _ _ p ty \<Rightarrow> previous p ty
      | _ \<Rightarrow> None)"

definition instruction_result :: "instruction \<Rightarrow> (value_id \<times> bn_type) option" where
  "instruction_result i =
     (case instruction_defines i of
        None \<Rightarrow> None
      | Some d \<Rightarrow> map_option (Pair d) (instruction_type i))"

text \<open>Every instruction that defines a value has a type for it, except the length and
  size instructions.\<close>

lemma defines_typed:
  "instruction_defines i = Some d \<Longrightarrow>
     instruction_type i = None \<longleftrightarrow> (\<exists>v. i = ILength d v \<or> i = ISizeOf d v)"
  by (cases i) (auto simp: instruction_defines_def instruction_type_def)

section \<open>Method resolution\<close>

definition resolve_method :: "ir_module \<Rightarrow> str \<Rightarrow> str \<Rightarrow> str option" where
  "resolve_method m runtime_class method =
     (let names = map (\<lambda>ancestor. ancestor @ ''.'' @ method) (ancestors (m_class_model m) runtime_class)
      in find (\<lambda>sym. \<exists>f \<in> set (m_functions m). fn_name f = sym) names)"

definition dispatch_targets :: "ir_module \<Rightarrow> str \<Rightarrow> str \<Rightarrow> (str \<times> str) list" where
  "dispatch_targets m static_type method =
     List.map_filter (\<lambda>cls. map_option (Pair cls) (resolve_method m cls method))
       (filter (\<lambda>cls. cls = static_type \<or> is_upcast (m_class_model m) cls static_type)
         (map fst (m_field_layouts m)))"

end
