(* ===== verification/BN_IR_Rules.thy ===== *)
theory BN_IR_Rules
  imports BN_IR
begin

text \<open>
  The type rules of the validator: \<open>crates/bn_ir/src/validate/upcast.rs\<close>,
  \<open>validate/index.rs\<close> and the type predicates of \<open>validate.rs\<close>.
\<close>

section \<open>Kinds of types\<close>

definition ir_integer_type :: "bn_type \<Rightarrow> bool" where
  "ir_integer_type ty \<longleftrightarrow> (case ty of TInteger _ \<Rightarrow> True | TIntegerLiteral _ \<Rightarrow> True | _ \<Rightarrow> False)"

definition ir_float_type :: "bn_type \<Rightarrow> bool" where
  "ir_float_type ty \<longleftrightarrow> (case ty of TFloat _ \<Rightarrow> True | TFloatLiteral \<Rightarrow> True | _ \<Rightarrow> False)"

definition ir_numeric_type :: "bn_type \<Rightarrow> bool" where
  "ir_numeric_type ty \<longleftrightarrow> ir_integer_type ty \<or> ir_float_type ty"

definition is_numeric_pair :: "bn_type \<Rightarrow> bn_type \<Rightarrow> bool" where
  "is_numeric_pair l r \<longleftrightarrow> ir_numeric_type l \<and> ir_numeric_type r"

definition is_integer_pair :: "bn_type \<Rightarrow> bn_type \<Rightarrow> bool" where
  "is_integer_pair l r \<longleftrightarrow> ir_integer_type l \<and> ir_integer_type r"

definition is_type_test_type :: "bn_type \<Rightarrow> bool" where
  "is_type_test_type ty \<longleftrightarrow> (case ty of TTypeName _ \<Rightarrow> True | TImportedTypeName _ _ \<Rightarrow> True | _ \<Rightarrow> False)"

definition is_void_type :: "bn_type \<Rightarrow> bool" where
  "is_void_type ty \<longleftrightarrow> ty = TNamed ''VOID''"

definition is_named_value_type :: "bn_type \<Rightarrow> bool" where
  "is_named_value_type ty \<longleftrightarrow> (case ty of TNamed _ \<Rightarrow> True | TImportedNamed _ _ \<Rightarrow> True | _ \<Rightarrow> False)"

fun contains_named_type :: "bn_type \<Rightarrow> str \<Rightarrow> bool" where
  "contains_named_type (TNamed actual) name \<longleftrightarrow> actual = name"
| "contains_named_type (TTypeName actual) name \<longleftrightarrow> actual = name"
| "contains_named_type (TImportedNamed _ actual) name \<longleftrightarrow> actual = name"
| "contains_named_type (TImportedTypeName _ actual) name \<longleftrightarrow> actual = name"
| "contains_named_type (TAlternative options) name \<longleftrightarrow> (\<exists>option \<in> set options. contains_named_type option name)"
| "contains_named_type _ name \<longleftrightarrow> False"

definition is_dispatch_wait_handle :: "bn_type \<Rightarrow> bool" where
  "is_dispatch_wait_handle ty \<longleftrightarrow>
     list_ex (contains_named_type ty) [''Ticket'', ''Group'', ''Barrier'', ''Semaphore'', ''Mutex'']"

text \<open>\<open>u64::MAX\<close> is the dynamic dimension.\<close>

definition DYNAMIC :: int where "DYNAMIC = 18446744073709551615"

definition dimensions_match :: "int list \<Rightarrow> int list \<Rightarrow> bool" where
  "dimensions_match as es \<longleftrightarrow>
     length as = length es \<and> list_all (\<lambda>(a, e). a = e \<or> a = DYNAMIC \<or> e = DYNAMIC) (zip as es)"

text \<open>\<open>rsplit('.').next()\<close>.\<close>

definition final_part :: "str \<Rightarrow> str" where
  "final_part s = rev (takeWhile (\<lambda>b. b \<noteq> CHR ''.'') (rev s))"

section \<open>Compatibility\<close>

function types_compatible :: "bn_type \<Rightarrow> bn_type \<Rightarrow> bool" where
  "types_compatible actual expected \<longleftrightarrow>
     actual = expected
     \<or> (case (actual, expected) of
          (TImportedNamed _ a, TNamed e) \<Rightarrow> final_part e = a
        | (TNamed e, TImportedNamed _ a) \<Rightarrow> final_part e = a
        | (TImportedNamed _ a, TImportedNamed _ e) \<Rightarrow> a = e
        | (TIntegerLiteral _, TInteger _) \<Rightarrow> True
        | (TFloatLiteral, TFloat _) \<Rightarrow> True
        | (TPointer _ _, TNamed name) \<Rightarrow> name = ''POINTER''
        | (TPointer a al, TPointer e el) \<Rightarrow>
            is_void_type a \<or> is_void_type e \<or> types_compatible a e \<and> (al = el \<or> el = LenDynamic)
        | (TVector a ad, TVector e ed) \<Rightarrow> types_compatible a e \<and> dimensions_match ad ed
        | (TPointer a _, TVector e ed) \<Rightarrow> length ed = 1 \<and> ir_numeric_type a \<and> ir_numeric_type e
        | (TAlternative as, TAlternative es) \<Rightarrow>
            length as = length es \<and> (\<forall>a \<in> set as. \<exists>e \<in> set es. types_compatible a e)
              \<and> (\<forall>e \<in> set es. \<exists>a \<in> set as. types_compatible a e)
        | _ \<Rightarrow> False)
     \<or> (case expected of TAlternative es \<Rightarrow> \<exists>e \<in> set es. types_compatible actual e | _ \<Rightarrow> False)"
  by pat_completeness auto
termination
proof (relation "measure (\<lambda>(a, e). size a + size e)", goal_cases)
  case (4 actual expected x y as es a e)
  then show ?case
    using size_list_estimation' [of a as "size a" size] size_list_estimation' [of e es "size e" size] by auto
next
  case (5 actual expected x y as es e a)
  then show ?case
    using size_list_estimation' [of a as "size a" size] size_list_estimation' [of e es "size e" size] by auto
next
  case (6 actual expected es e)
  then show ?case using size_list_estimation' [of e es "size e" size] by auto
qed auto

declare types_compatible.simps [simp del]

definition alternative_widens :: "bn_type \<Rightarrow> bn_type \<Rightarrow> bool" where
  "alternative_widens actual expected \<longleftrightarrow>
     (case (actual, expected) of
        (TAlternative members, TAlternative accepted) \<Rightarrow>
          (\<forall>member \<in> set members. \<exists>option \<in> set accepted. types_compatible member option)
      | _ \<Rightarrow> False)"

definition assignment_types_compatible :: "bn_type \<Rightarrow> bn_type \<Rightarrow> bool" where
  "assignment_types_compatible actual expected \<longleftrightarrow>
     actual = TUnknown \<or> expected = TUnknown
     \<or> types_compatible actual expected
     \<or> alternative_widens actual expected
     \<or> is_named_value_type actual \<and> is_named_value_type expected
     \<or> (case (actual, expected) of (TPointer a _, TPointer e _) \<Rightarrow> types_compatible a e | _ \<Rightarrow> False)"

definition nominal_name :: "bn_type \<Rightarrow> str option" where
  "nominal_name ty =
     (case ty of
        TNamed name \<Rightarrow> Some name
      | TImportedNamed i name \<Rightarrow> Some (''#'' @ show_int i @ ''.'' @ name)
      | _ \<Rightarrow> None)"

definition type_is_upcast :: "ir_module \<Rightarrow> bn_type \<Rightarrow> bn_type \<Rightarrow> bool" where
  "type_is_upcast m actual expected \<longleftrightarrow>
     (case (nominal_name actual, nominal_name expected) of
        (Some a, Some e) \<Rightarrow> is_upcast (m_class_model m) a e
      | _ \<Rightarrow> False)"

fun upcast_compatible :: "ir_module \<Rightarrow> bn_type \<Rightarrow> bn_type \<Rightarrow> bool" where
  "upcast_compatible m (TVector a ad) (TVector e ed) \<longleftrightarrow>
     type_is_upcast m (TVector a ad) (TVector e ed)
     \<or> (types_compatible a e \<or> upcast_compatible m a e) \<and> dimensions_match ad ed"
| "upcast_compatible m actual expected \<longleftrightarrow> type_is_upcast m actual expected"

definition store_compatible :: "ir_module \<Rightarrow> bn_type \<Rightarrow> bn_type \<Rightarrow> bool" where
  "store_compatible m actual expected \<longleftrightarrow>
     assignment_types_compatible actual expected \<or> upcast_compatible m actual expected"

definition element_compatible :: "ir_module \<Rightarrow> bn_type \<Rightarrow> bn_type \<Rightarrow> bool" where
  "element_compatible m actual expected \<longleftrightarrow> types_compatible actual expected \<or> upcast_compatible m actual expected"

fun call_types_compatible :: "ir_module \<Rightarrow> bn_type \<Rightarrow> bn_type \<Rightarrow> bool" where
  "call_types_compatible m actual expected \<longleftrightarrow>
     types_compatible actual expected \<or> alternative_widens actual expected \<or> is_numeric_pair actual expected
     \<or> type_is_upcast m actual expected
     \<or> (case actual of
          TVector element dimensions \<Rightarrow> length dimensions = 1 \<and> ir_numeric_type element \<and> ir_numeric_type expected
        | _ \<Rightarrow> False)
     \<or> (case (actual, expected) of
          (TVector a ad, TVector e ed) \<Rightarrow> call_types_compatible m a e \<and> dimensions_match ad ed
        | _ \<Rightarrow> False)"

declare call_types_compatible.simps [simp del]

section \<open>Index results\<close>

definition nullable_pointer_element :: "bn_type list \<Rightarrow> bn_type \<Rightarrow> bool" where
  "nullable_pointer_element members res \<longleftrightarrow>
     (if length members \<noteq> 2 \<or> TNull \<notin> set members then False
      else case find (\<lambda>member. case member of TPointer _ _ \<Rightarrow> True | _ \<Rightarrow> False) members of
        Some (TPointer element _) \<Rightarrow> types_compatible element res
      | _ \<Rightarrow> False)"

definition index_result_matches :: "bn_type \<Rightarrow> bn_type \<Rightarrow> bool" where
  "index_result_matches obj res \<longleftrightarrow>
     (case obj of
        TVector element dimensions \<Rightarrow>
          types_compatible (if length dimensions > 1 then TVector element (tl dimensions) else element) res
      | TPointer element _ \<Rightarrow> types_compatible element res
      | TAlternative members \<Rightarrow> nullable_pointer_element members res
      | TString \<Rightarrow> res = TString
      | THostArgs \<Rightarrow> res = TString
      | TUnknown \<Rightarrow> True
      | _ \<Rightarrow> False)"

section \<open>Operators, conversions, constants\<close>

definition is_comparable :: "bn_type \<Rightarrow> bn_type \<Rightarrow> bool" where
  "is_comparable l r \<longleftrightarrow> types_compatible l r \<or> types_compatible r l \<or> is_numeric_pair l r"

definition valid_binary_types :: "str \<Rightarrow> bn_type \<Rightarrow> bn_type \<Rightarrow> bn_type \<Rightarrow> bool" where
  "valid_binary_types operator l r res \<longleftrightarrow>
     (if operator \<in> {''Assign'', ''NotEqual''} then is_comparable l r \<and> res = TBoolean
      else if operator \<in> {''Less'', ''LessEqual'', ''Greater'', ''GreaterEqual''} then
        res = TBoolean \<and> (is_numeric_pair l r \<or> l = TString \<and> r = TString)
      else if operator \<in> {''AND'', ''OR'', ''XOR''} then
        l = TBoolean \<and> r = TBoolean \<and> res = TBoolean \<or> is_integer_pair l r \<and> ir_integer_type res
      else if operator \<in> {''DIV'', ''Percent'', ''SHL'', ''SHR''} then is_integer_pair l r \<and> ir_integer_type res
      else if operator = ''Plus'' \<and> (l = TString \<or> r = TString) then l = TString \<and> r = TString \<and> res = TString
      else if operator \<in> {''Plus'', ''Minus'', ''Star'', ''Power''} then is_numeric_pair l r \<and> ir_numeric_type res
      else if operator = ''Slash'' then is_numeric_pair l r \<and> ir_float_type res
      else if operator = ''IS'' then is_type_test_type r \<and> res = TBoolean
      else False)"

definition valid_unary_types :: "str \<Rightarrow> bn_type \<Rightarrow> bn_type \<Rightarrow> bool" where
  "valid_unary_types operator operand res \<longleftrightarrow>
     (if operator = ''Minus'' then ir_numeric_type operand \<and> ir_numeric_type res
      else if operator = ''NOT'' then operand = TBoolean \<and> res = TBoolean \<or> ir_integer_type operand \<and> ir_integer_type res
      else False)"

definition valid_cast_types :: "bn_type \<Rightarrow> bn_type \<Rightarrow> bool" where
  "valid_cast_types source target \<longleftrightarrow>
     (if source = target then True
      else ir_numeric_type source \<and> (ir_numeric_type target \<or> target = TBoolean)
        \<or> source = TString \<and> target = TBoolean
        \<or> (ir_numeric_type source \<or> source = TBoolean) \<and> target = TString
        \<or> source \<in> {TNull, TNotAvailable, TEndOfFile} \<and> target = TBoolean)"

definition constant_matches_type :: "ir_constant \<Rightarrow> bn_type \<Rightarrow> bool" where
  "constant_matches_type c ty \<longleftrightarrow>
     (case c of
        CInteger _ \<Rightarrow> ir_integer_type ty
      | CFloat _ \<Rightarrow> ir_float_type ty
      | CString _ \<Rightarrow> ty = TString
      | CBoolean _ \<Rightarrow> ty = TBoolean
      | CNull \<Rightarrow> (case ty of TNull \<Rightarrow> True | TPointer _ _ \<Rightarrow> True | TNamed name \<Rightarrow> name = ''VOID'' | _ \<Rightarrow> False)
      | CNotAvailable \<Rightarrow> ty = TNotAvailable
      | CEndOfFile \<Rightarrow> ty = TEndOfFile
      | CFunction _ \<Rightarrow> (case ty of TFunction _ _ \<Rightarrow> True | TUnknown \<Rightarrow> True | _ \<Rightarrow> False)
      | CType _ \<Rightarrow>
          (case ty of
             TTypeName _ \<Rightarrow> True | TImportedTypeName _ _ \<Rightarrow> True | TNamed _ \<Rightarrow> True | TModule _ \<Rightarrow> True
           | THostClock \<Rightarrow> True | THostRandom \<Rightarrow> True | THostFileSystem \<Rightarrow> True | THostNet \<Rightarrow> True
           | THostExec \<Rightarrow> True | THostEnv \<Rightarrow> True | _ \<Rightarrow> False)
      | CHostConsole \<Rightarrow> ty = THostConsole
      | CHostArgs \<Rightarrow> ty = THostArgs)"

text \<open>The element type of a vector type; the code reaches it only with a vector.\<close>

definition vector_element_type :: "bn_type \<Rightarrow> bn_type" where
  "vector_element_type vector =
     (case vector of
        TVector element dimensions \<Rightarrow> if length dimensions \<le> 1 then element else TVector element (tl dimensions)
      | other \<Rightarrow> other)"

end
