(* ===== verification/BN_IR_Fields.thy ===== *)
theory BN_IR_Fields
  imports BN_IR
begin

text \<open>
  Classes, field layouts and function kinds of a module:
  \<open>crates/bn_ir/src/validate/fields.rs\<close> and \<open>validate/kinds.rs\<close>. The walks along the
  base classes of \<open>layout_owner_contains\<close> and \<open>owner_is_or_derives_from\<close> have fuel for
  one step more than there are classes with a base; the validator checks first that
  the bases have no cycle, and then the fuel is enough (\<open>chain_reaches\<close>).
\<close>

section \<open>Base classes\<close>

function acyclic_from :: "(str \<times> str) list \<Rightarrow> str \<Rightarrow> str list \<Rightarrow> bool" where
  "acyclic_from bs current seen \<longleftrightarrow>
     (case map_of bs current of
        None \<Rightarrow> True
      | Some parent \<Rightarrow> if current \<in> set seen then False else acyclic_from bs parent (current # seen))"
  by pat_completeness auto
termination
proof (relation "measure (\<lambda>(bs, current, seen). card (fst ` set bs - set seen))", goal_cases)
  case (2 bs current seen parent)
  then have "current \<in> fst ` set bs - set seen" using map_of_SomeD [of bs current parent] by force
  then have "fst ` set bs - set (current # seen) \<subset> fst ` set bs - set seen" by auto
  then show ?case by (simp add: psubset_card_mono)
qed simp

declare acyclic_from.simps [simp del]

definition check_identity :: "ir_module \<Rightarrow> str \<Rightarrow> str + unit" where
  "check_identity m identity =
     reject_if (\<not> (\<exists>f \<in> set (m_functions m). fn_name f = identity @ ''.$fields''))
       (''class layout metadata references missing class '' @ [CHR 0x27] @ identity @ [CHR 0x27])"

definition validate_class_base :: "ir_module \<Rightarrow> str \<times> str \<Rightarrow> str + unit" where
  "validate_class_base m = (\<lambda>(cls, base).
     try_sum (reject_if (cls = [] \<or> base = []) ''class and base identities cannot be empty'') (\<lambda>_.
     try_sum (reject_if (\<not> acyclic_from (bases (m_class_model m)) cls [])
       ''class inheritance metadata must be acyclic'') (\<lambda>_.
     for_each (check_identity m) [cls, base])))"

definition validate_class_bases :: "ir_module \<Rightarrow> str + unit" where
  "validate_class_bases m = for_each (validate_class_base m) (bases (m_class_model m))"

fun owner_chain :: "nat \<Rightarrow> (str \<times> str) list \<Rightarrow> str \<Rightarrow> str \<Rightarrow> bool" where
  "owner_chain 0 bs current target \<longleftrightarrow> current = target"
| "owner_chain (Suc n) bs current target \<longleftrightarrow>
     (if current = target then True
      else case map_of bs current of None \<Rightarrow> False | Some base \<Rightarrow> owner_chain n bs base target)"

definition layout_owner_contains :: "ir_module \<Rightarrow> str \<Rightarrow> str \<Rightarrow> bool" where
  "layout_owner_contains m owner declaring_owner =
     owner_chain (Suc (length (bases (m_class_model m)))) (bases (m_class_model m)) owner declaring_owner"

definition owner_is_or_derives_from :: "ir_module \<Rightarrow> str \<Rightarrow> str \<Rightarrow> bool" where
  "owner_is_or_derives_from m receiver_owner field_owner =
     owner_chain (Suc (length (bases (m_class_model m)))) (bases (m_class_model m)) receiver_owner field_owner"

section \<open>Field layouts\<close>

fun field_names_loop :: "str list \<Rightarrow> str list \<Rightarrow> str + unit" where
  "field_names_loop [] seen = Inr ()"
| "field_names_loop (name # names) seen =
     (if name = [] then Inl ''field names cannot be empty''
      else if name \<in> set seen then Inl ''field names must be unique''
      else field_names_loop names (name # seen))"

definition same_layout_field :: "field_layout_entry \<Rightarrow> field_layout_entry \<Rightarrow> bool" where
  "same_layout_field derived base \<longleftrightarrow>
     fe_id derived = fe_id base \<and> fe_slot derived = fe_slot base \<and> fe_ty derived = fe_ty base \<and>
     fe_declaring_owner derived = fe_declaring_owner base \<and> fe_weak derived = fe_weak base"

fun layout_fields_loop :: "ir_module \<Rightarrow> str \<Rightarrow> nat \<Rightarrow> nat list \<Rightarrow> field_layout_entry list \<Rightarrow> str + unit" where
  "layout_fields_loop m owner index ids [] = Inr ()"
| "layout_fields_loop m owner index ids (field # rest_fields) =
     (if \<not> u32_ok (int index) then Inl ''field layout has too many fields''
      else if fe_slot field \<noteq> index then Inl ''field layout slots must be dense and ordered''
      else if length (m_field_names m) \<le> fe_id field then Inl ''field ID is absent from the name table''
      else if fe_id field \<in> set ids then Inl ''field layout contains a duplicate field ID''
      else if fe_declaring_owner field = [] \<or> \<not> layout_owner_contains m owner (fe_declaring_owner field)
        then Inl ''field declaring owner is not in the layout hierarchy''
      else layout_fields_loop m owner (Suc index) (fe_id field # ids) rest_fields)"

definition prefix_violated :: "ir_module \<Rightarrow> str \<Rightarrow> field_layout \<Rightarrow> bool" where
  "prefix_violated m owner layout \<longleftrightarrow>
     (case map_of (bases (m_class_model m)) owner of
        None \<Rightarrow> False
      | Some base_owner \<Rightarrow>
          (case find_layout m base_owner of
             None \<Rightarrow> False
           | Some base_layout \<Rightarrow>
               length (fl_fields layout) < length (fl_fields base_layout) \<or>
               \<not> list_all (\<lambda>(derived, base). same_layout_field derived base)
                   (zip (fl_fields layout) (fl_fields base_layout))))"

definition validate_layout :: "ir_module \<Rightarrow> str \<times> field_layout \<Rightarrow> str + unit" where
  "validate_layout m = (\<lambda>(owner, layout).
     try_sum (reject_if (owner = [] \<or> fl_owner layout = [] \<or> fl_owner layout \<noteq> owner)
       ''field layout owner must be non-empty and match its module key'') (\<lambda>_.
     try_sum (layout_fields_loop m owner 0 [] (fl_fields layout)) (\<lambda>_.
     reject_if (prefix_violated m owner layout) ''derived field layout must preserve the base layout prefix'')))"

definition validate_field_layouts :: "ir_module \<Rightarrow> str + unit" where
  "validate_field_layouts m =
     try_sum (field_names_loop (m_field_names m) []) (\<lambda>_. for_each (validate_layout m) (m_field_layouts m))"

section \<open>Field references\<close>

definition validate_field_reference :: "ir_module \<Rightarrow> str \<Rightarrow> str \<Rightarrow> field_ref \<Rightarrow> str + bn_type" where
  "validate_field_reference m owner name field =
     (case field_ref_of m owner name of
        None \<Rightarrow> Inl ''member field does not resolve in its owner layout''
      | Some expected \<Rightarrow>
          if field \<noteq> expected then Inl ''resolved member field does not match its owner layout''
          else case find_layout m owner of
            None \<Rightarrow> Inl ''member owner has no field layout''
          | Some layout \<Rightarrow>
              if fr_slot field < length (fl_fields layout) then Inr (fe_ty (fl_fields layout ! fr_slot field))
              else Inl ''resolved member slot is absent'')"

definition record_owner_for_type :: "ir_module \<Rightarrow> str \<Rightarrow> bn_type \<Rightarrow> str option" where
  "record_owner_for_type m current_owner ty =
     (let found = (\<lambda>owner. if find_layout m owner \<noteq> None then Some owner else None)
      in case ty of
        TImportedNamed i name \<Rightarrow> found (''#'' @ show_int i @ ''.'' @ name)
      | TNamed name \<Rightarrow>
          if find_layout m name \<noteq> None then Some name
          else
            let tail_length = length (takeWhile (\<lambda>b. b \<noteq> CHR ''.'') (rev current_owner));
                prefix = (if CHR ''.'' \<in> set current_owner
                  then take (length current_owner - tail_length - 1) current_owner else [])
            in found (if prefix = [] then name else prefix @ ''.'' @ name)
      | _ \<Rightarrow> None)"

fun field_path_loop :: "ir_module \<Rightarrow> str \<Rightarrow> (str \<times> field_ref) list \<Rightarrow> str + bn_type" where
  "field_path_loop m owner [] = Inl ''field path has no terminal field''"
| "field_path_loop m owner ((name, field) # rest_path) =
     (case field_ref_of m owner name of
        None \<Rightarrow> Inl ''field path does not resolve in its owner layout''
      | Some expected \<Rightarrow>
          if field \<noteq> expected then Inl ''resolved field path does not match its owner layout''
          else case find_layout m owner of
            None \<Rightarrow> Inl ''field path owner has no layout''
          | Some layout \<Rightarrow>
              if \<not> fr_slot field < length (fl_fields layout) then Inl ''resolved field slot is absent''
              else
                let entry = fl_fields layout ! fr_slot field
                in if rest_path = [] then Inr (fe_ty entry)
                   else case record_owner_for_type m owner (fe_ty entry) of
                     None \<Rightarrow> Inl ''non-final field path component is not a record''
                   | Some next_owner \<Rightarrow> field_path_loop m next_owner rest_path)"

definition validate_resolved_field_path ::
  "ir_module \<Rightarrow> str \<Rightarrow> str list \<Rightarrow> field_ref list option \<Rightarrow> str + bn_type" where
  "validate_resolved_field_path m root_owner path resolved =
     (if root_owner = [] \<or> path = [] \<or> [] \<in> set path then Inl ''field path cannot be empty''
      else case resolved of
        None \<Rightarrow> Inl ''field path store must carry resolved fields''
      | Some refs \<Rightarrow>
          if length refs \<noteq> length path then Inl ''resolved field path length must match its spelling path''
          else field_path_loop m root_owner (zip path refs))"

fun receiver_matches_owner :: "ir_module \<Rightarrow> bn_type \<Rightarrow> str \<Rightarrow> bool" where
  "receiver_matches_owner m receiver owner \<longleftrightarrow>
     (let candidates = (\<lambda>name. filter (\<lambda>candidate. candidate = name \<or>
            (case strip_suffix name candidate of None \<Rightarrow> False | Some prefix \<Rightarrow> ends_with ''.'' prefix))
            (map fst (m_field_layouts m)))
      in case receiver of
        TImportedNamed i name \<Rightarrow> owner_is_or_derives_from m (''#'' @ show_int i @ ''.'' @ name) owner
      | TNamed name \<Rightarrow> list_ex (\<lambda>candidate. owner_is_or_derives_from m candidate owner) (candidates name)
      | TTypeName name \<Rightarrow> list_ex (\<lambda>candidate. owner_is_or_derives_from m candidate owner) (candidates name)
      | TAlternative options \<Rightarrow> (\<exists>option \<in> set options. receiver_matches_owner m option owner)
      | _ \<Rightarrow> False)"

declare receiver_matches_owner.simps [simp del]

section \<open>Function kinds\<close>

definition is_void_return :: "bn_type \<Rightarrow> bool" where
  "is_void_return ty \<longleftrightarrow> ty = TNamed ''VOID''"

definition validate_lifecycle_function :: "ir_function \<Rightarrow> str + unit" where
  "validate_lifecycle_function f =
     (if fn_owner f = None
      then Inl ''constructor, destructor, field-init, field-release and init functions need an owner class''
      else if fn_kind f \<noteq> KInit \<and> fn_parameters f = []
      then Inl ''constructor, destructor, field-init and field-release functions take SELF first''
      else if fn_kind f \<in> {KDestructor, KReleaseFields} \<and> \<not> is_void_return (fn_return_type f)
      then Inl (if fn_kind f = KDestructor then ''destructor must return VOID'' else ''field release must return VOID'')
      else Inr ())"

fun kinds_loop :: "nat \<Rightarrow> ir_function list \<Rightarrow> str + unit" where
  "kinds_loop entries [] = Inr ()"
| "kinds_loop entries (f # fs) =
     (case fn_kind f of
        KEntry \<Rightarrow>
          if Suc entries > 1 then Inl ''module declares more than one entry function''
          else if fn_parameters f \<noteq> [] then Inl ''entry function must not take parameters''
          else kinds_loop (Suc entries) fs
      | KDefault \<Rightarrow>
          if fn_owner f = None then Inl ''default constructor needs an owner struct''
          else if fn_parameters f \<noteq> [] then Inl ''default constructor must not take parameters''
          else kinds_loop entries fs
      | KUser \<Rightarrow> kinds_loop entries fs
      | _ \<Rightarrow> try_sum (validate_lifecycle_function f) (\<lambda>_. kinds_loop entries fs))"

definition validate_function_kinds :: "ir_module \<Rightarrow> str + unit" where
  "validate_function_kinds m = kinds_loop 0 (m_functions m)"

section \<open>The walks along the bases\<close>

definition base_rel :: "(str \<times> str) list \<Rightarrow> (str \<times> str) set" where
  "base_rel bs = {(c, b). map_of bs c = Some b}"

lemma base_rel_extends: "base_rel (bases cm) = extends cm"
  by (simp add: base_rel_def extends_def)

lemma acyclic_from_fresh:
  "acyclic_from bs current seen \<Longrightarrow> (current, x) \<in> (base_rel bs)\<^sup>* \<Longrightarrow> map_of bs x \<noteq> None \<Longrightarrow> x \<notin> set seen"
proof (induction bs current seen rule: acyclic_from.induct)
  case (1 bs current seen)
  show ?case
  proof (cases "x = current")
    case True
    then show ?thesis using 1(2,4) by (subst (asm) acyclic_from.simps) (auto split: if_splits)
  next
    case False
    then obtain b where b: "map_of bs current = Some b" "(b, x) \<in> (base_rel bs)\<^sup>*"
      using 1(3) by (auto simp: base_rel_def elim: converse_rtranclE)
    then have "current \<notin> set seen" "acyclic_from bs b (current # seen)"
      using 1(2) by (subst (asm) acyclic_from.simps; auto split: if_splits)+
    then show ?thesis using 1(1) [OF b(1) _ _ b(2) 1(4)] by simp
  qed
qed

lemma bases_acyclic:
  assumes "validate_class_bases m = Inr ()"
  shows "acyclic (extends (m_class_model m))"
proof (rule acyclicI, intro allI notI)
  fix c
  let ?bs = "bases (m_class_model m)"
  assume "(c, c) \<in> (extends (m_class_model m))\<^sup>+"
  then obtain b where b: "map_of ?bs c = Some b" "(b, c) \<in> (base_rel ?bs)\<^sup>*"
    by (auto simp: base_rel_extends extends_def dest: tranclD)
  then have "acyclic_from ?bs c []"
    using assms map_of_SomeD [OF b(1)]
    by (fastforce simp: validate_class_bases_def for_each_Inr validate_class_base_def try_sum_Inr)
  then have "acyclic_from ?bs b [c]" using b(1) by (subst (asm) acyclic_from.simps) simp
  from acyclic_from_fresh [OF this b(2)] b(1) show False by simp
qed

lemma chain_sound: "owner_chain n bs c t \<Longrightarrow> (c, t) \<in> (base_rel bs)\<^sup>*"
proof (induction n arbitrary: c)
  case (Suc n)
  then show ?case
    by (auto simp: base_rel_def split: if_splits option.splits intro: converse_rtrancl_into_rtrancl)
qed simp

lemma chain_complete:
  assumes "acyclic (base_rel bs)"
  shows "(c, t) \<in> (base_rel bs)\<^sup>* \<Longrightarrow> card {x. (c, x) \<in> (base_rel bs)\<^sup>* \<and> map_of bs x \<noteq> None} \<le> n \<Longrightarrow>
    owner_chain n bs c t"
proof (induction n arbitrary: c)
  let ?K = "\<lambda>c. {x. (c, x) \<in> (base_rel bs)\<^sup>* \<and> map_of bs x \<noteq> None}"
  have fin: "finite (?K c)" for c
    by (rule finite_subset [of _ "dom (map_of bs)"]) (auto simp: finite_dom_map_of)
  {
    case 0
    then have "map_of bs c = None" using fin [of c] by auto
    then show ?case using 0(1) by (auto simp: base_rel_def elim: converse_rtranclE)
  next
    case (Suc n)
    show ?case
    proof (cases "c = t")
      case False
      then obtain b where b: "map_of bs c = Some b" "(b, t) \<in> (base_rel bs)\<^sup>*"
        using Suc(2) by (auto simp: base_rel_def elim: converse_rtranclE)
      then have e: "(c, b) \<in> base_rel bs" by (simp add: base_rel_def)
      have "?K b \<subset> ?K c"
      proof
        show "?K b \<subseteq> ?K c" using e by (auto intro: converse_rtrancl_into_rtrancl)
        have "(b, c) \<notin> (base_rel bs)\<^sup>*"
          using e assms by (metis acyclic_def rtrancl_into_trancl2)
        then show "?K b \<noteq> ?K c" using b(1) by blast
      qed
      then have "card (?K b) < card (?K c)" using fin by (intro psubset_card_mono)
      then show ?thesis using Suc(1) [OF b(2)] Suc(3) b(1) by simp
    qed simp
  }
qed

lemma chain_reaches:
  assumes "acyclic (base_rel bs)"
  shows "owner_chain (Suc (length bs)) bs c t \<longleftrightarrow> (c, t) \<in> (base_rel bs)\<^sup>*"
proof
  assume r: "(c, t) \<in> (base_rel bs)\<^sup>*"
  have "{x. (c, x) \<in> (base_rel bs)\<^sup>* \<and> map_of bs x \<noteq> None} \<subseteq> set (map fst bs)"
  proof
    fix x
    assume "x \<in> {x. (c, x) \<in> (base_rel bs)\<^sup>* \<and> map_of bs x \<noteq> None}"
    then show "x \<in> set (map fst bs)" by (simp add: map_of_eq_None_iff)
  qed
  from card_mono [OF _ this] card_length [of "map fst bs"]
  have "card {x. (c, x) \<in> (base_rel bs)\<^sup>* \<and> map_of bs x \<noteq> None} \<le> length bs" by simp
  then show "owner_chain (Suc (length bs)) bs c t" by (intro chain_complete [OF assms r] le_SucI)
qed (rule chain_sound)

section \<open>Accepted layouts\<close>

lemma field_names_accepted:
  "field_names_loop names seen = Inr () \<Longrightarrow> distinct names \<and> set names \<inter> set seen = {} \<and> [] \<notin> set names"
  by (induction names seen rule: field_names_loop.induct) (auto split: if_splits)

lemma layout_fields_accepted:
  "layout_fields_loop m owner index ids es = Inr () \<Longrightarrow>
     distinct (map fe_id es) \<and> set (map fe_id es) \<inter> set ids = {} \<and>
     (\<forall>i < length es. fe_slot (es ! i) = index + i \<and> fe_id (es ! i) < length (m_field_names m) \<and>
        layout_owner_contains m owner (fe_declaring_owner (es ! i)))"
proof (induction m owner index ids es rule: layout_fields_loop.induct)
  case (2 m owner index ids e es)
  then show ?case by (auto split: if_splits simp: nth_Cons' less_Suc_eq_0_disj)
qed simp

lemma same_field_eq: "same_layout_field d b \<longleftrightarrow> d = b"
  by (cases d; cases b) (auto simp: same_layout_field_def)

lemma prefix_kept:
  assumes "\<not> prefix_violated m owner layout" "map_of (bases (m_class_model m)) owner = Some b"
    "find_layout m b = Some base_layout"
  shows "take (length (fl_fields base_layout)) (fl_fields layout) = fl_fields base_layout"
  using assms
  by (intro nth_equalityI) (auto simp: prefix_violated_def same_field_eq list_all_length)

lemma layout_accepted:
  assumes "validate_field_layouts m = Inr ()" "find_layout m owner = Some layout"
  shows "fl_owner layout = owner \<and> layout_fields_loop m owner 0 [] (fl_fields layout) = Inr () \<and>
    \<not> prefix_violated m owner layout \<and> distinct (m_field_names m)"
  using assms map_of_SomeD [of "m_field_layouts m" owner layout] field_names_accepted [of "m_field_names m" "[]"]
  by (fastforce simp: validate_field_layouts_def try_sum_Inr for_each_Inr validate_layout_def find_layout_def)

definition layouts_between :: "ir_module \<Rightarrow> str \<Rightarrow> str \<Rightarrow> bool" where
  "layouts_between m d owner \<longleftrightarrow>
     (\<forall>c. (d, c) \<in> (extends (m_class_model m))\<^sup>* \<and> (c, owner) \<in> (extends (m_class_model m))\<^sup>* \<longrightarrow> find_layout m c \<noteq> None)"

lemma inherited_prefix:
  assumes "validate_field_layouts m = Inr ()" "(d, owner) \<in> (extends (m_class_model m))\<^sup>*" "layouts_between m d owner"
    "find_layout m d = Some ld" "find_layout m owner = Some lo"
  shows "take (length (fl_fields lo)) (fl_fields ld) = fl_fields lo"
  using assms(2-4)
proof (induction d arbitrary: ld rule: converse_rtrancl_induct)
  case base
  then show ?case using assms(5) by simp
next
  case (step d b)
  then obtain lb where lb: "find_layout m b = Some lb"
    unfolding layouts_between_def by (metis converse_rtrancl_into_rtrancl not_None_eq r_into_rtrancl rtrancl.rtrancl_refl)
  have "layouts_between m b owner"
    using step(1,4) unfolding layouts_between_def by (meson converse_rtrancl_into_rtrancl)
  then have IH: "take (length (fl_fields lo)) (fl_fields lb) = fl_fields lo" using step(3) lb by blast
  have "take (length (fl_fields lb)) (fl_fields ld) = fl_fields lb"
    using layout_accepted [OF assms(1) step(5)] prefix_kept [OF _ _ lb, of d ld] step(1) by (simp add: extends_def)
  moreover have "length (fl_fields lo) \<le> length (fl_fields lb)" using IH by (metis length_take min.cobounded1)
  ultimately show ?case using IH by (metis min.absorb1 take_take)
qed

lemma field_ref_of_Some:
  assumes "field_ref_of m owner name = Some field"
  obtains layout i where "find_layout m owner = Some layout" "i < length (fl_fields layout)"
    "field_named m name (fl_fields layout ! i)"
    "field = \<lparr>fr_owner = owner, fr_id = fe_id (fl_fields layout ! i), fr_slot = fe_slot (fl_fields layout ! i)\<rparr>"
  using assms by (auto simp: field_ref_of_def find_Some_iff split: option.splits)

lemma name_unique:
  assumes "validate_field_layouts m = Inr ()" "find_layout m owner = Some layout"
    "i < length (fl_fields layout)" "j < length (fl_fields layout)"
    "field_named m name (fl_fields layout ! i)" "field_named m name (fl_fields layout ! j)"
  shows "i = j"
proof -
  note a = layout_accepted [OF assms(1,2)]
  have "fe_id (fl_fields layout ! i) = fe_id (fl_fields layout ! j)"
    using a assms(5,6) nth_eq_iff_index_eq [of "m_field_names m"] by (metis field_named_def)
  then show ?thesis
    using layout_fields_accepted a assms(3,4) by (metis length_map nth_eq_iff_index_eq nth_map)
qed

section \<open>Properties\<close>


definition animal_dog :: ir_module where
  "animal_dog =
     (let legs = \<lparr>fe_id = 0, fe_slot = 0, fe_ty = TInteger Int32, fe_declaring_owner = ''Animal'', fe_weak = False\<rparr>;
          mate = \<lparr>fe_id = 1, fe_slot = 1, fe_ty = TNamed ''Dog'', fe_declaring_owner = ''Dog'', fe_weak = True\<rparr>;
          init = (\<lambda>cls. \<lparr>fn_name = cls @ ''.$fields'', fn_kind = KFieldInit, fn_owner = Some cls, fn_asynchronous = False,
            fn_parameters = [0], fn_weak_symbols = {}, fn_return_type = TNamed ''VOID'', fn_entry = 0,
            fn_blocks = [\<lparr>bb_id = 0, bb_instructions = [], bb_terminator = TermReturn None\<rparr>]\<rparr>)
      in \<lparr>m_source_name = None, m_functions = [init ''Animal'', init ''Dog''], m_field_names = [''legs'', ''mate''],
          m_field_layouts = [(''Animal'', \<lparr>fl_owner = ''Animal'', fl_fields = [legs]\<rparr>),
            (''Dog'', \<lparr>fl_owner = ''Dog'', fl_fields = [legs, mate]\<rparr>)],
          m_class_model = \<lparr>bases = [(''Dog'', ''Animal'')], interfaces = []\<rparr>, m_interfaces = {},
          m_bndata_providers = {}, m_bnmath_providers = {}, m_bnlog_providers = {}, m_bnjson_providers = {},
          m_bnweb_providers = {}, m_bndispatch_providers = {}, m_bncrypto_providers = {}, m_bncompress_providers = {},
          m_bnsqlite_providers = {}, m_bnffi_providers = {}\<rparr>)"

lemma animal_dog_extends: "extends (m_class_model animal_dog) = {(''Dog'', ''Animal'')}"
proof -
  have "bases (m_class_model animal_dog) = [(''Dog'', ''Animal'')]" by (simp add: animal_dog_def Let_def)
  then show ?thesis by (auto simp: extends_def split: if_split_asm)
qed

lemma animal_dog_reaches: "(''Dog'', c) \<in> (extends (m_class_model animal_dog))\<^sup>* \<Longrightarrow> c = ''Dog'' \<or> c = ''Animal''"
  unfolding animal_dog_extends by (induction rule: rtrancl_induct) auto


text \<open>C36: a module whose class bases are accepted has no inheritance cycle, so the walks
  along the bases return, and they decide exactly whether a class is or derives from
  another; every class named in the bases has its field initialiser in the module.\<close>

theorem base_walks_exact:
  assumes "validate_class_bases m = Inr ()"
  shows "acyclic (extends (m_class_model m)) \<and>
    (owner_is_or_derives_from m c owner \<longleftrightarrow> (c, owner) \<in> (extends (m_class_model m))\<^sup>*) \<and>
    (layout_owner_contains m c owner \<longleftrightarrow> (c, owner) \<in> (extends (m_class_model m))\<^sup>*) \<and>
    (\<forall>(cls, base) \<in> set (bases (m_class_model m)).
       \<forall>identity \<in> {cls, base}. \<exists>f \<in> set (m_functions m). fn_name f = identity @ ''.$fields'')"
proof (intro conjI)
  show a: "acyclic (extends (m_class_model m))" using assms by (rule bases_acyclic)
  then have "owner_chain (Suc (length (bases (m_class_model m)))) (bases (m_class_model m)) c owner \<longleftrightarrow>
      (c, owner) \<in> (extends (m_class_model m))\<^sup>*"
    using chain_reaches [of "bases (m_class_model m)" c owner] by (simp add: base_rel_extends)
  then show "owner_is_or_derives_from m c owner \<longleftrightarrow> (c, owner) \<in> (extends (m_class_model m))\<^sup>*"
    "layout_owner_contains m c owner \<longleftrightarrow> (c, owner) \<in> (extends (m_class_model m))\<^sup>*"
    by (simp_all add: owner_is_or_derives_from_def layout_owner_contains_def)
  show "\<forall>(cls, base) \<in> set (bases (m_class_model m)).
       \<forall>identity \<in> {cls, base}. \<exists>f \<in> set (m_functions m). fn_name f = identity @ ''.$fields''"
    using assms
    by (fastforce simp: validate_class_bases_def for_each_Inr validate_class_base_def try_sum_Inr check_identity_def)
qed

theorem base_walks_exact_witness:
  "owner_is_or_derives_from animal_dog ''Dog'' ''Animal'' \<longleftrightarrow> (''Dog'', ''Animal'') \<in> (extends (m_class_model animal_dog))\<^sup>*"
proof -
  have "validate_class_bases animal_dog = Inr ()" by code_simp
  then show ?thesis using base_walks_exact [of animal_dog "''Dog''" "''Animal''"] by blast
qed

text \<open>Function kinds are accepted exactly when there is at most one entry function and
  it takes no parameters, every default constructor has an owner and no parameters, every
  constructor, destructor, initialiser and release function has an owner and, the
  construction helper apart, takes the receiver, and destructors and field releases return
  nothing.\<close>

theorem function_kinds_exact:
  "validate_function_kinds m = Inr () \<longleftrightarrow>
     length (filter (\<lambda>f. fn_kind f = KEntry) (m_functions m)) \<le> 1 \<and>
     (\<forall>f \<in> set (m_functions m).
        (fn_kind f = KEntry \<longrightarrow> fn_parameters f = []) \<and>
        (fn_kind f = KDefault \<longrightarrow> fn_owner f \<noteq> None \<and> fn_parameters f = []) \<and>
        (fn_kind f \<in> {KConstructor, KDestructor, KFieldInit, KInit, KReleaseFields} \<longrightarrow>
           fn_owner f \<noteq> None \<and> (fn_kind f \<noteq> KInit \<longrightarrow> fn_parameters f \<noteq> [])) \<and>
        (fn_kind f \<in> {KDestructor, KReleaseFields} \<longrightarrow> fn_return_type f = TNamed ''VOID''))"
proof -
  have "kinds_loop n fs = Inr () \<longleftrightarrow>
     n + length (filter (\<lambda>f. fn_kind f = KEntry) fs) \<le> max n 1 \<and>
     (\<forall>f \<in> set fs.
        (fn_kind f = KEntry \<longrightarrow> fn_parameters f = []) \<and>
        (fn_kind f = KDefault \<longrightarrow> fn_owner f \<noteq> None \<and> fn_parameters f = []) \<and>
        (fn_kind f \<in> {KConstructor, KDestructor, KFieldInit, KInit, KReleaseFields} \<longrightarrow>
           fn_owner f \<noteq> None \<and> (fn_kind f \<noteq> KInit \<longrightarrow> fn_parameters f \<noteq> [])) \<and>
        (fn_kind f \<in> {KDestructor, KReleaseFields} \<longrightarrow> fn_return_type f = TNamed ''VOID''))" for n fs
  proof (induction n fs rule: kinds_loop.induct)
    case (2 n f fs)
    then show ?case
      by (cases "fn_kind f")
        (auto simp: validate_lifecycle_function_def is_void_return_def try_sum_Inr)
  qed simp
  from this [of 0] show ?thesis by (simp add: validate_function_kinds_def)
qed

theorem function_kinds_exact_witness:
  "\<forall>f \<in> set (m_functions animal_dog). fn_owner f \<noteq> None"
proof -
  have "validate_function_kinds animal_dog = Inr ()" by code_simp
  then show ?thesis using function_kinds_exact [of animal_dog] by (auto simp: animal_dog_def Let_def)
qed

end
