(* ===== verification/BN_IR_Check.thy ===== *)
theory BN_IR_Check
  imports BN_IR_Rules BN_IR_Fields
begin

text \<open>
  The type contract of an instruction: \<open>validate_instruction_types\<close> and
  \<open>validate_return_type\<close> of \<open>crates/bn_ir/src/validate.rs\<close>. The types of the values
  of a function are a map; the arms of the large match are one definition per group
  of instructions, in the order of the code.
\<close>

type_synonym value_types = "value_id \<Rightarrow> bn_type option"

definition is_integer :: "bn_type option \<Rightarrow> bool" where
  "is_integer ty \<longleftrightarrow> (case ty of Some t \<Rightarrow> ir_integer_type t | None \<Rightarrow> False)"

definition is_boolean :: "bn_type option \<Rightarrow> bool" where
  "is_boolean ty \<longleftrightarrow> ty = Some TBoolean"

definition is_function_type :: "bn_type \<Rightarrow> bool" where
  "is_function_type ty \<longleftrightarrow> (case ty of TFunction _ _ \<Rightarrow> True | _ \<Rightarrow> False)"

text \<open>\<open>is_none_or(|ty| !p(ty))\<close>.\<close>

definition lacks :: "value_types \<Rightarrow> value_id \<Rightarrow> (bn_type \<Rightarrow> bool) \<Rightarrow> bool" where
  "lacks types v p \<longleftrightarrow> (case types v of None \<Rightarrow> True | Some ty \<Rightarrow> \<not> p ty)"

lemma lacks_iff: "\<not> lacks types v p \<longleftrightarrow> (\<exists>ty. types v = Some ty \<and> p ty)"
  by (auto simp: lacks_def split: option.splits)

section \<open>Groups of instructions\<close>

definition check_stored :: "ir_module \<Rightarrow> value_types \<Rightarrow> value_id \<Rightarrow> bn_type \<Rightarrow> str + unit" where
  "check_stored m types v ty =
     reject_if (lacks types v (\<lambda>t. store_compatible m t ty)) ''stored value does not match its declared type''"

definition check_vector :: "ir_module \<Rightarrow> value_types \<Rightarrow> value_id list \<Rightarrow> bn_type \<Rightarrow> str + unit" where
  "check_vector m types vs ty =
     (case ty of
        TVector _ dimensions \<Rightarrow>
          if (case dimensions of [] \<Rightarrow> False | d # _ \<Rightarrow> d \<noteq> DYNAMIC \<and> d \<noteq> int (length vs))
          then Inl ''vector value count does not match its first dimension''
          else reject_if (list_ex (\<lambda>v. lacks types v (\<lambda>t. element_compatible m t (vector_element_type ty))) vs)
            ''vector element does not match the vector element type''
      | _ \<Rightarrow> Inl ''vector instruction must produce a vector type'')"

definition check_unary :: "value_types \<Rightarrow> str \<Rightarrow> value_id \<Rightarrow> bn_type \<Rightarrow> str + unit" where
  "check_unary types operator operand ty =
     (case types operand of
        None \<Rightarrow> Inl ''unary operand has no type''
      | Some t \<Rightarrow> reject_if (\<not> valid_unary_types operator t ty)
          (''unary operator '' @ operator @ '' has incompatible operand/result types''))"

definition check_binary :: "value_types \<Rightarrow> str \<Rightarrow> value_id \<Rightarrow> value_id \<Rightarrow> bn_type \<Rightarrow> str + unit" where
  "check_binary types operator l r ty =
     (case (types l, types r) of
        (Some lt, Some rt) \<Rightarrow> reject_if (\<not> valid_binary_types operator lt rt ty)
          (''binary operator '' @ operator @ '' has incompatible operand/result types'')
      | _ \<Rightarrow> Inl ''binary operand has no type'')"

definition check_cast :: "value_types \<Rightarrow> value_id \<Rightarrow> bn_type \<Rightarrow> str + unit" where
  "check_cast types v ty =
     (case types v of
        None \<Rightarrow> Inl ''cast source has no type''
      | Some t \<Rightarrow> reject_if (\<not> valid_cast_types t ty) ''cast source and target types are not convertible'')"

definition vector_overload :: "value_types \<Rightarrow> bn_type list \<Rightarrow> value_id list \<Rightarrow> bool" where
  "vector_overload types parameters arguments \<longleftrightarrow>
     length parameters = 2 \<and> length arguments = 1 \<and>
     (case types (hd arguments) of
        Some (TVector element dimensions) \<Rightarrow> length dimensions = 1 \<and> ir_numeric_type element
      | Some (TPointer element _) \<Rightarrow> ir_numeric_type element
      | _ \<Rightarrow> False)"

definition check_call :: "ir_module \<Rightarrow> value_types \<Rightarrow> value_id \<Rightarrow> value_id list \<Rightarrow> bn_type \<Rightarrow> str + unit" where
  "check_call m types callee arguments ty =
     (case types callee of
        None \<Rightarrow> Inl ''call callee has no type''
      | Some (TFunction parameters return_type) \<Rightarrow>
          reject_if
            (\<not> vector_overload types parameters arguments \<and> length parameters \<noteq> length arguments
             \<or> list_ex (\<lambda>(argument, parameter).
                 lacks types argument (\<lambda>t. vector_overload types parameters arguments \<or> call_types_compatible m t parameter))
                 (zip arguments parameters)
             \<or> \<not> call_types_compatible m return_type ty)
            ''call arguments or result do not match the callee signature''
      | Some callee_type \<Rightarrow> reject_if (callee_type \<noteq> TUnknown) ''call callee must have a function type'')"

definition check_submit :: "value_types \<Rightarrow> value_id \<Rightarrow> value_id \<Rightarrow> str + unit" where
  "check_submit types queue_value task =
     try_sum (reject_if (case types queue_value of None \<Rightarrow> False | Some t \<Rightarrow> \<not> contains_named_type t ''Queue'')
       ''dispatch submission requires a BNDispatch.Queue'') (\<lambda>_.
     reject_if (case types task of None \<Rightarrow> False | Some t \<Rightarrow> \<not> (is_function_type t \<or> t = TUnknown))
       ''dispatch submission task must be a function'')"

definition check_await :: "value_types \<Rightarrow> value_id \<Rightarrow> value_id \<Rightarrow> str + unit" where
  "check_await types ticket_value timeout =
     try_sum (reject_if (case types ticket_value of None \<Rightarrow> False | Some t \<Rightarrow> \<not> is_dispatch_wait_handle t)
       ''dispatch wait requires a BNDispatch synchronization handle'') (\<lambda>_.
     reject_if (\<not> is_integer (types timeout)) ''dispatch await timeout must have an integer type'')"

definition check_console :: "value_types \<Rightarrow> value_id \<Rightarrow> str + unit" where
  "check_console types console =
     reject_if (types console \<noteq> Some THostConsole) ''console control instruction requires HOST.Console''"

definition check_names :: "str \<Rightarrow> str \<Rightarrow> str + unit" where
  "check_names name owner = reject_if (name = [] \<or> owner = []) ''member name and owner class cannot be empty''"

definition check_receiver :: "ir_module \<Rightarrow> value_types \<Rightarrow> value_id \<Rightarrow> str \<Rightarrow> str \<Rightarrow> str + unit" where
  "check_receiver m types obj owner message = reject_if (lacks types obj (\<lambda>t. receiver_matches_owner m t owner)) message"

text \<open>A read of a resolved field, and of a field of function type, which is not stored
  in the record.\<close>

definition check_member_read ::
  "ir_module \<Rightarrow> value_types \<Rightarrow> value_id \<Rightarrow> field_ref \<Rightarrow> str \<Rightarrow> str \<Rightarrow> bn_type \<Rightarrow> str + unit" where
  "check_member_read m types obj field name owner ty =
     (if is_function_type ty then Inr ()
      else
        try_sum (validate_field_reference m owner name field) (\<lambda>field_ty.
        try_sum (check_receiver m types obj owner ''member receiver does not match its owner layout'') (\<lambda>_.
        reject_if (\<not> types_compatible field_ty ty) ''member result type does not match its field layout'')))"

definition check_member_store ::
  "ir_module \<Rightarrow> value_types \<Rightarrow> value_id \<Rightarrow> field_ref option \<Rightarrow> str \<Rightarrow> str \<Rightarrow> bn_type \<Rightarrow> str + unit" where
  "check_member_store m types obj field name owner ty =
     (case field of
        None \<Rightarrow> Inl ''record member store must carry a resolved field''
      | Some fr \<Rightarrow>
          try_sum (validate_field_reference m owner name fr) (\<lambda>field_ty.
          try_sum (check_receiver m types obj owner ''member receiver does not match its owner layout'') (\<lambda>_.
          reject_if (\<not> types_compatible ty field_ty) ''member store type does not match its field layout'')))"

definition check_indices :: "value_types \<Rightarrow> value_id list \<Rightarrow> str \<Rightarrow> str + unit" where
  "check_indices types indices message =
     reject_if (indices = [] \<or> list_ex (\<lambda>ix. \<not> is_integer (types ix)) indices) message"

definition check_member_index_store ::
  "ir_module \<Rightarrow> value_types \<Rightarrow> value_id \<Rightarrow> field_ref option \<Rightarrow> str \<Rightarrow> str \<Rightarrow> value_id list \<Rightarrow> bn_type \<Rightarrow> str + unit" where
  "check_member_index_store m types obj field name owner indices ty =
     (case field of
        None \<Rightarrow> Inl ''record member store must carry a resolved field''
      | Some fr \<Rightarrow>
          try_sum (validate_field_reference m owner name fr) (\<lambda>field_ty.
          try_sum (check_receiver m types obj owner ''indexed member store receiver does not match its owner layout'') (\<lambda>_.
          try_sum (reject_if (\<not> index_result_matches field_ty ty)
            ''indexed member store type does not match its field layout'') (\<lambda>_.
          check_indices types indices ''indexed store requires at least one integer index''))))"

definition check_field_store ::
  "ir_module \<Rightarrow> str \<Rightarrow> str list \<Rightarrow> field_ref list option \<Rightarrow> bn_type \<Rightarrow> str + unit" where
  "check_field_store m root_owner path resolved ty =
     try_sum (validate_resolved_field_path m root_owner path resolved) (\<lambda>field_ty.
     reject_if (\<not> types_compatible ty field_ty) ''field store type does not match its field layout'')"

definition check_field_index_store ::
  "ir_module \<Rightarrow> value_types \<Rightarrow> str \<Rightarrow> str list \<Rightarrow> field_ref list option \<Rightarrow> value_id list \<Rightarrow> bn_type \<Rightarrow> str + unit" where
  "check_field_index_store m types root_owner path resolved indices ty =
     try_sum (validate_resolved_field_path m root_owner path resolved) (\<lambda>field_ty.
     try_sum (reject_if (\<not> index_result_matches field_ty ty)
       ''indexed field store type does not match its field layout'') (\<lambda>_.
     check_indices types indices ''indices must be non-empty integers''))"

definition check_static :: "str \<Rightarrow> str \<Rightarrow> str + unit" where
  "check_static cls field = reject_if (cls = [] \<or> field = []) ''static member class and field names cannot be empty''"

definition check_index :: "value_types \<Rightarrow> value_id \<Rightarrow> value_id \<Rightarrow> bn_type \<Rightarrow> str + unit" where
  "check_index types obj ix ty =
     try_sum (reject_if (\<not> is_integer (types ix)) ''index must have an integer type'') (\<lambda>_.
     reject_if (case types obj of None \<Rightarrow> False | Some t \<Rightarrow> \<not> index_result_matches t ty)
       ''indexed object and result types are incompatible'')"

section \<open>The contract\<close>

definition validate_instruction_types :: "ir_module \<Rightarrow> instruction \<Rightarrow> value_types \<Rightarrow> str + unit" where
  "validate_instruction_types m i types =
     (case i of
        IConstant _ c ty \<Rightarrow> reject_if (\<not> constant_matches_type c ty) ''constant value does not match its declared type''
      | ILength d _ \<Rightarrow> reject_if (\<not> is_integer (types d)) ''length and sizeof results must have an integer type''
      | ISizeOf d _ \<Rightarrow> reject_if (\<not> is_integer (types d)) ''length and sizeof results must have an integer type''
      | ICopy _ source ty \<Rightarrow>
          reject_if (lacks types source (\<lambda>t. types_compatible t ty)) ''copied value does not match its type''
      | IStore _ v _ ty \<Rightarrow> check_stored m types v ty
      | IDefault _ _ _ dynamic \<Rightarrow>
          reject_if (list_ex (\<lambda>v. \<not> is_integer (types v)) dynamic) ''dynamic vector dimensions must have integer type''
      | IVector _ vs ty \<Rightarrow> check_vector m types vs ty
      | IUnary _ operator operand ty \<Rightarrow> check_unary types operator operand ty
      | IBinary _ operator l r ty \<Rightarrow> check_binary types operator l r ty
      | ICast _ v ty \<Rightarrow> check_cast types v ty
      | ICall _ callee arguments ty \<Rightarrow> check_call m types callee arguments ty
      | IDispatchSubmit _ _ queue_value task _ _ \<Rightarrow> check_submit types queue_value task
      | IDispatchAwait _ _ ticket_value timeout _ \<Rightarrow> check_await types ticket_value timeout
      | IClearScreen console \<Rightarrow> check_console types console
      | IBeep console \<Rightarrow> check_console types console
      | IMember _ obj field name owner ty \<Rightarrow>
          try_sum (check_names name owner) (\<lambda>_.
            case field of
              None \<Rightarrow> reject_if (\<not> is_function_type ty) ''record member access must carry a resolved field''
            | Some fr \<Rightarrow> check_member_read m types obj fr name owner ty)
      | ITakeMember _ obj field name owner ty \<Rightarrow>
          try_sum (check_names name owner) (\<lambda>_.
            case field of
              None \<Rightarrow> Inl ''record member store must carry a resolved field''
            | Some fr \<Rightarrow> check_member_read m types obj fr name owner ty)
      | ISetMember obj field name owner v _ ty \<Rightarrow>
          try_sum (check_stored m types v ty) (\<lambda>_. try_sum (check_names name owner) (\<lambda>_.
            check_member_store m types obj field name owner ty))
      | ISetMemberIndex obj field name owner indices v _ ty \<Rightarrow>
          try_sum (check_stored m types v ty) (\<lambda>_. try_sum (check_names name owner) (\<lambda>_.
            check_member_index_store m types obj field name owner indices ty))
      | ISetField _ root_owner path resolved v _ ty \<Rightarrow>
          try_sum (check_stored m types v ty) (\<lambda>_. check_field_store m root_owner path resolved ty)
      | ISetFieldIndex _ root_owner path resolved indices v _ ty \<Rightarrow>
          try_sum (check_stored m types v ty) (\<lambda>_. check_field_index_store m types root_owner path resolved indices ty)
      | ISetIndex _ indices v _ ty \<Rightarrow>
          try_sum (check_stored m types v ty) (\<lambda>_.
            check_indices types indices ''indexed store requires at least one integer index'')
      | ISetStaticIndex cls field indices v _ ty \<Rightarrow>
          try_sum (check_stored m types v ty) (\<lambda>_. try_sum (check_static cls field) (\<lambda>_.
            check_indices types indices ''indexed store requires at least one integer index''))
      | ILoadStatic _ cls field _ \<Rightarrow> check_static cls field
      | IStoreStatic cls field v _ ty \<Rightarrow> try_sum (check_stored m types v ty) (\<lambda>_. check_static cls field)
      | IEnsureClass cls \<Rightarrow> reject_if (cls = []) ''class name cannot be empty''
      | IAllocate _ type_name _ _ \<Rightarrow> reject_if (type_name = []) ''allocated type name cannot be empty''
      | IRelease _ destructor \<Rightarrow> reject_if (destructor = Some []) ''destructor name cannot be empty''
      | IIndex _ obj ix ty \<Rightarrow> check_index types obj ix ty
      | _ \<Rightarrow> Inr ())"

definition validate_return_type :: "ir_module \<Rightarrow> ir_function \<Rightarrow> value_id option \<Rightarrow> value_types \<Rightarrow> str + unit" where
  "validate_return_type m f v types =
     (let ty = fn_return_type f;
          void_only = is_void_type ty;
          allows_void = (void_only \<or> (case ty of TAlternative members \<Rightarrow> list_ex is_void_type members | _ \<Rightarrow> False))
      in case v of
        Some value \<Rightarrow>
          if void_only then Inl ''VOID function cannot return a value''
          else reject_if (lacks types value (\<lambda>t. types_compatible t ty \<or> alternative_widens t ty \<or> type_is_upcast m t ty))
            ''return value does not match the function return type''
      | None \<Rightarrow> reject_if (\<not> void_only \<and> \<not> allows_void) ''non-VOID function must return a value'')"

end
