(* ===== verification/BN_IR_Flow.thy ===== *)
theory BN_IR_Flow
  imports BN_IR "HOL-Library.While_Combinator"
begin

text \<open>
  The control flow of a function and its definite-assignment analysis:
  \<open>block_successors\<close>, \<open>reachable_blocks\<close> and the fixpoint loop of \<open>validate\<close> in
  \<open>crates/bn_ir/src/validate.rs\<close>. The fixpoint loop is \<open>while_option\<close>: \<open>None\<close> is a
  loop that never ends. Walks through the blocks are the reference: the loop ends when
  the entry is the first block, its result is then what every walk defines, and there
  is a function with another entry block on which it runs forever.
\<close>

section \<open>Successors and predecessors\<close>

definition block_successors :: "terminator \<Rightarrow> nat list" where
  "block_successors t =
     (case t of
        TermJump target \<Rightarrow> [target]
      | TermBranch _ then_block else_block \<Rightarrow> [then_block, else_block]
      | _ \<Rightarrow> [])"

definition successors_of :: "basic_block list \<Rightarrow> nat list list" where
  "successors_of blocks = map (\<lambda>b. block_successors (bb_terminator b)) blocks"

definition add_predecessor :: "nat \<Rightarrow> nat \<Rightarrow> nat list list \<Rightarrow> nat list list" where
  "add_predecessor index target preds = preds[target := preds ! target @ [index]]"

definition predecessors_of :: "nat list list \<Rightarrow> nat list list" where
  "predecessors_of succs =
     fold (\<lambda>index preds. fold (add_predecessor index) (succs ! index) preds) [0..<length succs]
       (replicate (length succs) [])"

lemma count_mark:
  "i < length xs \<Longrightarrow> \<not> xs ! i \<Longrightarrow> length (filter Not xs) = Suc (length (filter Not (xs[i := True])))"
proof (induction xs arbitrary: i)
  case (Cons x xs)
  then show ?case by (cases i) auto
qed simp

text \<open>The stack of pending blocks has its top first. A target outside the function,
  where the code would panic, is refused before.\<close>

function reachable_loop :: "nat list list \<Rightarrow> bool list \<Rightarrow> nat list \<Rightarrow> bool list" where
  "reachable_loop succs reached [] = reached"
| "reachable_loop succs reached (index # pending) =
     (if length reached \<le> index \<or> reached ! index then reachable_loop succs reached pending
      else reachable_loop succs (reached[index := True]) (rev (succs ! index) @ pending))"
  by pat_completeness auto
termination
proof (relation "measures [\<lambda>(succs, reached, pending). length (filter Not reached), \<lambda>(succs, reached, pending). length pending]",
    goal_cases)
  case (3 succs reached index pending)
  then show ?case using count_mark [of index reached] by simp
qed simp_all

definition reachable_blocks :: "nat \<Rightarrow> nat list list \<Rightarrow> bool list" where
  "reachable_blocks entry succs = reachable_loop succs (replicate (length succs) False) [entry]"

section \<open>The fixpoint loop\<close>

definition define_all :: "instruction list \<Rightarrow> value_id set \<Rightarrow> value_id set" where
  "define_all instrs s = fold (\<lambda>i s. case instruction_defines i of None \<Rightarrow> s | Some d \<Rightarrow> insert d s) instrs s"

record flow_graph =
  fg_blocks :: "basic_block list"
  fg_entry :: nat
  fg_predecessors :: "nat list list"
  fg_reachable :: "bool list"

definition flow_graph_of :: "ir_function \<Rightarrow> flow_graph" where
  "flow_graph_of f =
     (let succs = successors_of (fn_blocks f)
      in \<lparr>fg_blocks = fn_blocks f, fg_entry = fn_entry f, fg_predecessors = predecessors_of succs,
          fg_reachable = reachable_blocks (fn_entry f) succs\<rparr>)"

text \<open>The meet over the reachable predecessors of a block.\<close>

definition next_incoming :: "flow_graph \<Rightarrow> value_id set list \<Rightarrow> nat \<Rightarrow> value_id set" where
  "next_incoming g outgoing index =
     (if index = fg_entry g then {}
      else case filter (\<lambda>p. fg_reachable g ! p) (fg_predecessors g ! index) of
        [] \<Rightarrow> {}
      | first # paths \<Rightarrow> fold (\<lambda>p intersection. intersection \<inter> outgoing ! p) paths (outgoing ! first))"

definition flow_block ::
  "flow_graph \<Rightarrow> nat \<Rightarrow> value_id set list \<times> value_id set list \<times> bool \<Rightarrow> value_id set list \<times> value_id set list \<times> bool" where
  "flow_block g index = (\<lambda>(incoming, outgoing, changed).
     if \<not> fg_reachable g ! index then (incoming, outgoing, changed)
     else
       let incoming_next = next_incoming g outgoing index;
           changed1 = (changed \<or> incoming_next \<noteq> incoming ! index);
           outgoing_next = define_all (bb_instructions (fg_blocks g ! index)) incoming_next
       in (incoming[index := incoming_next], outgoing[index := outgoing_next],
           changed1 \<or> outgoing_next \<noteq> outgoing ! index))"

definition flow_sweep ::
  "flow_graph \<Rightarrow> value_id set list \<times> value_id set list \<times> bool \<Rightarrow> value_id set list \<times> value_id set list \<times> bool" where
  "flow_sweep g = (\<lambda>(incoming, outgoing, changed).
     fold (flow_block g) [0..<length (fg_blocks g)] (incoming, outgoing, False))"

definition flow_start :: "flow_graph \<Rightarrow> value_id set \<Rightarrow> value_id set list" where
  "flow_start g all_values =
     map (\<lambda>index. if fg_reachable g ! index \<and> index \<noteq> fg_entry g then all_values else {}) [0..<length (fg_blocks g)]"

definition flow_fixpoint :: "flow_graph \<Rightarrow> value_id set \<Rightarrow> (value_id set list \<times> value_id set list) option" where
  "flow_fixpoint g all_values =
     map_option (\<lambda>(incoming, outgoing, _). (incoming, outgoing))
       (while_option (\<lambda>(_, _, changed). changed) (flow_sweep g) (flow_start g all_values, flow_start g all_values, True))"

section \<open>The graph\<close>

inductive walk :: "ir_function \<Rightarrow> nat list \<Rightarrow> nat \<Rightarrow> bool" for f where
  walk_entry: "walk f [] (fn_entry f)"
| walk_step: "walk f p b \<Longrightarrow> c \<in> set (block_successors (bb_terminator (fn_blocks f ! b))) \<Longrightarrow> walk f (p @ [b]) c"

inductive_cases walk_snocE: "walk f (p @ [b]) c"

text \<open>The blocks of the function are addressed within it.\<close>

definition targets_ok :: "ir_function \<Rightarrow> bool" where
  "targets_ok f \<longleftrightarrow> fn_entry f < length (fn_blocks f) \<and>
     (\<forall>b \<in> set (fn_blocks f). \<forall>t \<in> set (block_successors (bb_terminator b)). t < length (fn_blocks f))"

lemma length_successors [simp]: "length (successors_of blocks) = length blocks"
  by (simp add: successors_of_def)

lemma nth_successors [simp]:
  "b < length blocks \<Longrightarrow> successors_of blocks ! b = block_successors (bb_terminator (blocks ! b))"
  by (simp add: successors_of_def)

lemma walk_in_range: "walk f p b \<Longrightarrow> targets_ok f \<Longrightarrow> b < length (fn_blocks f)"
  by (induction rule: walk.induct) (auto simp: targets_ok_def)

lemma walk_blocks: "walk f p b \<Longrightarrow> targets_ok f \<Longrightarrow> \<forall>q \<in> set p. q < length (fn_blocks f)"
  by (induction rule: walk.induct) (auto dest: walk_in_range)

definition edges :: "ir_function \<Rightarrow> (nat \<times> nat) set" where
  "edges f = {(b, c). b < length (fn_blocks f) \<and> c \<in> set (block_successors (bb_terminator (fn_blocks f ! b)))}"

lemma walk_rtrancl: "walk f p b \<Longrightarrow> targets_ok f \<Longrightarrow> (fn_entry f, b) \<in> (edges f)\<^sup>*"
  by (induction rule: walk.induct) (auto simp: edges_def dest: walk_in_range intro: rtrancl_into_rtrancl)

lemma rtrancl_walk: "(fn_entry f, b) \<in> (edges f)\<^sup>* \<Longrightarrow> \<exists>p. walk f p b"
  by (induction rule: rtrancl_induct) (auto simp: edges_def intro: walk.intros)

lemma add_predecessor_fold:
  "length (fold (add_predecessor index) ts preds) = length preds \<and>
   (t < length preds \<longrightarrow> set (fold (add_predecessor index) ts preds ! t) =
      set (preds ! t) \<union> (if t \<in> set ts then {index} else {}))"
proof (induction ts arbitrary: preds)
  case (Cons a ts)
  then show ?case by (cases "a = t") (auto simp: add_predecessor_def nth_list_update)
qed simp

lemma predecessors_upto:
  "length (fold (\<lambda>index preds. fold (add_predecessor index) (succs ! index) preds) [0..<k] preds) = length preds \<and>
   (t < length preds \<longrightarrow>
      set (fold (\<lambda>index preds. fold (add_predecessor index) (succs ! index) preds) [0..<k] preds ! t) =
      set (preds ! t) \<union> {p. p < k \<and> t \<in> set (succs ! p)})"
proof (induction k)
  case (Suc k)
  then show ?case
    using add_predecessor_fold [of k "succs ! k" "fold (\<lambda>index preds. fold (add_predecessor index) (succs ! index) preds) [0..<k] preds" t]
    by (auto simp: less_Suc_eq)
qed simp

lemma set_predecessors:
  "t < length succs \<Longrightarrow> set (predecessors_of succs ! t) = {p. p < length succs \<and> t \<in> set (succs ! p)}"
  using predecessors_upto [of succs "length succs" "replicate (length succs) []" t] by (simp add: predecessors_of_def)

definition closed_under :: "nat list list \<Rightarrow> bool list \<Rightarrow> nat list \<Rightarrow> bool" where
  "closed_under succs reached pending \<longleftrightarrow>
     (\<forall>i < length reached. reached ! i \<longrightarrow>
        (\<forall>t \<in> set (succs ! i). t < length reached \<longrightarrow> reached ! t \<or> t \<in> set pending))"

lemma reachable_loop_complete:
  "closed_under succs reached pending \<Longrightarrow> r = reachable_loop succs reached pending \<Longrightarrow>
     length r = length reached \<and> (\<forall>i < length reached. reached ! i \<or> i \<in> set pending \<longrightarrow> r ! i) \<and>
     closed_under succs r []"
proof (induction succs reached pending rule: reachable_loop.induct)
  case (2 succs reached index pending)
  show ?case
  proof (cases "length reached \<le> index \<or> reached ! index")
    case True
    then have "closed_under succs reached pending"
      using 2(3) unfolding closed_under_def by (metis leD set_ConsD)
    then show ?thesis using 2(1) [OF True] 2(4) True by auto
  next
    case False
    let ?m = "reached[index := True]"
    have "closed_under succs ?m (rev (succs ! index) @ pending)"
      using 2(3) False unfolding closed_under_def by (simp add: nth_list_update) blast
    then have *: "length r = length reached \<and> (\<forall>i < length reached. ?m ! i \<or> i \<in> set (rev (succs ! index) @ pending) \<longrightarrow> r ! i) \<and>
        closed_under succs r []"
      using 2(2) [OF False] 2(4) False by simp
    then show ?thesis using False by (auto simp: nth_list_update)
  qed
qed simp

lemma reachable_loop_sound:
  "i < length reached \<Longrightarrow> reachable_loop succs reached pending ! i \<Longrightarrow>
     reached ! i \<or> (\<exists>p \<in> set pending. (p, i) \<in> {(b, c). b < length reached \<and> c \<in> set (succs ! b)}\<^sup>*)"
proof (induction succs reached pending rule: reachable_loop.induct)
  case (2 succs reached index pending)
  let ?E = "{(b, c). b < length reached \<and> c \<in> set (succs ! b)}"
  show ?case
  proof (cases "length reached \<le> index \<or> reached ! index")
    case True
    then show ?thesis using 2(1) [OF True 2(3)] 2(4) by auto
  next
    case False
    then have "reached[index := True] ! i \<or> (\<exists>p \<in> set (rev (succs ! index) @ pending). (p, i) \<in> ?E\<^sup>*)"
      using 2(2) [OF False] 2(3,4) by simp
    then consider "i = index" | "reached ! i" | p where "p \<in> set (succs ! index)" "(p, i) \<in> ?E\<^sup>*"
      | p where "p \<in> set pending" "(p, i) \<in> ?E\<^sup>*"
      using 2(3) by (cases "i = index") auto
    then show ?thesis
    proof cases
      case (3 p)
      then have "(index, p) \<in> ?E" using False by simp
      then have "(index, i) \<in> ?E\<^sup>*" using 3(2) by (rule converse_rtrancl_into_rtrancl)
      then show ?thesis by auto
    qed auto
  qed
qed simp

lemma reachable_walk:
  assumes "targets_ok f" "b < length (fn_blocks f)"
  shows "reachable_blocks (fn_entry f) (successors_of (fn_blocks f)) ! b \<longleftrightarrow> (\<exists>p. walk f p b)"
proof
  let ?s = "successors_of (fn_blocks f)"
  let ?r = "reachable_blocks (fn_entry f) ?s"
  assume "?r ! b"
  then have "(fn_entry f, b) \<in> {(b, c). b < length (fn_blocks f) \<and> c \<in> set (?s ! b)}\<^sup>*"
    using reachable_loop_sound [of b "replicate (length ?s) False" ?s "[fn_entry f]"] assms(2)
    by (simp add: reachable_blocks_def)
  moreover have "{(b, c). b < length (fn_blocks f) \<and> c \<in> set (?s ! b)} = edges f" by (auto simp: edges_def)
  ultimately show "\<exists>p. walk f p b" using rtrancl_walk by simp
next
  let ?s = "successors_of (fn_blocks f)"
  let ?r = "reachable_blocks (fn_entry f) ?s"
  have start: "closed_under ?s (replicate (length ?s) False) [fn_entry f]" by (simp add: closed_under_def)
  note r = reachable_loop_complete [OF start refl, folded reachable_blocks_def]
  assume "\<exists>p. walk f p b"
  then obtain p where "walk f p b" ..
  then show "?r ! b"
  proof (induction rule: walk.induct)
    case walk_entry
    then show ?case using r assms(1) by (simp add: targets_ok_def)
  next
    case (walk_step p b c)
    have b: "b < length (fn_blocks f)" using walk_in_range [OF walk_step(1) assms(1)] .
    moreover have "c < length (fn_blocks f)" using assms(1) walk_step(2) b by (auto simp: targets_ok_def)
    moreover have "length ?r = length (fn_blocks f)" using r by simp
    moreover have "?r ! b \<longrightarrow> (\<forall>t \<in> set (?s ! b). t < length ?r \<longrightarrow> ?r ! t)"
      using r b unfolding closed_under_def by simp
    ultimately show ?case using walk_step(2,3) by simp
  qed
qed

section \<open>Solutions of the flow equations\<close>

definition defined_by :: "instruction list \<Rightarrow> value_id set" where
  "defined_by instrs = {d. \<exists>i \<in> set instrs. instruction_defines i = Some d}"

lemma defined_by_Nil [simp]: "defined_by [] = {}"
  by (simp add: defined_by_def)

lemma defined_by_Cons: "defined_by (i # instrs) = (case instruction_defines i of None \<Rightarrow> {} | Some d \<Rightarrow> {d}) \<union> defined_by instrs"
  by (auto simp: defined_by_def split: option.splits)

lemma defined_by_append [simp]: "defined_by (xs @ ys) = defined_by xs \<union> defined_by ys"
  by (auto simp: defined_by_def)

lemma define_all_union: "define_all instrs s = s \<union> defined_by instrs"
proof (induction instrs arbitrary: s)
  case (Cons i instrs)
  then show ?case by (auto simp: define_all_def defined_by_Cons split: option.splits)
qed (simp add: define_all_def)

definition block_defs :: "flow_graph \<Rightarrow> nat \<Rightarrow> value_id set" where
  "block_defs g index = defined_by (bb_instructions (fg_blocks g ! index))"

definition live_predecessors :: "flow_graph \<Rightarrow> nat \<Rightarrow> nat set" where
  "live_predecessors g index = {p \<in> set (fg_predecessors g ! index). fg_reachable g ! p}"

lemma fold_meet: "fold (\<lambda>p s. s \<inter> out ! p) ps s = {v \<in> s. \<forall>p \<in> set ps. v \<in> out ! p}"
  by (induction ps arbitrary: s) auto

lemma next_incoming_iff:
  "v \<in> next_incoming g out index \<longleftrightarrow>
     index \<noteq> fg_entry g \<and> live_predecessors g index \<noteq> {} \<and> (\<forall>p \<in> live_predecessors g index. v \<in> out ! p)"
proof -
  let ?ps = "filter (\<lambda>p. fg_reachable g ! p) (fg_predecessors g ! index)"
  have "live_predecessors g index = set ?ps" by (auto simp: live_predecessors_def)
  then show ?thesis by (cases ?ps) (auto simp: next_incoming_def fold_meet)
qed

text \<open>What a sweep without change has found.\<close>

definition flow_equations :: "flow_graph \<Rightarrow> value_id set list \<Rightarrow> value_id set list \<Rightarrow> nat \<Rightarrow> bool" where
  "flow_equations g inc out index \<longleftrightarrow> (fg_reachable g ! index \<longrightarrow>
     inc ! index = next_incoming g out index \<and> out ! index = inc ! index \<union> block_defs g index)"

lemma flow_block_unchanged:
  "flow_block g index (inc, out, c) = (inc', out', False) \<Longrightarrow> \<not> c \<and> inc' = inc \<and> out' = out \<and> flow_equations g inc out index"
  by (auto simp: flow_block_def flow_equations_def define_all_union block_defs_def Let_def split: if_splits)

lemma fold_unchanged:
  "fold (flow_block g) is (inc, out, c) = (inc', out', False) \<Longrightarrow>
     \<not> c \<and> inc' = inc \<and> out' = out \<and> (\<forall>index \<in> set is. flow_equations g inc out index)"
proof (induction "is" arbitrary: inc out c)
  case (Cons i "is")
  obtain inc1 out1 c1 where 1: "flow_block g i (inc, out, c) = (inc1, out1, c1)" by (metis prod_cases3)
  then have "\<not> c1 \<and> inc' = inc1 \<and> out' = out1 \<and> (\<forall>index \<in> set is. flow_equations g inc1 out1 index)"
    using Cons.IH [of inc1 out1 c1] Cons.prems by simp
  then show ?case using flow_block_unchanged 1 by fastforce
qed simp

lemma flow_fixpoint_solves:
  assumes "flow_fixpoint g all_values = Some (inc, out)" "index < length (fg_blocks g)"
  shows "flow_equations g inc out index"
proof -
  obtain c where w: "while_option (\<lambda>(_, _, changed). changed) (flow_sweep g) (flow_start g all_values, flow_start g all_values, True) =
      Some (inc, out, c)"
    using assms(1) by (auto simp: flow_fixpoint_def)
  let ?P = "\<lambda>(inc, out, c). c \<or> (\<forall>index < length (fg_blocks g). flow_equations g inc out index)"
  have "?P (flow_sweep g s)" for s
  proof (cases s)
    case (fields i u d)
    obtain i1 u1 c1 where r: "flow_sweep g s = (i1, u1, c1)" by (metis prod_cases3)
    then show ?thesis
      using fold_unchanged [of g "[0..<length (fg_blocks g)]" i u False i1 u1] by (cases c1) (auto simp: flow_sweep_def fields)
  qed
  then have "?P (inc, out, c)" by (intro while_option_rule [OF _ w, of ?P]) auto
  moreover have "\<not> c" using while_option_stop [OF w] by simp
  ultimately show ?thesis using assms(2) by simp
qed

text \<open>The graph of a function.\<close>

lemma flow_graph_simps [simp]:
  "fg_blocks (flow_graph_of f) = fn_blocks f" "fg_entry (flow_graph_of f) = fn_entry f"
  by (simp_all add: flow_graph_of_def Let_def)

lemma graph_reachable:
  "targets_ok f \<Longrightarrow> b < length (fn_blocks f) \<Longrightarrow> fg_reachable (flow_graph_of f) ! b \<longleftrightarrow> (\<exists>p. walk f p b)"
  using reachable_walk by (simp add: flow_graph_of_def Let_def)

lemma graph_predecessors:
  "b < length (fn_blocks f) \<Longrightarrow> set (fg_predecessors (flow_graph_of f) ! b) =
     {p. p < length (fn_blocks f) \<and> b \<in> set (block_successors (bb_terminator (fn_blocks f ! p)))}"
  using set_predecessors [of b "successors_of (fn_blocks f)"]
  by (simp add: flow_graph_of_def Let_def cong: conj_cong)

lemma live_predecessor_iff:
  assumes "targets_ok f" "b < length (fn_blocks f)"
  shows "p \<in> live_predecessors (flow_graph_of f) b \<longleftrightarrow>
    p < length (fn_blocks f) \<and> b \<in> set (block_successors (bb_terminator (fn_blocks f ! p))) \<and> (\<exists>q. walk f q p)"
  using graph_predecessors [OF assms(2)] graph_reachable [OF assms(1)] by (auto simp: live_predecessors_def)

text \<open>The values that the blocks of a walk define.\<close>

definition defined_on :: "ir_function \<Rightarrow> nat list \<Rightarrow> value_id set" where
  "defined_on f p = (\<Union>b \<in> set p. defined_by (bb_instructions (fn_blocks f ! b)))"

lemma defined_on_simps [simp]:
  "defined_on f [] = {}"
  "defined_on f (p @ [b]) = defined_on f p \<union> defined_by (bb_instructions (fn_blocks f ! b))"
  by (auto simp: defined_on_def)

lemma solution_sound:
  assumes "targets_ok f" "\<And>index. index < length (fn_blocks f) \<Longrightarrow> flow_equations (flow_graph_of f) inc out index"
  shows "walk f p b \<Longrightarrow> inc ! b \<subseteq> defined_on f p"
proof (induction rule: walk.induct)
  case walk_entry
  have "fg_reachable (flow_graph_of f) ! fn_entry f"
    using assms(1) graph_reachable walk.walk_entry by (metis targets_ok_def)
  then have "inc ! fn_entry f = next_incoming (flow_graph_of f) out (fn_entry f)"
    using assms by (simp add: flow_equations_def targets_ok_def)
  then show ?case using next_incoming_iff [of _ "flow_graph_of f" out "fn_entry f"] by auto
next
  case (walk_step p b c)
  note b = walk_in_range [OF walk_step(1) assms(1)]
  have w: "walk f (p @ [b]) c" using walk_step by (intro walk.walk_step)
  note c = walk_in_range [OF w assms(1)]
  have "inc ! c = next_incoming (flow_graph_of f) out c"
    using assms(2) [OF c] graph_reachable [OF assms(1) c] w by (auto simp: flow_equations_def)
  moreover have "b \<in> live_predecessors (flow_graph_of f) c"
    using live_predecessor_iff [OF assms(1) c] walk_step b by blast
  ultimately have "inc ! c \<subseteq> out ! b" using next_incoming_iff [of _ "flow_graph_of f" out c] by auto
  moreover have "out ! b = inc ! b \<union> block_defs (flow_graph_of f) b"
    using assms(2) [OF b] graph_reachable [OF assms(1) b] walk_step(1) by (auto simp: flow_equations_def)
  ultimately show ?case using walk_step(3) by (auto simp: block_defs_def)
qed

section \<open>The loop ends when the entry is the first block\<close>

text \<open>From the first step on, every update shrinks the sets: a state is descending when
  each block holds at least what its equation asks for. The family \<open>D\<close> is any set of
  facts that the equations support.\<close>

definition descending ::
  "flow_graph \<Rightarrow> value_id set \<Rightarrow> (nat \<Rightarrow> value_id set) \<Rightarrow> value_id set list \<Rightarrow> value_id set list \<Rightarrow> bool" where
  "descending g all_values D inc out \<longleftrightarrow>
     length inc = length (fg_blocks g) \<and> length out = length (fg_blocks g) \<and>
     (\<forall>i < length (fg_blocks g). inc ! i \<subseteq> all_values \<and> out ! i \<subseteq> all_values \<and>
       (fg_reachable g ! i \<longrightarrow>
          next_incoming g out i \<subseteq> inc ! i \<and> next_incoming g out i \<union> block_defs g i \<subseteq> out ! i \<and>
          D i \<subseteq> inc ! i \<and> D i \<union> block_defs g i \<subseteq> out ! i))"

definition supported :: "flow_graph \<Rightarrow> (nat \<Rightarrow> value_id set) \<Rightarrow> bool" where
  "supported g D \<longleftrightarrow>
     (\<forall>i < length (fg_blocks g). fg_reachable g ! i \<longrightarrow>
        (if i = fg_entry g then D i = {}
         else live_predecessors g i \<noteq> {} \<and> (\<forall>p \<in> live_predecessors g i. p < length (fg_blocks g) \<and> D i \<subseteq> D p \<union> block_defs g p)))"

definition flow_size :: "flow_graph \<Rightarrow> value_id set list \<Rightarrow> value_id set list \<Rightarrow> nat" where
  "flow_size g inc out = (\<Sum>i < length (fg_blocks g). card (inc ! i) + card (out ! i))"

lemma next_incoming_mono:
  "(\<And>p. p \<in> live_predecessors g i \<Longrightarrow> out' ! p \<subseteq> out ! p) \<Longrightarrow> next_incoming g out' i \<subseteq> next_incoming g out i"
  unfolding subset_iff next_incoming_iff by blast

lemma next_incoming_supported:
  assumes "supported g D" "i < length (fg_blocks g)" "fg_reachable g ! i"
    "\<And>p. p \<in> live_predecessors g i \<Longrightarrow> D p \<union> block_defs g p \<subseteq> out ! p"
  shows "D i \<subseteq> next_incoming g out i"
  using assms by (fastforce simp: supported_def next_incoming_iff split: if_splits)

lemma sum_card_update:
  fixes xs :: "'a set list"
  assumes "i < n" "length xs = n" "s \<subseteq> xs ! i" "finite (xs ! i)"
  shows "(\<Sum>j < n. card (xs[i := s] ! j)) \<le> (\<Sum>j < n. card (xs ! j)) \<and>
    (s \<noteq> xs ! i \<longrightarrow> (\<Sum>j < n. card (xs[i := s] ! j)) < (\<Sum>j < n. card (xs ! j)))"
proof -
  have "card (xs[i := s] ! j) \<le> card (xs ! j)" if "j < n" for j
    using assms that by (cases "j = i") (auto intro: card_mono)
  moreover have "card (xs[i := s] ! i) < card (xs ! i)" if "s \<noteq> xs ! i"
    using assms that by (auto intro: psubset_card_mono)
  ultimately show ?thesis using assms(1) by (auto intro!: sum_mono sum_strict_mono_ex1)
qed

lemma descending_block:
  assumes d: "descending g all_values D inc out" and "supported g D" "finite all_values" "i < length (fg_blocks g)"
    and live: "\<And>i p. i < length (fg_blocks g) \<Longrightarrow> p \<in> live_predecessors g i \<Longrightarrow> p < length (fg_blocks g)"
    and r: "flow_block g i (inc, out, c) = (inc', out', c')"
  shows "descending g all_values D inc' out' \<and> flow_size g inc' out' \<le> flow_size g inc out \<and>
    (c' \<longrightarrow> c \<or> flow_size g inc' out' < flow_size g inc out)"
proof (cases "fg_reachable g ! i")
  case True
  let ?n = "length (fg_blocks g)"
  let ?in = "next_incoming g out i" and ?out = "next_incoming g out i \<union> block_defs g i"
  have upd: "inc' = inc[i := ?in]" "out' = out[i := ?out]" "c' \<longleftrightarrow> c \<or> ?in \<noteq> inc ! i \<or> ?out \<noteq> out ! i"
    using r True by (auto simp: flow_block_def Let_def define_all_union block_defs_def)
  have len: "length inc = ?n" "length out = ?n" using d by (simp_all add: descending_def)
  have sub: "?in \<subseteq> inc ! i" "?out \<subseteq> out ! i" using d assms(4) True by (simp_all add: descending_def)
  have le: "out' ! p \<subseteq> out ! p" for p
    using sub(2) assms(4) len by (cases "p = i") (simp_all add: upd)
  have nxt: "next_incoming g out' j \<subseteq> next_incoming g out j" for j
    by (rule next_incoming_mono) (rule le)
  have "D p \<union> block_defs g p \<subseteq> out ! p" if "p \<in> live_predecessors g i" for p
    using d live [OF assms(4) that] that unfolding descending_def live_predecessors_def by blast
  then have Di: "D i \<subseteq> ?in" by (intro next_incoming_supported assms(2,4) True)
  have "descending g all_values D inc' out'"
    unfolding descending_def
  proof (intro conjI allI impI)
    fix j assume j: "j < ?n"
    then have J: "inc ! j \<subseteq> all_values" "out ! j \<subseteq> all_values" using d by (simp_all add: descending_def)
    then show "inc' ! j \<subseteq> all_values" "out' ! j \<subseteq> all_values"
      using sub le [of j] len assms(4) by (cases "j = i"; auto simp: upd)+
    assume "fg_reachable g ! j"
    then have K: "next_incoming g out j \<subseteq> inc ! j" "next_incoming g out j \<union> block_defs g j \<subseteq> out ! j"
      "D j \<subseteq> inc ! j" "D j \<union> block_defs g j \<subseteq> out ! j" using d j by (simp_all add: descending_def)
    show "next_incoming g out' j \<subseteq> inc' ! j" "next_incoming g out' j \<union> block_defs g j \<subseteq> out' ! j"
      "D j \<subseteq> inc' ! j" "D j \<union> block_defs g j \<subseteq> out' ! j"
      using K nxt [of j] Di len assms(4) by (cases "j = i"; auto simp: upd)+
  qed (simp_all add: upd len)
  moreover have "finite (inc ! i)" "finite (out ! i)"
    using d assms(4) finite_subset [OF _ assms(3)] by (simp_all add: descending_def)
  then have "flow_size g inc' out' \<le> flow_size g inc out \<and>
      (?in \<noteq> inc ! i \<or> ?out \<noteq> out ! i \<longrightarrow> flow_size g inc' out' < flow_size g inc out)"
    using sum_card_update [OF assms(4) len(1) sub(1)] sum_card_update [OF assms(4) len(2) sub(2)]
    unfolding flow_size_def sum.distrib upd by linarith
  ultimately show ?thesis using upd(3) by blast
next
  case False
  then show ?thesis using r d by (auto simp: flow_block_def)
qed

lemma descending_fold:
  assumes "supported g D" "finite all_values"
    and live: "\<And>i p. i < length (fg_blocks g) \<Longrightarrow> p \<in> live_predecessors g i \<Longrightarrow> p < length (fg_blocks g)"
  shows "descending g all_values D inc out \<Longrightarrow> \<forall>i \<in> set is. i < length (fg_blocks g) \<Longrightarrow>
    fold (flow_block g) is (inc, out, c) = (inc', out', c') \<Longrightarrow>
    descending g all_values D inc' out' \<and> flow_size g inc' out' \<le> flow_size g inc out \<and>
    (c' \<longrightarrow> c \<or> flow_size g inc' out' < flow_size g inc out)"
proof (induction "is" arbitrary: inc out c)
  case (Cons i "is")
  obtain inc1 out1 c1 where 1: "flow_block g i (inc, out, c) = (inc1, out1, c1)" by (metis prod_cases3)
  then have "fold (flow_block g) is (inc1, out1, c1) = (inc', out', c')" using Cons.prems(3) by simp
  moreover have "i < length (fg_blocks g)" using Cons.prems(2) by simp
  note 2 = descending_block [OF Cons.prems(1) assms(1,2) this live 1]
  ultimately show ?case using Cons.IH [of inc1 out1 c1] Cons.prems(2) by fastforce
qed simp

text \<open>The values that every walk to a block defines.\<close>

definition always_defined :: "ir_function \<Rightarrow> nat \<Rightarrow> value_id set" where
  "always_defined f b = {v. \<forall>p. walk f p b \<longrightarrow> v \<in> defined_on f p}"

lemma always_defined_supported:
  assumes "targets_ok f"
  shows "supported (flow_graph_of f) (always_defined f)"
  unfolding supported_def
proof (intro allI impI)
  fix i assume i: "i < length (fg_blocks (flow_graph_of f))" "fg_reachable (flow_graph_of f) ! i"
  then have n: "i < length (fn_blocks f)" by simp
  show "if i = fg_entry (flow_graph_of f) then always_defined f i = {}
    else live_predecessors (flow_graph_of f) i \<noteq> {} \<and>
      (\<forall>p \<in> live_predecessors (flow_graph_of f) i. p < length (fg_blocks (flow_graph_of f)) \<and>
         always_defined f i \<subseteq> always_defined f p \<union> block_defs (flow_graph_of f) p)"
  proof (cases "i = fn_entry f")
    case True
    then show ?thesis using walk_entry [of f] by (fastforce simp: always_defined_def)
  next
    case False
    obtain p where "walk f p i" using graph_reachable [OF assms n] i by auto
    then obtain q b where "walk f q b" "i \<in> set (block_successors (bb_terminator (fn_blocks f ! b)))"
      using False by (auto elim: walk.cases)
    then have "b \<in> live_predecessors (flow_graph_of f) i"
      using live_predecessor_iff [OF assms n] walk_in_range [OF _ assms] by blast
    moreover have "always_defined f i \<subseteq> always_defined f p \<union> block_defs (flow_graph_of f) p"
      if "p \<in> live_predecessors (flow_graph_of f) i" for p
      using that live_predecessor_iff [OF assms n] walk_step [of f _ p i]
      by (fastforce simp: always_defined_def block_defs_def)
    ultimately show ?thesis using False live_predecessor_iff [OF assms n] by auto
  qed
qed

definition all_defined :: "ir_function \<Rightarrow> value_id set" where
  "all_defined f = (\<Union>b \<in> set (fn_blocks f). defined_by (bb_instructions b))"

lemma finite_defined_by [simp]: "finite (defined_by instrs)"
  by (induction instrs) (auto simp: defined_by_Cons split: option.splits)

lemma finite_all_defined [simp]: "finite (all_defined f)"
  by (simp add: all_defined_def)

lemma block_defs_all: "b < length (fn_blocks f) \<Longrightarrow> block_defs (flow_graph_of f) b \<subseteq> all_defined f"
  unfolding block_defs_def all_defined_def flow_graph_simps by (intro UN_upper nth_mem)

lemma defined_on_all: "walk f p b \<Longrightarrow> targets_ok f \<Longrightarrow> defined_on f p \<subseteq> all_defined f"
  using walk_blocks [of f p b] by (fastforce simp: defined_on_def all_defined_def)

lemma first_step_descending:
  assumes "targets_ok f" "fn_entry f = 0" "flow_block (flow_graph_of f) 0
    (flow_start (flow_graph_of f) (all_defined f), flow_start (flow_graph_of f) (all_defined f), False) = (inc, out, c)"
  shows "descending (flow_graph_of f) (all_defined f) (always_defined f) inc out"
proof -
  let ?g = "flow_graph_of f" and ?n = "length (fn_blocks f)"
  let ?s = "flow_start ?g (all_defined f)"
  have n: "0 < ?n" using assms(1,2) by (simp add: targets_ok_def)
  have r0: "fg_reachable ?g ! 0" using graph_reachable [OF assms(1) n] walk_entry [of f] assms(2) by auto
  have next0: "next_incoming ?g o' 0 = {}" for o' using assms(2) by (simp add: next_incoming_def)
  have s: "length ?s = ?n" "\<And>i. i < ?n \<Longrightarrow> ?s ! i = (if fg_reachable ?g ! i \<and> i \<noteq> 0 then all_defined f else {})"
    by (simp_all add: flow_start_def assms(2))
  have upd: "inc = ?s[0 := {}]" "out = ?s[0 := block_defs ?g 0]"
    using assms(3) r0 next0 by (auto simp: flow_block_def Let_def define_all_union block_defs_def)
  have out_all: "out ! i \<subseteq> all_defined f" if "i < ?n" for i
    using that s block_defs_all [OF n] by (cases i) (simp_all add: upd)
  have next_all: "next_incoming ?g out i \<subseteq> all_defined f" if "i < ?n" for i
    using out_all live_predecessor_iff [OF assms(1) that] by (fastforce simp: next_incoming_iff)
  have D_all: "always_defined f i \<subseteq> all_defined f" if "i < ?n" "fg_reachable ?g ! i" for i
    using graph_reachable [OF assms(1) that(1)] that(2) defined_on_all [OF _ assms(1)]
    by (fastforce simp: always_defined_def)
  have D0: "always_defined f 0 = {}" using walk_entry [of f] assms(2) by (fastforce simp: always_defined_def)
  show ?thesis
    unfolding descending_def
  proof (intro conjI allI impI)
    fix i assume "i < length (fg_blocks ?g)"
    then have i: "i < ?n" by simp
    show "inc ! i \<subseteq> all_defined f" using s i by (cases i) (simp_all add: upd)
    show "out ! i \<subseteq> all_defined f" using out_all i .
    assume r: "fg_reachable ?g ! i"
    show "next_incoming ?g out i \<subseteq> inc ! i" "next_incoming ?g out i \<union> block_defs ?g i \<subseteq> out ! i"
      "always_defined f i \<subseteq> inc ! i" "always_defined f i \<union> block_defs ?g i \<subseteq> out ! i"
      using s i r next_all [OF i] block_defs_all [OF i] D_all [OF i r] D0 next0 [of out] n
      by (cases "i = 0"; simp add: upd)+
  qed (simp_all add: upd s)
qed

lemma flow_loop_ends:
  assumes "targets_ok f" "fn_entry f = 0"
  obtains inc out where "flow_fixpoint (flow_graph_of f) (all_defined f) = Some (inc, out)"
    "descending (flow_graph_of f) (all_defined f) (always_defined f) inc out"
proof -
  let ?g = "flow_graph_of f" and ?s = "flow_start (flow_graph_of f) (all_defined f)"
  let ?b = "\<lambda>(_ :: value_id set list, _ :: value_id set list, changed). changed"
  let ?P = "\<lambda>(inc, out, _ :: bool). descending ?g (all_defined f) (always_defined f) inc out"
  let ?m = "\<lambda>(inc, out, c). 2 * flow_size ?g inc out + (if c then 1 else 0)"
  have live: "p < length (fg_blocks ?g)" if "i < length (fg_blocks ?g)" "p \<in> live_predecessors ?g i" for i p
    using live_predecessor_iff [OF assms(1), of i] that by simp
  have fold: "?P (inc', out', c') \<and> flow_size ?g inc' out' \<le> flow_size ?g inc out \<and>
      (c' \<longrightarrow> c \<or> flow_size ?g inc' out' < flow_size ?g inc out)"
    if "?P (inc, out, c)" "\<forall>i \<in> set is. i < length (fn_blocks f)" "fold (flow_block ?g) is (inc, out, c) = (inc', out', c')"
    for inc out c "is" inc' out' c'
  proof -
    have "descending ?g (all_defined f) (always_defined f) inc out" using that(1) by simp
    from descending_fold [OF always_defined_supported [OF assms(1)] finite_all_defined _ this _ that(3)] show ?thesis
      using live that(2) by simp
  qed
  have sweep: "?P (flow_sweep ?g s) \<and> ?m (flow_sweep ?g s) < ?m s" if P: "?P s" and b: "?b s" for s
  proof -
    obtain inc out inc' out' c' where s: "s = (inc, out, True)" "flow_sweep ?g s = (inc', out', c')"
      using b by (cases s; cases "flow_sweep ?g s") auto
    then show ?thesis using fold [of inc out False "[0..<length (fn_blocks f)]" inc' out' c'] P
      by (auto simp: flow_sweep_def)
  qed
  have first: "?P (flow_sweep ?g (?s, ?s, True))"
  proof -
    obtain inc out c where 0: "flow_block ?g 0 (?s, ?s, False) = (inc, out, c)" by (metis prod_cases3)
    obtain inc' out' c' where 1: "fold (flow_block ?g) [Suc 0..<length (fn_blocks f)] (inc, out, c) = (inc', out', c')"
      by (metis prod_cases3)
    have "[0..<length (fn_blocks f)] = 0 # [Suc 0..<length (fn_blocks f)]"
      using assms by (simp add: targets_ok_def upt_conv_Cons)
    then have "flow_sweep ?g (?s, ?s, True) = (inc', out', c')" using 0 1 by (simp add: flow_sweep_def)
    then show ?thesis using fold [OF _ _ 1] first_step_descending [OF assms 0] by simp
  qed
  have "\<exists>t. while_option ?b (flow_sweep ?g) (flow_sweep ?g (?s, ?s, True)) = Some t"
    by (rule measure_while_option_Some [of ?P ?b "flow_sweep ?g" ?m, OF sweep first])
  then obtain t where t: "while_option ?b (flow_sweep ?g) (flow_sweep ?g (?s, ?s, True)) = Some t" ..
  have step: "?P (flow_sweep ?g s)" if "?P s" "?b s" for s
    by (rule conjunct1 [OF sweep [OF that]])
  have "?P t" by (rule while_option_rule [of ?P, OF step t first])
  moreover have "while_option ?b (flow_sweep ?g) (?s, ?s, True) = Some t"
    by (rule trans [OF while_option_unfold]) (simp add: t)
  ultimately show thesis using that by (cases t) (simp add: flow_fixpoint_def)
qed

text \<open>What the loop reports, where it ends.\<close>

lemma fixpoint_sound:
  assumes "targets_ok f" "flow_fixpoint (flow_graph_of f) (all_defined f) = Some (inc, out)" "walk f p b"
  shows "inc ! b \<subseteq> always_defined f b \<and> out ! b = inc ! b \<union> defined_by (bb_instructions (fn_blocks f ! b))"
proof -
  note b = walk_in_range [OF assms(3,1)]
  have eqs: "flow_equations (flow_graph_of f) inc out i" if "i < length (fn_blocks f)" for i
    using flow_fixpoint_solves [OF assms(2)] that by simp
  have "fg_reachable (flow_graph_of f) ! b" using graph_reachable [OF assms(1) b] assms(3) by blast
  with eqs [OF b] solution_sound [OF assms(1) eqs] show ?thesis
    by (auto simp: always_defined_def flow_equations_def block_defs_def)
qed

lemma fixpoint_exact:
  assumes "targets_ok f" "fn_entry f = 0"
  shows "\<exists>inc out. flow_fixpoint (flow_graph_of f) (all_defined f) = Some (inc, out) \<and>
    (\<forall>p b. walk f p b \<longrightarrow> inc ! b = always_defined f b \<and>
       out ! b = inc ! b \<union> defined_by (bb_instructions (fn_blocks f ! b)))"
proof -
  obtain inc out where ends: "flow_fixpoint (flow_graph_of f) (all_defined f) = Some (inc, out)"
    and d: "descending (flow_graph_of f) (all_defined f) (always_defined f) inc out"
    using flow_loop_ends [OF assms] .
  have "always_defined f b \<subseteq> inc ! b" if "walk f p b" for p b
  proof -
    note b = walk_in_range [OF that assms(1)]
    have "fg_reachable (flow_graph_of f) ! b" using graph_reachable [OF assms(1) b] that by blast
    then show ?thesis using d b by (simp add: descending_def)
  qed
  then show ?thesis using ends fixpoint_sound [OF assms(1) ends] by blast
qed

section \<open>A function on which the loop does not end\<close>

definition looping_function :: ir_function where
  "looping_function =
     (let block = (\<lambda>i instrs t. \<lparr>bb_id = i, bb_instructions = instrs, bb_terminator = t\<rparr>)
      in \<lparr>fn_name = ''Start'', fn_kind = KEntry, fn_owner = None, fn_asynchronous = False, fn_parameters = [],
          fn_weak_symbols = {}, fn_return_type = TNamed ''VOID'', fn_entry = 1,
          fn_blocks = [block 0 [] (TermJump 3), block 1 [IConstant 0 (CBoolean True) TBoolean] (TermJump 0),
            block 2 [] (TermJump 4), block 3 [] (TermJump 2), block 4 [] (TermBranch 0 0 5), block 5 [] (TermReturn None)]\<rparr>)"

lemma while_option_cycle:
  assumes "b s" "b (c s)" "c (c (c s)) = c s" "b (c (c s))"
  shows "while_option b c s = None"
proof -
  have k: "(c ^^ k) s \<in> {s, c s, c (c s)}" for k
    using assms(3) by (induction k) auto
  have "b ((c ^^ k) s)" for k using k [of k] assms by auto
  then show ?thesis by (simp add: while_option_def)
qed

lemma looping_sweeps:
  defines "g \<equiv> flow_graph_of looping_function"
  defines "s \<equiv> (flow_start g {0}, flow_start g {0}, True)"
  shows "snd (snd (flow_sweep g s)) \<and> snd (snd (flow_sweep g (flow_sweep g s))) \<and>
    flow_sweep g (flow_sweep g (flow_sweep g s)) = flow_sweep g s"
  unfolding g_def s_def by code_simp

section \<open>Properties\<close>

text \<open>C13: the definite-assignment analysis is exact and ends: in a function whose entry is its
  first block and whose jumps stay inside it, the fixpoint loop returns, and for every
  block that can be reached the values it reports on entry are those that every walk
  through the blocks from the entry defines, no more and no fewer, and on exit those and
  the block's own.\<close>

theorem definite_assignment_exact:
  assumes "targets_ok f" "fn_entry f = 0"
  shows "\<exists>incoming outgoing. flow_fixpoint (flow_graph_of f) (all_defined f) = Some (incoming, outgoing) \<and>
    (\<forall>p b. walk f p b \<longrightarrow>
       incoming ! b = {v. \<forall>q. walk f q b \<longrightarrow> v \<in> defined_on f q} \<and>
       outgoing ! b = incoming ! b \<union> defined_by (bb_instructions (fn_blocks f ! b)))"
  using fixpoint_exact [OF assms] unfolding always_defined_def by meson

theorem definite_assignment_exact_witness:
  "\<exists>incoming outgoing. flow_fixpoint (flow_graph_of (looping_function\<lparr>fn_entry := 0\<rparr>)) (all_defined (looping_function\<lparr>fn_entry := 0\<rparr>)) =
     Some (incoming, outgoing)"
proof -
  have "targets_ok (looping_function\<lparr>fn_entry := 0\<rparr>)"
    by (simp add: targets_ok_def looping_function_def Let_def block_successors_def)
  from definite_assignment_exact [OF this] show ?thesis by (auto simp: looping_function_def Let_def)
qed

text \<open>C37: with another entry block the fixpoint loop may run forever: there is a function whose
  entry is its second block, whose jumps stay inside it and whose only value is defined
  on every walk before it is read, on which the sweeps alternate between two states.\<close>

theorem fixpoint_loop_diverges:
  "targets_ok looping_function \<and> fn_entry looping_function = 1 \<and>
   0 \<in> always_defined looping_function 4 \<and>
   flow_fixpoint (flow_graph_of looping_function) (all_defined looping_function) = None"
proof (intro conjI)
  show "targets_ok looping_function" "fn_entry looping_function = 1"
    by (simp_all add: targets_ok_def looping_function_def Let_def block_successors_def)
  have "b = 1 \<or> 0 \<in> defined_on looping_function p" if "walk looping_function p b" for p b
    using that
  proof (induction rule: walk.induct)
    case (walk_step p b c)
    then show ?case by (auto simp: looping_function_def Let_def defined_by_Cons instruction_defines_def)
  qed (simp add: looping_function_def Let_def)
  then show "0 \<in> always_defined looping_function 4" by (fastforce simp: always_defined_def)
  have "all_defined looping_function = {0}"
    by (simp add: all_defined_def looping_function_def Let_def defined_by_Cons instruction_defines_def)
  moreover have "while_option (\<lambda>(_, _, changed). changed) (flow_sweep (flow_graph_of looping_function))
      (flow_start (flow_graph_of looping_function) {0}, flow_start (flow_graph_of looping_function) {0}, True) = None"
    using looping_sweeps by (intro while_option_cycle) (simp_all add: case_prod_beta)
  ultimately show "flow_fixpoint (flow_graph_of looping_function) (all_defined looping_function) = None"
    by (simp add: flow_fixpoint_def)
qed

end
