(* ===== verification/BN_IR_Ownership.thy ===== *)
theory BN_IR_Ownership
  imports BN_IR_Flow
begin

text \<open>
  The ownership balance of a function: \<open>crates/bn_ir/src/validate/ownership.rs\<close>. The
  analysis walks the blocks breadth first from the entry; the loop over the pending
  blocks terminates because a block enters the queue once. The reference is the
  execution of a walk, which keeps the owned values and the values that were
  consumed and not defined again.
\<close>

section \<open>Kinds of values\<close>

definition is_declared :: "ir_module \<Rightarrow> str \<Rightarrow> bool" where
  "is_declared m name \<longleftrightarrow>
     name \<in> m_interfaces m \<or> function_of_kind m KFieldInit name \<noteq> None \<or> function_of_kind m KDefault name \<noteq> None"

fun is_arc_type :: "ir_module \<Rightarrow> bn_type \<Rightarrow> bool" where
  "is_arc_type m TString \<longleftrightarrow> True"
| "is_arc_type m (TPointer _ _) \<longleftrightarrow> True"
| "is_arc_type m (TNamed name) \<longleftrightarrow> (if name = ''FS.File'' then True else is_declared m name)"
| "is_arc_type m (TImportedNamed i name) \<longleftrightarrow>
     (if standard_library_of m i \<noteq> None then i \<in> m_bnlog_providers m \<and> name = ''Logger''
      else is_declared m (''#'' @ show_int i @ ''.'' @ name))"
| "is_arc_type m (TVector element _) \<longleftrightarrow> is_arc_type m element"
| "is_arc_type m (TAlternative members) \<longleftrightarrow> (\<exists>member \<in> set members. is_arc_type m member)"
| "is_arc_type m _ \<longleftrightarrow> False"

fun counts_only_string_buffers :: "ir_module \<Rightarrow> bn_type \<Rightarrow> bool" where
  "counts_only_string_buffers m TString \<longleftrightarrow> True"
| "counts_only_string_buffers m (TVector element _) \<longleftrightarrow> counts_only_string_buffers m element"
| "counts_only_string_buffers m (TAlternative members) \<longleftrightarrow>
     (\<forall>member \<in> set members. \<not> is_arc_type m member \<or> counts_only_string_buffers m member)"
| "counts_only_string_buffers m _ \<longleftrightarrow> False"

definition consume_candidates :: "ir_module \<Rightarrow> ir_function \<Rightarrow> instruction \<Rightarrow> value_id list" where
  "consume_candidates m f i =
     (case i of
        IStore symbol v _ _ \<Rightarrow> if symbol \<in> fn_weak_symbols f then [] else [v]
      | ISetMember _ field _ _ v _ _ \<Rightarrow>
          (case field of Some fr \<Rightarrow> if field_is_weak m fr then [] else [v] | None \<Rightarrow> [v])
      | ISetField _ _ _ resolved v _ _ \<Rightarrow>
          (case resolved of
             Some refs \<Rightarrow> if refs \<noteq> [] \<and> field_is_weak m (last refs) then [] else [v]
           | None \<Rightarrow> [v])
      | IVector _ vs _ \<Rightarrow> vs
      | IRelease v _ \<Rightarrow> [v]
      | ISetIndex _ _ v _ _ \<Rightarrow> [v]
      | ISetMemberIndex _ _ _ _ _ v _ _ \<Rightarrow> [v]
      | ISetFieldIndex _ _ _ _ _ v _ _ \<Rightarrow> [v]
      | ISetStaticIndex _ _ _ v _ _ \<Rightarrow> [v]
      | IStoreStatic _ _ v _ _ \<Rightarrow> [v]
      | _ \<Rightarrow> [])"

definition has_arc_type :: "ir_module \<Rightarrow> (value_id \<Rightarrow> bn_type option) \<Rightarrow> value_id \<Rightarrow> bool" where
  "has_arc_type m types v \<longleftrightarrow> (case types v of Some ty \<Rightarrow> is_arc_type m ty | None \<Rightarrow> False)"

definition consumed_by ::
  "ir_module \<Rightarrow> ir_function \<Rightarrow> instruction \<Rightarrow> (value_id \<Rightarrow> bn_type option) \<Rightarrow> value_id list" where
  "consumed_by m f i types = filter (has_arc_type m types) (consume_candidates m f i)"

definition yields_new_string :: "instruction \<Rightarrow> bn_type option \<Rightarrow> bool" where
  "yields_new_string i source \<longleftrightarrow>
     (case i of
        IBinary _ _ _ _ ty \<Rightarrow> ty = TString
      | ICast _ _ ty \<Rightarrow> ty = TString \<and> source \<noteq> Some TString
      | _ \<Rightarrow> False)"

definition produces_owned :: "ir_module \<Rightarrow> instruction \<Rightarrow> (value_id \<Rightarrow> bn_type option) \<Rightarrow> bool" where
  "produces_owned m i types \<longleftrightarrow>
     (case i of
        IAllocate _ _ _ ty \<Rightarrow> is_arc_type m ty
      | ICall _ _ _ ty \<Rightarrow> is_arc_type m ty
      | IDispatchSubmit _ _ _ _ _ ty \<Rightarrow> is_arc_type m ty
      | IDispatchAwait _ _ _ _ ty \<Rightarrow> is_arc_type m ty
      | IVector _ _ ty \<Rightarrow> is_arc_type m ty
      | IDefault _ ty _ _ \<Rightarrow> is_arc_type m ty
      | ITake _ _ ty \<Rightarrow> is_arc_type m ty
      | ITakeMember _ _ _ _ _ ty \<Rightarrow> is_arc_type m ty
      | IInput _ _ ty \<Rightarrow> is_arc_type m ty
      | IIndex _ obj _ ty \<Rightarrow> is_arc_type m ty \<and> (types obj = Some THostArgs \<or> types obj = Some TString)
      | IRetain _ _ _ \<Rightarrow> True
      | IBinary _ _ _ _ _ \<Rightarrow> yields_new_string i None
      | ICast _ v _ \<Rightarrow> yields_new_string i (types v)
      | IStore _ _ p _ \<Rightarrow> p \<noteq> None | ISetIndex _ _ _ p _ \<Rightarrow> p \<noteq> None | ISetMemberIndex _ _ _ _ _ _ p _ \<Rightarrow> p \<noteq> None
      | ISetFieldIndex _ _ _ _ _ _ p _ \<Rightarrow> p \<noteq> None | ISetStaticIndex _ _ _ _ p _ \<Rightarrow> p \<noteq> None
      | ISetMember _ _ _ _ _ p _ \<Rightarrow> p \<noteq> None | ISetField _ _ _ _ _ p _ \<Rightarrow> p \<noteq> None
      | IStoreStatic _ _ _ p _ \<Rightarrow> p \<noteq> None
      | _ \<Rightarrow> False)"

section \<open>The analysis\<close>

record own_state =
  owned :: "value_id set"
  consumed :: "value_id set"

definition own_default :: own_state where
  "own_default = \<lparr>owned = {}, consumed = {}\<rparr>"

fun consume_all :: "value_id list \<Rightarrow> own_state \<Rightarrow> str + own_state" where
  "consume_all [] st = Inr st"
| "consume_all (v # vs) st =
     (if v \<notin> owned st
      then Inl ''a consumed value must be owned and not yet consumed (retain a borrowed value first)''
      else consume_all vs (st\<lparr>owned := owned st - {v}, consumed := insert v (consumed st)\<rparr>))"

definition bad_phi :: "ir_module \<Rightarrow> instruction \<Rightarrow> bool" where
  "bad_phi m i \<longleftrightarrow>
     (case i of IPhi _ _ ty \<Rightarrow> is_arc_type m ty \<and> \<not> counts_only_string_buffers m ty | _ \<Rightarrow> False)"

definition bad_retain :: "(value_id \<Rightarrow> bn_type option) \<Rightarrow> instruction \<Rightarrow> bool" where
  "bad_retain types i \<longleftrightarrow>
     (case i of IRetain _ v ty \<Rightarrow> (case types v of Some actual \<Rightarrow> actual \<noteq> ty | None \<Rightarrow> False) | _ \<Rightarrow> False)"

definition produce :: "ir_module \<Rightarrow> instruction \<Rightarrow> (value_id \<Rightarrow> bn_type option) \<Rightarrow> own_state \<Rightarrow> own_state" where
  "produce m i types st =
     (case instruction_defines i of
        Some d \<Rightarrow> if produces_owned m i types then st\<lparr>owned := insert d (owned st)\<rparr> else st
      | None \<Rightarrow> st)"

fun own_instructions ::
  "ir_module \<Rightarrow> ir_function \<Rightarrow> (value_id \<Rightarrow> bn_type option) \<Rightarrow> instruction list \<Rightarrow> own_state \<Rightarrow> str + own_state" where
  "own_instructions m f types [] st = Inr st"
| "own_instructions m f types (i # is) st =
     (if bad_phi m i then Inl ''a phi of ARC values is not supported under explicit ownership''
      else if \<exists>v \<in> set (instruction_uses i). v \<in> consumed st then Inl ''an owned value is used after it was consumed''
      else if bad_retain types i then Inl ''retain type must match the retained value''
      else try_sum (consume_all (consumed_by m f i types) st) (\<lambda>st1.
        own_instructions m f types is (produce m i types st1)))"

text \<open>The first block with an identifier, and the types of the values.\<close>

fun index_from :: "nat \<Rightarrow> basic_block list \<Rightarrow> nat \<Rightarrow> nat option" where
  "index_from k [] b = None"
| "index_from k (block # blocks) b = (if bb_id block = b then Some k else index_from (Suc k) blocks b)"

definition index_of :: "ir_function \<Rightarrow> nat \<Rightarrow> nat option" where
  "index_of f b = index_from 0 (fn_blocks f) b"

definition own_types :: "ir_function \<Rightarrow> value_id \<Rightarrow> bn_type option" where
  "own_types f =
     fold (\<lambda>i types. case instruction_result i of Some (d, ty) \<Rightarrow> types(d \<mapsto> ty) | None \<Rightarrow> types)
       (concat (map bb_instructions (fn_blocks f))) (\<lambda>_. None)"

definition own_merge ::
  "ir_function \<Rightarrow> nat \<Rightarrow> own_state \<Rightarrow> (nat \<Rightarrow> own_state option) \<times> nat list \<Rightarrow> str + (nat \<Rightarrow> own_state option) \<times> nat list" where
  "own_merge f target st = (\<lambda>(states, pending).
     case index_of f target of
       None \<Rightarrow> Inl ''branch target is missing''
     | Some t \<Rightarrow>
         (case states t of
            Some existing \<Rightarrow>
              if owned existing \<noteq> owned st then Inl ''paths that join hold different owned values''
              else Inr (states(t \<mapsto> existing\<lparr>consumed := consumed existing \<union> consumed st\<rparr>), pending)
          | None \<Rightarrow> Inr (states(t \<mapsto> st), pending @ [t])))"

definition own_return :: "ir_module \<Rightarrow> (value_id \<Rightarrow> bn_type option) \<Rightarrow> value_id option \<Rightarrow> own_state \<Rightarrow> str + unit" where
  "own_return m types v st =
     (let arc = (case v of Some value \<Rightarrow> has_arc_type m types value | None \<Rightarrow> False)
      in if arc \<and> the v \<notin> owned st
         then Inl ''a returned ARC value must be owned (retain a borrowed value first)''
         else reject_if ((if arc then owned st - {the v} else owned st) \<noteq> {})
           ''an owned value is never consumed on a path that returns'')"

definition own_terminator ::
  "ir_module \<Rightarrow> ir_function \<Rightarrow> (value_id \<Rightarrow> bn_type option) \<Rightarrow> terminator \<Rightarrow> own_state \<Rightarrow>
   (nat \<Rightarrow> own_state option) \<times> nat list \<Rightarrow> str + (nat \<Rightarrow> own_state option) \<times> nat list" where
  "own_terminator m f types t st sp =
     (case t of
        TermReturn v \<Rightarrow> try_sum (own_return m types v st) (\<lambda>_. Inr sp)
      | TermStop _ \<Rightarrow> Inr sp
      | TermJump target \<Rightarrow> own_merge f target st sp
      | TermBranch _ then_block else_block \<Rightarrow>
          try_sum (own_merge f then_block st sp) (\<lambda>sp1. own_merge f else_block st sp1))"

definition own_block ::
  "ir_module \<Rightarrow> ir_function \<Rightarrow> (value_id \<Rightarrow> bn_type option) \<Rightarrow> nat \<Rightarrow> (nat \<Rightarrow> own_state option) \<times> nat list \<Rightarrow>
   str + (nat \<Rightarrow> own_state option) \<times> nat list" where
  "own_block m f types index = (\<lambda>(states, pending).
     try_sum (own_instructions m f types (bb_instructions (fn_blocks f ! index)) (the (states index))) (\<lambda>st.
       own_terminator m f types (bb_terminator (fn_blocks f ! index)) st (states, pending)))"

definition unseen :: "ir_function \<Rightarrow> (nat \<Rightarrow> own_state option) \<Rightarrow> nat" where
  "unseen f states = card {t. t < length (fn_blocks f) \<and> states t = None}"

lemma index_from_range: "index_from k blocks b = Some t \<Longrightarrow> k \<le> t \<and> t < k + length blocks"
  by (induction k blocks b rule: index_from.induct) (auto split: if_splits)

lemma index_of_range: "index_of f b = Some t \<Longrightarrow> t < length (fn_blocks f)"
  using index_from_range by (fastforce simp: index_of_def)

lemma own_merge_measure:
  assumes "own_merge f target st (states, pending) = Inr (states', pending')"
  shows "unseen f states' + length pending' \<le> unseen f states + length pending"
proof -
  obtain t where t: "index_of f target = Some t" using assms by (cases "index_of f target") (auto simp: own_merge_def)
  show ?thesis
  proof (cases "states t")
    case None
    then have e: "states' = states(t \<mapsto> st)" "pending' = pending @ [t]" using assms t by (simp_all add: own_merge_def)
    have "{u. u < length (fn_blocks f) \<and> states u = None} = insert t {u. u < length (fn_blocks f) \<and> states' u = None}"
      using None index_of_range [OF t] by (auto simp: e)
    moreover have "t \<notin> {u. u < length (fn_blocks f) \<and> states' u = None}" by (simp add: e)
    ultimately have "unseen f states = Suc (unseen f states')" by (simp add: unseen_def)
    then show ?thesis by (simp add: e)
  next
    case (Some existing)
    then have e: "states' = states(t \<mapsto> existing\<lparr>consumed := consumed existing \<union> consumed st\<rparr>)" "pending' = pending"
      using assms t by (auto simp: own_merge_def split: if_splits)
    have "{u. u < length (fn_blocks f) \<and> states' u = None} = {u. u < length (fn_blocks f) \<and> states u = None}"
      using Some by (auto simp: e)
    then show ?thesis by (simp add: e unseen_def)
  qed
qed

lemma own_block_measure:
  assumes "own_block m f types index (states, pending) = Inr (states', pending')"
  shows "unseen f states' + length pending' \<le> unseen f states + length pending"
proof -
  obtain st where t: "own_terminator m f types (bb_terminator (fn_blocks f ! index)) st (states, pending) = Inr (states', pending')"
    using assms by (auto simp: own_block_def try_sum_Inr)
  then show ?thesis
  proof (cases "bb_terminator (fn_blocks f ! index)")
    case (TermJump target)
    with t show ?thesis using own_merge_measure by (simp add: own_terminator_def)
  next
    case (TermBranch c a b)
    with t obtain states1 pending1 where "own_merge f a st (states, pending) = Inr (states1, pending1)"
      "own_merge f b st (states1, pending1) = Inr (states', pending')" by (auto simp: own_terminator_def try_sum_Inr)
    then show ?thesis using own_merge_measure by (meson le_trans)
  qed (auto simp: own_terminator_def try_sum_Inr)
qed

function own_loop ::
  "ir_module \<Rightarrow> ir_function \<Rightarrow> (value_id \<Rightarrow> bn_type option) \<Rightarrow> (nat \<Rightarrow> own_state option) \<Rightarrow> nat list \<Rightarrow> nat set \<Rightarrow> str + unit" where
  "own_loop m f types states [] finished = Inr ()"
| "own_loop m f types states (index # pending) finished =
     (if index \<in> finished then own_loop m f types states pending finished
      else case own_block m f types index (states, pending) of
        Inl e \<Rightarrow> Inl e
      | Inr (states', pending') \<Rightarrow> own_loop m f types states' pending' (insert index finished))"
  by pat_completeness auto
termination
proof (relation "measure (\<lambda>(m, f, types, states, pending, finished). unseen f states + length pending)", goal_cases)
  case (3 m f types states index pending finished r states' pending')
  then show ?case using own_block_measure [of m f types index states pending states' pending'] by simp
qed simp_all

definition validate_function_ownership :: "ir_module \<Rightarrow> ir_function \<Rightarrow> str + unit" where
  "validate_function_ownership m f =
     (case index_of f (fn_entry f) of
        None \<Rightarrow> Inl ''entry block is missing''
      | Some entry \<Rightarrow> own_loop m f (own_types f) [entry \<mapsto> own_default] [entry] {})"

definition validate_ownership :: "ir_module \<Rightarrow> str + unit" where
  "validate_ownership m = for_each (validate_function_ownership m) (m_functions m)"

section \<open>The execution of a walk\<close>

definition own_exec ::
  "ir_module \<Rightarrow> ir_function \<Rightarrow> (value_id \<Rightarrow> bn_type option) \<Rightarrow> instruction \<Rightarrow> own_state \<Rightarrow> own_state" where
  "own_exec m f types i st =
     (let gone = set (consumed_by m f i types);
          made = (case instruction_defines i of None \<Rightarrow> {} | Some d \<Rightarrow> {d})
      in \<lparr>owned = (owned st - gone) \<union> (if produces_owned m i types then made else {}),
          consumed = (consumed st \<union> gone) - made\<rparr>)"

definition own_exec_all ::
  "ir_module \<Rightarrow> ir_function \<Rightarrow> (value_id \<Rightarrow> bn_type option) \<Rightarrow> instruction list \<Rightarrow> own_state \<Rightarrow> own_state" where
  "own_exec_all m f types is st = fold (own_exec m f types) is st"

definition walk_own :: "ir_module \<Rightarrow> ir_function \<Rightarrow> nat list \<Rightarrow> own_state" where
  "walk_own m f p = fold (\<lambda>b. own_exec_all m f (own_types f) (bb_instructions (fn_blocks f ! b))) p own_default"

lemma own_exec_all_simps [simp]:
  "own_exec_all m f types [] st = st"
  "own_exec_all m f types (i # is) st = own_exec_all m f types is (own_exec m f types i st)"
  "own_exec_all m f types (is1 @ is2) st = own_exec_all m f types is2 (own_exec_all m f types is1 st)"
  by (simp_all add: own_exec_all_def)

lemma walk_own_simps [simp]:
  "walk_own m f [] = own_default"
  "walk_own m f (p @ [b]) = own_exec_all m f (own_types f) (bb_instructions (fn_blocks f ! b)) (walk_own m f p)"
  by (simp_all add: walk_own_def)

text \<open>The checks against the execution: the owned values agree, the consumed ones are
  kept.\<close>

lemma consume_all_Inr:
  "consume_all vs st = Inr st1 \<Longrightarrow> owned st1 = owned st - set vs \<and> consumed st1 = consumed st \<union> set vs \<and>
     set vs \<subseteq> owned st \<and> distinct vs"
  by (induction vs st rule: consume_all.induct) (auto split: if_splits)

lemma own_instructions_append:
  "own_instructions m f types (xs @ ys) st = try_sum (own_instructions m f types xs st) (own_instructions m f types ys)"
proof (induction m f types xs st rule: own_instructions.induct)
  case (2 m f types i "is" st)
  then show ?case by (cases "consume_all (consumed_by m f i types) st") simp_all
qed simp

lemma produce_simps:
  "owned (produce m i types st) = owned st \<union>
     (if produces_owned m i types then (case instruction_defines i of None \<Rightarrow> {} | Some d \<Rightarrow> {d}) else {})"
  "consumed (produce m i types st) = consumed st"
  by (auto simp: produce_def split: option.splits)

lemma own_instruction_step:
  assumes "own_instructions m f types (i # is) st = Inr st'"
  obtains st1 where "own_instructions m f types is (produce m i types st1) = Inr st'"
    "set (consumed_by m f i types) \<subseteq> owned st" "distinct (consumed_by m f i types)"
    "owned st1 = owned st - set (consumed_by m f i types)" "consumed st1 = consumed st \<union> set (consumed_by m f i types)"
    "\<forall>v \<in> set (instruction_uses i). v \<notin> consumed st"
proof -
  obtain st1 where c: "consume_all (consumed_by m f i types) st = Inr st1"
    and r: "own_instructions m f types is (produce m i types st1) = Inr st'"
    and u: "\<forall>v \<in> set (instruction_uses i). v \<notin> consumed st"
    using assms by (auto simp: try_sum_Inr split: if_splits)
  show thesis using consume_all_Inr [OF c] by (intro that [OF r _ _ _ _ u]) auto
qed

lemma own_instructions_exec:
  "own_instructions m f types is st = Inr st' \<Longrightarrow> owned s = owned st \<Longrightarrow> consumed s \<subseteq> consumed st \<Longrightarrow>
     owned (own_exec_all m f types is s) = owned st' \<and> consumed (own_exec_all m f types is s) \<subseteq> consumed st' \<and>
     consumed st \<subseteq> consumed st'"
proof (induction "is" arbitrary: st s)
  case (Cons i "is")
  obtain st1 where st1: "own_instructions m f types is (produce m i types st1) = Inr st'"
    "owned st1 = owned st - set (consumed_by m f i types)" "consumed st1 = consumed st \<union> set (consumed_by m f i types)"
    using own_instruction_step [OF Cons.prems(1)] by metis
  have "owned (own_exec m f types i s) = owned (produce m i types st1)"
    "consumed (own_exec m f types i s) \<subseteq> consumed (produce m i types st1)"
    "consumed st \<subseteq> consumed (produce m i types st1)"
    using st1 Cons.prems(2,3) by (auto simp: own_exec_def Let_def produce_simps)
  then show ?case using Cons.IH [OF st1(1)] by simp blast
qed simp

section \<open>What the breadth-first loop has checked\<close>

definition dense :: "ir_function \<Rightarrow> bool" where
  "dense f \<longleftrightarrow> (\<forall>i < length (fn_blocks f). bb_id (fn_blocks f ! i) = i)"

lemma index_from_dense:
  "\<forall>i < length blocks. bb_id (blocks ! i) = k + i \<Longrightarrow>
     index_from k blocks b = (if k \<le> b \<and> b < k + length blocks then Some b else None)"
proof (induction k blocks b rule: index_from.induct)
  case (2 k block blocks b)
  have "\<forall>i < length blocks. bb_id (blocks ! i) = Suc k + i" using 2(2) by auto
  moreover have "bb_id block = k" using 2(2) by auto
  ultimately show ?case using 2(1) by auto
qed simp

lemma index_of_dense: "dense f \<Longrightarrow> index_of f b = (if b < length (fn_blocks f) then Some b else None)"
  using index_from_dense [of "fn_blocks f" 0 b] by (simp add: index_of_def dense_def)

text \<open>The state on entry to a block is that of some walk, with at least its consumed
  values.\<close>

definition from_walk :: "ir_module \<Rightarrow> ir_function \<Rightarrow> nat \<Rightarrow> own_state \<Rightarrow> bool" where
  "from_walk m f b st \<longleftrightarrow>
     (\<exists>p. walk f p b \<and> owned (walk_own m f p) = owned st \<and> consumed (walk_own m f p) \<subseteq> consumed st)"

definition grows :: "(nat \<Rightarrow> own_state option) \<Rightarrow> (nat \<Rightarrow> own_state option) \<Rightarrow> bool" where
  "grows S S' \<longleftrightarrow> (\<forall>b st. S b = Some st \<longrightarrow> (\<exists>st'. S' b = Some st' \<and> owned st' = owned st))"

definition checked_block :: "ir_module \<Rightarrow> ir_function \<Rightarrow> (nat \<Rightarrow> own_state option) \<Rightarrow> nat \<Rightarrow> bool" where
  "checked_block m f S b \<longleftrightarrow>
     (\<exists>s st st'. S b = Some s \<and> from_walk m f b st \<and> owned st = owned s \<and>
        own_instructions m f (own_types f) (bb_instructions (fn_blocks f ! b)) st = Inr st' \<and>
        (\<forall>v. bb_terminator (fn_blocks f ! b) = TermReturn v \<longrightarrow> own_return m (own_types f) v st' = Inr ()) \<and>
        (\<forall>c \<in> set (block_successors (bb_terminator (fn_blocks f ! b))). \<exists>t. S c = Some t \<and> owned t = owned st'))"

lemma grows_refl [simp]: "grows S S"
  by (simp add: grows_def)

lemma grows_trans: "grows S S' \<Longrightarrow> grows S' S'' \<Longrightarrow> grows S S''"
  unfolding grows_def by metis

lemma checked_block_grows: "checked_block m f S b \<Longrightarrow> grows S S' \<Longrightarrow> checked_block m f S' b"
  unfolding checked_block_def grows_def by metis

lemma own_merge_Inr:
  assumes "own_merge f c st (S, pending) = Inr (S', pending')" "dense f" "from_walk m f c st"
    "\<forall>b s. S b = Some s \<longrightarrow> from_walk m f b s"
  shows "grows S S' \<and> (\<exists>t. S' c = Some t \<and> owned t = owned st) \<and> (\<forall>b s. S' b = Some s \<longrightarrow> from_walk m f b s) \<and>
    (\<forall>x. S' x \<noteq> None \<longleftrightarrow> x = c \<or> S x \<noteq> None) \<and> set pending' = set pending \<union> (if S c = None then {c} else {})"
proof -
  have i: "index_of f c = Some c"
    using assms(1,2) by (auto simp: own_merge_def index_of_dense split: if_splits)
  show ?thesis
  proof (cases "S c")
    case None
    then have "S' = S(c \<mapsto> st)" "pending' = pending @ [c]" using assms(1) i by (simp_all add: own_merge_def)
    then show ?thesis using None assms(3,4) by (auto simp: grows_def)
  next
    case (Some e)
    then have e: "S' = S(c \<mapsto> e\<lparr>consumed := consumed e \<union> consumed st\<rparr>)" "pending' = pending" "owned e = owned st"
      using assms(1) i by (auto simp: own_merge_def split: if_splits)
    have "from_walk m f c (e\<lparr>consumed := consumed e \<union> consumed st\<rparr>)"
      using assms(4) Some by (fastforce simp: from_walk_def)
    then show ?thesis using e Some assms(4) by (auto simp: grows_def)
  qed
qed

lemma from_walk_step:
  assumes "from_walk m f b st" "own_instructions m f (own_types f) (bb_instructions (fn_blocks f ! b)) st = Inr st'"
    "c \<in> set (block_successors (bb_terminator (fn_blocks f ! b)))"
  shows "from_walk m f c st'"
proof -
  obtain p where p: "walk f p b" "owned (walk_own m f p) = owned st" "consumed (walk_own m f p) \<subseteq> consumed st"
    using assms(1) by (auto simp: from_walk_def)
  have "walk f (p @ [b]) c" using p(1) assms(3) by (rule walk_step)
  then show ?thesis
    using own_instructions_exec [OF assms(2) p(2,3)] unfolding from_walk_def by (intro exI [of _ "p @ [b]"]) simp
qed

lemma own_block_Inr:
  assumes r: "own_block m f (own_types f) b (S, pending) = Inr (S', pending')" and "dense f" "S b = Some s"
    and w: "\<forall>b s. S b = Some s \<longrightarrow> from_walk m f b s"
  shows "grows S S' \<and> checked_block m f S' b \<and> (\<forall>b s. S' b = Some s \<longrightarrow> from_walk m f b s) \<and>
    (\<forall>c. S' c \<noteq> None \<longrightarrow> S c \<noteq> None \<or> c \<in> set pending') \<and> set pending \<subseteq> set pending' \<and>
    (\<forall>c \<in> set pending'. c \<in> set pending \<or> S' c \<noteq> None)"
proof -
  let ?t = "bb_terminator (fn_blocks f ! b)"
  obtain st' where i: "own_instructions m f (own_types f) (bb_instructions (fn_blocks f ! b)) s = Inr st'"
    and t: "own_terminator m f (own_types f) ?t st' (S, pending) = Inr (S', pending')"
    using r assms(3) by (auto simp: own_block_def try_sum_Inr)
  have fw: "from_walk m f b s" using w assms(3) by blast
  have step: "from_walk m f c st'" if "c \<in> set (block_successors ?t)" for c
    using from_walk_step [OF fw i that] .
  have checked: "checked_block m f S' b"
    if g: "grows S S'" and ret: "\<forall>v. ?t = TermReturn v \<longrightarrow> own_return m (own_types f) v st' = Inr ()"
      and succ: "\<forall>c \<in> set (block_successors ?t). \<exists>t. S' c = Some t \<and> owned t = owned st'"
  proof -
    obtain s' where "S' b = Some s'" "owned s' = owned s" using g assms(3) unfolding grows_def by blast
    then show ?thesis unfolding checked_block_def using fw i ret succ
      by (intro exI [of _ s'] exI [of _ s] exI [of _ st']) simp
  qed
  show ?thesis
  proof (cases ?t)
    case (TermJump c)
    then have "own_merge f c st' (S, pending) = Inr (S', pending')" "from_walk m f c st'"
      using t step [of c] by (simp_all add: own_terminator_def block_successors_def)
    note M = own_merge_Inr [OF this(1) assms(2) this(2) w]
    then show ?thesis using checked TermJump by (auto simp: block_successors_def)
  next
    case (TermBranch v c d)
    then obtain S1 pending1 where m1: "own_merge f c st' (S, pending) = Inr (S1, pending1)"
      and m2: "own_merge f d st' (S1, pending1) = Inr (S', pending')"
      using t by (auto simp: own_terminator_def try_sum_Inr)
    have fw: "from_walk m f c st'" "from_walk m f d st'"
      using step TermBranch by (simp_all add: block_successors_def)
    note M1 = own_merge_Inr [OF m1 assms(2) fw(1) w]
    note M2 = own_merge_Inr [OF m2 assms(2) fw(2) conjunct1 [OF conjunct2 [OF conjunct2 [OF M1]]]]
    have g: "grows S S'" using M1 M2 grows_trans by blast
    obtain t1 where "S1 c = Some t1" "owned t1 = owned st'" using M1 by blast
    then have "\<exists>t. S' c = Some t \<and> owned t = owned st'" using M2 unfolding grows_def by metis
    then have chk: "checked_block m f S' b" using g M2 TermBranch by (intro checked) (auto simp: block_successors_def)
    have W: "\<forall>b s. S' b = Some s \<longrightarrow> from_walk m f b s" using M2 by blast
    have D: "S1 x \<noteq> None \<longleftrightarrow> x = c \<or> S x \<noteq> None" "S' x \<noteq> None \<longleftrightarrow> x = d \<or> S1 x \<noteq> None" for x
      using M1 M2 by blast+
    have "set pending' = set pending \<union> (if S c = None then {c} else {}) \<union> (if S1 d = None then {d} else {})"
      using M1 M2 by simp
    then have P: "x \<in> set pending' \<longleftrightarrow> x \<in> set pending \<or> x = c \<and> S c = None \<or> x = d \<and> S1 d = None" for x
      by auto
    have "S x \<noteq> None \<or> x \<in> set pending'" if "S' x \<noteq> None" for x
    proof -
      have "x = d \<or> S1 x \<noteq> None" using that D(2) by metis
      then have "x = d \<and> S1 d = None \<or> x = c \<and> S c = None \<or> S x \<noteq> None" using D(1) [of x] by metis
      then show ?thesis using P [of x] by metis
    qed
    moreover have "x \<in> set pending \<or> S' x \<noteq> None" if "x \<in> set pending'" for x
      using that D(1) [of x] D(2) [of x] P [of x] by metis
    ultimately have N: "\<forall>x. S' x \<noteq> None \<longrightarrow> S x \<noteq> None \<or> x \<in> set pending'"
      "\<forall>x \<in> set pending'. x \<in> set pending \<or> S' x \<noteq> None" by blast+
    have "set pending \<subseteq> set pending'" using P by blast
    with chk show ?thesis using g W N by (intro conjI)
  next
    case (TermReturn v)
    then show ?thesis using t w checked by (auto simp: own_terminator_def try_sum_Inr block_successors_def)
  next
    case (TermStop v)
    then show ?thesis using t w checked by (auto simp: own_terminator_def block_successors_def)
  qed
qed

lemma own_loop_Inr:
  "own_loop m f types S pending finished = Inr () \<Longrightarrow> types = own_types f \<Longrightarrow> dense f \<Longrightarrow>
     (\<forall>b s. S b = Some s \<longrightarrow> from_walk m f b s) \<Longrightarrow> (\<forall>b \<in> finished. checked_block m f S b) \<Longrightarrow>
     (\<forall>b. S b \<noteq> None \<longrightarrow> b \<in> finished \<or> b \<in> set pending) \<Longrightarrow> (\<forall>b \<in> set pending. S b \<noteq> None) \<Longrightarrow>
     \<exists>S'. grows S S' \<and> (\<forall>b. S' b \<noteq> None \<longrightarrow> checked_block m f S' b)"
proof (induction m f types S pending finished rule: own_loop.induct)
  case (1 m f types S finished)
  then show ?case by (intro exI [of _ S]) auto
next
  case (2 m f types S index pending finished)
  show ?case
  proof (cases "index \<in> finished")
    case True
    have "\<forall>b. S b \<noteq> None \<longrightarrow> b \<in> finished \<or> b \<in> set pending" "\<forall>b \<in> set pending. S b \<noteq> None"
      "own_loop m f types S pending finished = Inr ()" using 2(3,8,9) True by auto
    then show ?thesis using 2(1) [OF True _ 2(4-7)] by blast
  next
    case False
    then obtain S1 pending1 where b: "own_block m f types index (S, pending) = Inr (S1, pending1)"
      and l: "own_loop m f types S1 pending1 (insert index finished) = Inr ()"
      using 2(3) by (auto split: sum.splits)
    obtain s where s: "S index = Some s" using 2(9) by auto
    note B = own_block_Inr [OF b [unfolded 2(4)] 2(5) s 2(6)]
    have "\<exists>S'. grows S1 S' \<and> (\<forall>b. S' b \<noteq> None \<longrightarrow> checked_block m f S' b)"
    proof (rule 2(2) [OF False b refl l 2(4,5)])
      show "\<forall>b s. S1 b = Some s \<longrightarrow> from_walk m f b s" using B by blast
      show "\<forall>b \<in> insert index finished. checked_block m f S1 b"
        using B 2(7) checked_block_grows by blast
      show "\<forall>b. S1 b \<noteq> None \<longrightarrow> b \<in> insert index finished \<or> b \<in> set pending1"
      proof (intro allI impI)
        fix c assume "S1 c \<noteq> None"
        then consider "S c \<noteq> None" | "c \<in> set pending1" using B by blast
        then show "c \<in> insert index finished \<or> c \<in> set pending1"
        proof cases
          case 1
          then have "c \<in> finished \<or> c \<in> set (index # pending)" using 2(8) by blast
          moreover have "set pending \<subseteq> set pending1" using B by blast
          ultimately show ?thesis by auto
        qed blast
      qed
      show "\<forall>b \<in> set pending1. S1 b \<noteq> None"
      proof
        fix c assume "c \<in> set pending1"
        then consider "c \<in> set pending" | "S1 c \<noteq> None" using B by blast
        then show "S1 c \<noteq> None"
        proof cases
          case 1
          then obtain t where t: "S c = Some t" using 2(9) by auto
          have "grows S S1" using B by blast
          with t show ?thesis unfolding grows_def by fastforce
        qed
      qed
    qed
    then show ?thesis using B grows_trans by blast
  qed
qed

lemma ownership_accepted:
  assumes "validate_function_ownership m f = Inr ()" "dense f" "targets_ok f"
  obtains S where "\<And>p b. walk f p b \<Longrightarrow> checked_block m f S b"
    "\<And>p b s. walk f p b \<Longrightarrow> S b = Some s \<Longrightarrow> owned s = owned (walk_own m f p)"
proof -
  let ?S = "[fn_entry f \<mapsto> own_default]"
  have "own_loop m f (own_types f) ?S [fn_entry f] {} = Inr ()"
    using assms by (simp add: validate_function_ownership_def index_of_dense targets_ok_def)
  moreover have "from_walk m f (fn_entry f) own_default"
    unfolding from_walk_def using walk_entry by (intro exI [of _ "[]"]) simp
  then have "\<forall>b s. ?S b = Some s \<longrightarrow> from_walk m f b s" by simp
  moreover have "\<forall>b. ?S b \<noteq> None \<longrightarrow> b \<in> {} \<or> b \<in> set [fn_entry f]" "\<forall>b \<in> set [fn_entry f]. ?S b \<noteq> None"
    by (simp_all split: if_splits)
  ultimately obtain S where S: "grows ?S S" "\<forall>b. S b \<noteq> None \<longrightarrow> checked_block m f S b"
    using own_loop_Inr [OF _ refl assms(2), of m ?S "[fn_entry f]" "{}"] by (metis ball_empty)
  have main: "\<exists>s. S b = Some s \<and> owned s = owned (walk_own m f p)" if "walk f p b" for p b
    using that
  proof (induction rule: walk.induct)
    case walk_entry
    then show ?case using S(1) by (auto simp: grows_def)
  next
    case (walk_step p b c)
    then obtain s where s: "S b = Some s" "owned s = owned (walk_own m f p)" by blast
    then have "checked_block m f S b" using S(2) by simp
    then obtain st st' t where "owned st = owned s"
      and i: "own_instructions m f (own_types f) (bb_instructions (fn_blocks f ! b)) st = Inr st'"
      and t: "S c = Some t" "owned t = owned st'"
      using s(1) walk_step(2) by (auto simp: checked_block_def)
    then have "owned (own_exec_all m f (own_types f) (bb_instructions (fn_blocks f ! b)) \<lparr>owned = owned s, consumed = {}\<rparr>) = owned st'"
      using own_instructions_exec [OF i, of "\<lparr>owned = owned s, consumed = {}\<rparr>"] by simp
    moreover have "owned (own_exec_all m f types is x) = owned (own_exec_all m f types is y)" if "owned x = owned y" for types "is" x y
      using that by (induction "is" arbitrary: x y) (auto simp: own_exec_def Let_def)
    ultimately show ?case using t s(2) by (metis own_state.select_convs(1) walk_own_simps(2))
  qed
  show thesis using main S(2) by (intro that) fastforce+
qed

end
