(* ===== verification/BN_IR_Validate.thy ===== *)
theory BN_IR_Validate
  imports BN_IR_Check BN_IR_Ownership
begin

text \<open>
  The validator of a module: \<open>validate\<close> and \<open>validate_phi\<close> of
  \<open>crates/bn_ir/src/validate.rs\<close>, with the checks of the other theories in the order of
  the code. The result is \<open>None\<close> where a fixpoint loop does not end, else an error
  message or acceptance. The last sections say what acceptance means for an execution
  that walks through the blocks of a function.
\<close>

section \<open>The values of a function\<close>

definition value_type_of :: "instruction \<Rightarrow> bn_type option" where
  "value_type_of i =
     (case instruction_type i of
        Some ty \<Rightarrow> Some ty
      | None \<Rightarrow> (case i of ILength _ _ \<Rightarrow> Some (TInteger Int32) | ISizeOf _ _ \<Rightarrow> Some (TInteger Int32) | _ \<Rightarrow> None))"

fun collect_values :: "str \<Rightarrow> instruction list \<Rightarrow> value_id set \<times> value_types \<Rightarrow> str + value_id set \<times> value_types" where
  "collect_values name [] acc = Inr acc"
| "collect_values name (i # is) (all_values, types) =
     (case instruction_defines i of
        None \<Rightarrow> collect_values name is (all_values, types)
      | Some d \<Rightarrow>
          if d \<in> all_values
          then Inl (''value %'' @ show_nat d @ '' is defined by more than one instruction in function '' @ name)
          else collect_values name is
            (insert d all_values, case value_type_of i of Some ty \<Rightarrow> types(d \<mapsto> ty) | None \<Rightarrow> types))"

definition function_instructions :: "ir_function \<Rightarrow> instruction list" where
  "function_instructions f = concat (map bb_instructions (fn_blocks f))"

section \<open>Phi instructions\<close>

record phi_context =
  pc_predecessors :: "nat list list"
  pc_reachable :: "bool list"
  pc_outgoing :: "value_id set list"
  pc_types :: value_types

fun phi_edges :: "phi_context \<Rightarrow> nat \<Rightarrow> (block_id \<times> value_id) list \<Rightarrow> nat set \<Rightarrow> str + nat set" where
  "phi_edges ctx block [] actual = Inr actual"
| "phi_edges ctx block ((p, v) # sources) actual =
     (if length (pc_predecessors ctx) \<le> p \<or> \<not> pc_reachable ctx ! p \<or> p \<in> actual \<or> v \<notin> pc_outgoing ctx ! p
      then Inl (''Phi in block '' @ show_nat block @ '' has invalid incoming predecessor '' @ show_nat p @
             '' and value %'' @ show_nat v)
      else phi_edges ctx block sources (insert p actual))"

definition validate_phi :: "phi_context \<Rightarrow> nat \<Rightarrow> (block_id \<times> value_id) list \<Rightarrow> bn_type \<Rightarrow> str + unit" where
  "validate_phi ctx block sources ty =
     try_sum (phi_edges ctx block sources {}) (\<lambda>actual.
       if actual \<noteq> set (filter (\<lambda>p. pc_reachable ctx ! p) (pc_predecessors ctx ! block))
       then Inl ''Phi incoming edges must match the block predecessors exactly''
       else reject_if (list_ex (\<lambda>(_, v). lacks (pc_types ctx) v (\<lambda>t. types_compatible t ty)) sources)
         ''Phi incoming values must match the Phi result type'')"

section \<open>Blocks\<close>

definition add_defined :: "instruction \<Rightarrow> value_id set \<Rightarrow> value_id set" where
  "add_defined i defined = (case instruction_defines i of None \<Rightarrow> defined | Some d \<Rightarrow> insert d defined)"

definition uses_defined :: "instruction \<Rightarrow> value_id set \<Rightarrow> bool" where
  "uses_defined i defined \<longleftrightarrow> (\<forall>v \<in> set (instruction_uses i). v \<in> defined \<or> instruction_defines i = Some v)"

fun check_instructions ::
  "ir_module \<Rightarrow> phi_context \<Rightarrow> nat \<Rightarrow> instruction list \<Rightarrow> bool \<Rightarrow> value_id set \<Rightarrow> str + value_id set" where
  "check_instructions m ctx block [] saw_non_phi defined = Inr defined"
| "check_instructions m ctx block (i # is) saw_non_phi defined =
     (case i of
        IPhi _ sources ty \<Rightarrow>
          if saw_non_phi then Inl ''Phi instructions must precede other instructions in a block''
          else try_sum (validate_phi ctx block sources ty) (\<lambda>_.
            check_instructions m ctx block is saw_non_phi (add_defined i defined))
      | _ \<Rightarrow>
          if \<not> uses_defined i defined
          then Inl ''instruction uses a value that is not defined on every executable path''
          else try_sum (validate_instruction_types m i (pc_types ctx)) (\<lambda>_.
            check_instructions m ctx block is True (add_defined i defined)))"

definition check_terminator ::
  "ir_module \<Rightarrow> ir_function \<Rightarrow> value_types \<Rightarrow> value_id set \<Rightarrow> terminator \<Rightarrow> str + unit" where
  "check_terminator m f types defined t =
     (case t of
        TermBranch condition _ _ \<Rightarrow>
          if condition \<notin> defined then Inl ''branch condition is not defined''
          else reject_if (\<not> is_boolean (types condition)) ''branch condition must have BOOLEAN type''
      | TermReturn (Some v) \<Rightarrow>
          if v \<notin> defined then Inl ''terminator value is not defined''
          else validate_return_type m f (Some v) types
      | TermReturn None \<Rightarrow> validate_return_type m f None types
      | TermStop code \<Rightarrow>
          if code \<notin> defined then Inl ''terminator value is not defined''
          else reject_if (\<not> is_integer (types code)) ''stop code must have an integer type''
      | TermJump _ \<Rightarrow> Inr ())"

definition check_block ::
  "ir_module \<Rightarrow> ir_function \<Rightarrow> phi_context \<Rightarrow> value_id set list \<Rightarrow> nat \<Rightarrow> str + unit" where
  "check_block m f ctx incoming index =
     (if \<not> pc_reachable ctx ! index then Inr ()
      else
        let block = fn_blocks f ! index
        in try_sum (check_instructions m ctx index (bb_instructions block) False (incoming ! index)) (\<lambda>defined.
             check_terminator m f (pc_types ctx) defined (bb_terminator block)))"

section \<open>Functions and modules\<close>

definition check_shape :: "ir_function \<Rightarrow> str + unit" where
  "check_shape f =
     (if \<not> u32_ok (int (length (fn_blocks f))) then Inl ''function has too many basic blocks''
      else if length (fn_blocks f) \<le> fn_entry f then Inl ''function entry block does not exist''
      else for_each (\<lambda>(index, block).
        if bb_id block \<noteq> index then Inl ''basic block IDs must be dense and ordered''
        else reject_if (list_ex (\<lambda>t. length (fn_blocks f) \<le> t) (block_successors (bb_terminator block)))
          ''terminator references a basic block that does not exist'')
        (enumerate 0 (fn_blocks f)))"

definition validate_function :: "ir_module \<Rightarrow> ir_function \<Rightarrow> (str + unit) option" where
  "validate_function m f =
     (case check_shape f of
        Inl e \<Rightarrow> Some (Inl e)
      | Inr _ \<Rightarrow>
          let g = flow_graph_of f
          in case collect_values (fn_name f) (function_instructions f) ({}, Map.empty) of
            Inl e \<Rightarrow> Some (Inl e)
          | Inr (all_values, types) \<Rightarrow>
              map_option (\<lambda>(incoming, outgoing).
                for_each
                  (check_block m f \<lparr>pc_predecessors = fg_predecessors g, pc_reachable = fg_reachable g,
                     pc_outgoing = outgoing, pc_types = types\<rparr> incoming)
                  [0..<length (fn_blocks f)])
                (flow_fixpoint g all_values))"

fun validate_functions :: "ir_module \<Rightarrow> ir_function list \<Rightarrow> (str + unit) option" where
  "validate_functions m [] = Some (Inr ())"
| "validate_functions m (f # fs) =
     (case validate_function m f of
        None \<Rightarrow> None
      | Some (Inl e) \<Rightarrow> Some (Inl e)
      | Some (Inr _) \<Rightarrow> validate_functions m fs)"

definition validate :: "ir_module \<Rightarrow> (str + unit) option" where
  "validate m =
     (case try_sum (validate_class_bases m) (\<lambda>_. try_sum (validate_ownership m) (\<lambda>_.
             try_sum (validate_field_layouts m) (\<lambda>_. validate_function_kinds m))) of
        Inl e \<Rightarrow> Some (Inl e)
      | Inr _ \<Rightarrow> validate_functions m (m_functions m))"

section \<open>The reference\<close>

text \<open>A value is available at a place of a block when every walk to the block defines it
  before that place.\<close>

definition is_phi :: "instruction \<Rightarrow> bool" where
  "is_phi i \<longleftrightarrow> (case i of IPhi _ _ _ \<Rightarrow> True | _ \<Rightarrow> False)"

definition available :: "ir_function \<Rightarrow> nat \<Rightarrow> instruction list \<Rightarrow> value_id set" where
  "available f b before = {v. \<forall>p. walk f p b \<longrightarrow> v \<in> defined_on f p \<union> defined_by before}"

definition definitions_of :: "instruction list \<Rightarrow> value_id list" where
  "definitions_of instrs = List.map_filter instruction_defines instrs"

definition types_of :: "ir_function \<Rightarrow> value_types" where
  "types_of f v =
     (case find (\<lambda>i. instruction_defines i = Some v) (function_instructions f) of
        Some i \<Rightarrow> value_type_of i | None \<Rightarrow> None)"

definition phi_spec :: "ir_function \<Rightarrow> nat \<Rightarrow> (block_id \<times> value_id) list \<Rightarrow> bn_type \<Rightarrow> bool" where
  "phi_spec f b arms ty \<longleftrightarrow>
     distinct (map fst arms) \<and> fst ` set arms = {a. \<exists>q. walk f (q @ [a]) b} \<and>
     (\<forall>(a, v) \<in> set arms. (\<forall>q. walk f (q @ [a]) b \<longrightarrow> v \<in> defined_on f (q @ [a])) \<and>
        (\<exists>t. types_of f v = Some t \<and> types_compatible t ty))"

definition instruction_spec :: "ir_module \<Rightarrow> ir_function \<Rightarrow> nat \<Rightarrow> instruction list \<Rightarrow> instruction \<Rightarrow> bool" where
  "instruction_spec m f b before i \<longleftrightarrow>
     (case i of
        IPhi _ arms ty \<Rightarrow> list_all is_phi before \<and> phi_spec f b arms ty
      | _ \<Rightarrow> uses_defined i (available f b before) \<and> validate_instruction_types m i (types_of f) = Inr ())"

definition block_spec :: "ir_module \<Rightarrow> ir_function \<Rightarrow> nat \<Rightarrow> bool" where
  "block_spec m f b \<longleftrightarrow>
     (let block = fn_blocks f ! b
      in (\<forall>before i after. bb_instructions block = before @ i # after \<longrightarrow> instruction_spec m f b before i) \<and>
         check_terminator m f (types_of f) (available f b (bb_instructions block)) (bb_terminator block) = Inr ())"

definition well_formed :: "ir_module \<Rightarrow> ir_function \<Rightarrow> bool" where
  "well_formed m f \<longleftrightarrow>
     u32_ok (int (length (fn_blocks f))) \<and> dense f \<and> targets_ok f \<and>
     distinct (definitions_of (function_instructions f)) \<and>
     (\<forall>p b. walk f p b \<longrightarrow> block_spec m f b)"

section \<open>What the loops accept\<close>

lemma definitions_of_simps [simp]:
  "definitions_of [] = []"
  "definitions_of (i # is) = (case instruction_defines i of None \<Rightarrow> definitions_of is | Some d \<Rightarrow> d # definitions_of is)"
  by (simp_all add: definitions_of_def map_filter_simps split: option.splits)

lemma set_definitions [simp]: "set (definitions_of instrs) = defined_by instrs"
  by (induction instrs) (auto simp: defined_by_Cons split: option.splits)

lemma defined_by_functions: "defined_by (function_instructions f) = all_defined f"
  by (auto simp: defined_by_def all_defined_def function_instructions_def)

lemma value_type_Some: "instruction_defines i = Some d \<Longrightarrow> \<exists>ty. value_type_of i = Some ty"
  using defines_typed [of i d] by (cases "instruction_type i") (auto simp: value_type_of_def)

lemma collect_values_Inr:
  "collect_values name is (A, T) = Inr (A', T') \<longleftrightarrow>
     distinct (definitions_of is) \<and> defined_by is \<inter> A = {} \<and> A' = A \<union> defined_by is \<and>
     T' = (\<lambda>v. case find (\<lambda>i. instruction_defines i = Some v) is of Some i \<Rightarrow> value_type_of i | None \<Rightarrow> T v)"
proof (induction name "is" "(A, T)" arbitrary: A T rule: collect_values.induct)
  case (2 name i "is" A T)
  show ?case
  proof (cases "instruction_defines i")
    case None
    with 2(1) show ?thesis by (simp add: defined_by_Cons)
  next
    case (Some d)
    then obtain ty where ty: "value_type_of i = Some ty" using value_type_Some by blast
    have find: "find (\<lambda>i. instruction_defines i = Some d) is = None" if "d \<notin> defined_by is"
      using that by (auto simp: find_None_iff defined_by_def)
    then have "(\<lambda>v. case find (\<lambda>i. instruction_defines i = Some v) is of Some i \<Rightarrow> value_type_of i | None \<Rightarrow> (T(d \<mapsto> ty)) v) =
        (\<lambda>v. case find (\<lambda>i. instruction_defines i = Some v) (i # is) of Some i \<Rightarrow> value_type_of i | None \<Rightarrow> T v)"
      if "d \<notin> defined_by is" using that Some ty find [OF that] by (intro ext) (auto split: option.splits)
    moreover have "collect_values name is (insert d A, T(d \<mapsto> ty)) = Inr (A', T') \<longleftrightarrow>
        distinct (definitions_of is) \<and> defined_by is \<inter> insert d A = {} \<and> A' = insert d A \<union> defined_by is \<and>
        T' = (\<lambda>v. case find (\<lambda>i. instruction_defines i = Some v) is of Some i \<Rightarrow> value_type_of i | None \<Rightarrow> (T(d \<mapsto> ty)) v)"
      if "d \<notin> A" using 2(2) [OF Some that, unfolded ty option.case] .
    ultimately show ?thesis using Some ty
      by (cases "d \<in> A"; cases "d \<in> defined_by is") (simp_all add: defined_by_Cons insert_commute)
  qed
qed auto

lemma phi_edges_Inr:
  "phi_edges ctx b arms A = Inr A' \<longleftrightarrow>
     A' = A \<union> fst ` set arms \<and> distinct (map fst arms) \<and> fst ` set arms \<inter> A = {} \<and>
     (\<forall>(p, v) \<in> set arms. p < length (pc_predecessors ctx) \<and> pc_reachable ctx ! p \<and> v \<in> pc_outgoing ctx ! p)"
  by (induction ctx b arms A rule: phi_edges.induct) (auto simp: not_le)

lemma validate_phi_Inr:
  "validate_phi ctx b arms ty = Inr () \<longleftrightarrow>
     distinct (map fst arms) \<and> fst ` set arms = {p \<in> set (pc_predecessors ctx ! b). pc_reachable ctx ! p} \<and>
     (\<forall>(p, v) \<in> set arms. p < length (pc_predecessors ctx) \<and> pc_reachable ctx ! p \<and> v \<in> pc_outgoing ctx ! p \<and>
        (\<exists>t. pc_types ctx v = Some t \<and> types_compatible t ty))"
  by (auto simp: validate_phi_def try_sum_Inr phi_edges_Inr list_ex_iff lacks_def split: option.splits)

lemma all_splits_Cons:
  "(\<forall>xs y zs. x # ys = xs @ y # zs \<longrightarrow> P xs y) \<longleftrightarrow> P [] x \<and> (\<forall>xs y zs. ys = xs @ y # zs \<longrightarrow> P (x # xs) y)"
  by (auto simp: Cons_eq_append_conv)

definition instruction_ok :: "ir_module \<Rightarrow> phi_context \<Rightarrow> nat \<Rightarrow> bool \<Rightarrow> value_id set \<Rightarrow> instruction \<Rightarrow> bool" where
  "instruction_ok m ctx b leading defined i \<longleftrightarrow>
     (case i of
        IPhi _ arms ty \<Rightarrow> leading \<and> validate_phi ctx b arms ty = Inr ()
      | _ \<Rightarrow> uses_defined i defined \<and> validate_instruction_types m i (pc_types ctx) = Inr ())"

lemma add_defined_union: "add_defined i s = s \<union> defined_by [i]"
  by (simp add: add_defined_def defined_by_Cons split: option.splits)

lemma check_instructions_step:
  "check_instructions m ctx b (i # is) saw D = Inr D' \<longleftrightarrow>
     instruction_ok m ctx b (\<not> saw) D i \<and>
     check_instructions m ctx b is (saw \<or> \<not> is_phi i) (add_defined i D) = Inr D'"
  by (cases i) (simp_all add: instruction_ok_def is_phi_def try_sum_Inr)

lemma check_instructions_Inr:
  "check_instructions m ctx b is saw D = Inr D' \<longleftrightarrow>
     D' = D \<union> defined_by is \<and>
     (\<forall>before i after. is = before @ i # after \<longrightarrow>
        instruction_ok m ctx b (\<not> saw \<and> list_all is_phi before) (D \<union> defined_by before) i)"
proof (induction "is" arbitrary: saw D)
  case (Cons i "is")
  show ?case
    unfolding check_instructions_step all_splits_Cons Cons.IH
    by (simp add: add_defined_union defined_by_Cons Un_assoc conj_ac)
qed auto

section \<open>The checks of a function against the reference\<close>

lemma available_eq: "available f b before = always_defined f b \<union> defined_by before"
  by (auto simp: available_def always_defined_def)

definition context_of :: "ir_function \<Rightarrow> value_id set list \<Rightarrow> phi_context" where
  "context_of f out =
     \<lparr>pc_predecessors = fg_predecessors (flow_graph_of f), pc_reachable = fg_reachable (flow_graph_of f),
      pc_outgoing = out, pc_types = types_of f\<rparr>"

lemma length_predecessors [simp]: "length (fg_predecessors (flow_graph_of f)) = length (fn_blocks f)"
  using predecessors_upto [of "successors_of (fn_blocks f)" "length (fn_blocks f)" "replicate (length (fn_blocks f)) []"]
  by (simp add: flow_graph_of_def Let_def predecessors_of_def)

lemma context_of_simps [simp]:
  "pc_outgoing (context_of f out) = out" "pc_types (context_of f out) = types_of f"
  "pc_reachable (context_of f out) = fg_reachable (flow_graph_of f)"
  "length (pc_predecessors (context_of f out)) = length (fn_blocks f)"
  by (simp_all add: context_of_def)

lemma walk_snoc_iff:
  "walk f (q @ [a]) b \<longleftrightarrow> walk f q a \<and> b \<in> set (block_successors (bb_terminator (fn_blocks f ! a)))"
  by (auto elim: walk_snocE intro: walk_step)

lemma sources_live:
  assumes "targets_ok f" "b < length (fn_blocks f)"
  shows "{p \<in> set (pc_predecessors (context_of f out) ! b). fg_reachable (flow_graph_of f) ! p} = {a. \<exists>q. walk f (q @ [a]) b}"
proof -
  have "p \<in> live_predecessors (flow_graph_of f) b \<longleftrightarrow> (\<exists>q. walk f (q @ [p]) b)" for p
    using live_predecessor_iff [OF assms] walk_in_range [OF _ assms(1)] by (auto simp: walk_snoc_iff)
  then show ?thesis by (auto simp: live_predecessors_def context_of_def)
qed

lemma phi_arm_iff:
  assumes "walk f (r @ [a]) b"
  shows "(\<forall>q. walk f (q @ [a]) b \<longrightarrow> v \<in> defined_on f (q @ [a])) \<longleftrightarrow>
    v \<in> always_defined f a \<union> defined_by (bb_instructions (fn_blocks f ! a))"
  using assms by (auto simp: walk_snoc_iff always_defined_def)

lemma phi_spec_iff:
  "phi_spec f b arms ty \<longleftrightarrow>
     distinct (map fst arms) \<and> fst ` set arms = {a. \<exists>q. walk f (q @ [a]) b} \<and>
     (\<forall>(a, v) \<in> set arms. v \<in> always_defined f a \<union> defined_by (bb_instructions (fn_blocks f ! a)) \<and>
        (\<exists>t. types_of f v = Some t \<and> types_compatible t ty))"
proof -
  have "(\<forall>q. walk f (q @ [a]) b \<longrightarrow> v \<in> defined_on f (q @ [a])) \<longleftrightarrow>
      v \<in> always_defined f a \<union> defined_by (bb_instructions (fn_blocks f ! a))"
    if "fst ` set arms = {a. \<exists>q. walk f (q @ [a]) b}" "(a, v) \<in> set arms" for a v
  proof -
    have "a \<in> fst ` set arms" using that(2) by force
    then show ?thesis using that(1) phi_arm_iff by blast
  qed
  then show ?thesis unfolding phi_spec_def by fast
qed

text \<open>Both directions, for what the fixpoint loop reports: less than what every walk
  defines accepts less, more accepts more.\<close>

definition below_walks :: "ir_function \<Rightarrow> value_id set list \<Rightarrow> value_id set list \<Rightarrow> bool" where
  "below_walks f inc out \<longleftrightarrow>
     (\<forall>p b. walk f p b \<longrightarrow> inc ! b \<subseteq> always_defined f b \<and>
        out ! b \<subseteq> always_defined f b \<union> defined_by (bb_instructions (fn_blocks f ! b)))"

definition above_walks :: "ir_function \<Rightarrow> value_id set list \<Rightarrow> value_id set list \<Rightarrow> bool" where
  "above_walks f inc out \<longleftrightarrow>
     (\<forall>p b. walk f p b \<longrightarrow> always_defined f b \<subseteq> inc ! b \<and>
        always_defined f b \<union> defined_by (bb_instructions (fn_blocks f ! b)) \<subseteq> out ! b)"

lemma validate_phi_sound:
  assumes "targets_ok f" "walk f p b" "below_walks f inc out" "validate_phi (context_of f out) b arms ty = Inr ()"
  shows "phi_spec f b arms ty"
proof -
  note v = assms(4) [unfolded validate_phi_Inr context_of_simps sources_live [OF assms(1) walk_in_range [OF assms(2,1)]]]
  have "v \<in> always_defined f a \<union> defined_by (bb_instructions (fn_blocks f ! a))" if "(a, v) \<in> set arms" for a v
  proof -
    have a: "a < length (fn_blocks f)" "fg_reachable (flow_graph_of f) ! a" "v \<in> out ! a" using v that by auto
    then obtain q where "walk f q a" using graph_reachable [OF assms(1) a(1)] by blast
    then show ?thesis using assms(3) a(3) unfolding below_walks_def by blast
  qed
  with v show ?thesis unfolding phi_spec_iff by blast
qed

lemma validate_phi_complete:
  assumes "targets_ok f" "walk f p b" "above_walks f inc out" "phi_spec f b arms ty"
  shows "validate_phi (context_of f out) b arms ty = Inr ()"
proof -
  note v = assms(4) [unfolded phi_spec_iff]
  have "a < length (fn_blocks f) \<and> fg_reachable (flow_graph_of f) ! a \<and> v \<in> out ! a" if "(a, v) \<in> set arms" for a v
  proof -
    have "a \<in> fst ` set arms" using that by force
    then obtain q where q: "walk f q a" using v by (auto simp: walk_snoc_iff)
    note a = walk_in_range [OF q assms(1)]
    have "v \<in> always_defined f a \<union> defined_by (bb_instructions (fn_blocks f ! a))" using v that by blast
    then have "v \<in> out ! a" using assms(3) q unfolding above_walks_def by blast
    with a graph_reachable [OF assms(1) a] q show ?thesis by blast
  qed
  with v show ?thesis
    unfolding validate_phi_Inr context_of_simps sources_live [OF assms(1) walk_in_range [OF assms(2,1)]] by blast
qed

lemma uses_defined_mono: "uses_defined i D \<Longrightarrow> D \<subseteq> D' \<Longrightarrow> uses_defined i D'"
  unfolding uses_defined_def by blast

lemma check_terminator_mono: "check_terminator m f types D t = Inr () \<Longrightarrow> D \<subseteq> D' \<Longrightarrow> check_terminator m f types D' t = Inr ()"
  by (cases t) (auto simp: check_terminator_def split: option.splits if_splits)

lemma check_block_sound:
  assumes "targets_ok f" "walk f p b" "below_walks f inc out" "check_block m f (context_of f out) inc b = Inr ()"
  shows "block_spec m f b"
proof -
  let ?is = "bb_instructions (fn_blocks f ! b)"
  have "fg_reachable (flow_graph_of f) ! b"
    using graph_reachable [OF assms(1) walk_in_range [OF assms(2,1)]] assms(2) by blast
  then obtain D where c: "check_instructions m (context_of f out) b ?is False (inc ! b) = Inr D"
    and t: "check_terminator m f (types_of f) D (bb_terminator (fn_blocks f ! b)) = Inr ()"
    using assms(4) by (auto simp: check_block_def try_sum_Inr Let_def)
  have i: "inc ! b \<subseteq> always_defined f b" using assms(2,3) unfolding below_walks_def by blast
  have "instruction_spec m f b before i" if "?is = before @ i # after" for before i after
  proof -
    have ok: "instruction_ok m (context_of f out) b (list_all is_phi before) (inc ! b \<union> defined_by before) i"
      using c that unfolding check_instructions_Inr by auto
    have "inc ! b \<union> defined_by before \<subseteq> available f b before" using i by (auto simp: available_eq)
    then show ?thesis using ok uses_defined_mono [of i "inc ! b \<union> defined_by before"] validate_phi_sound [OF assms(1-3)]
      unfolding instruction_ok_def instruction_spec_def by (cases i) simp_all
  qed
  moreover have "D \<subseteq> available f b ?is" using c i unfolding check_instructions_Inr available_eq by blast
  ultimately show ?thesis using check_terminator_mono [OF t] unfolding block_spec_def Let_def by blast
qed

lemma check_block_complete:
  assumes "targets_ok f" "above_walks f inc out" "\<And>p. walk f p b \<Longrightarrow> block_spec m f b" "b < length (fn_blocks f)"
  shows "check_block m f (context_of f out) inc b = Inr ()"
proof (cases "fg_reachable (flow_graph_of f) ! b")
  case True
  let ?is = "bb_instructions (fn_blocks f ! b)"
  obtain p where p: "walk f p b" using graph_reachable [OF assms(1,4)] True by blast
  note spec = assms(3) [OF p, unfolded block_spec_def Let_def]
  have i: "always_defined f b \<subseteq> inc ! b" using assms(2) p unfolding above_walks_def by blast
  have "instruction_ok m (context_of f out) b (list_all is_phi before) (inc ! b \<union> defined_by before) i"
    if "?is = before @ i # after" for before i after
  proof -
    have ok: "instruction_spec m f b before i" using spec that by blast
    have "available f b before \<subseteq> inc ! b \<union> defined_by before" using i by (auto simp: available_eq)
    then show ?thesis using ok uses_defined_mono [of i "available f b before"] validate_phi_complete [OF assms(1) p assms(2)]
      unfolding instruction_ok_def instruction_spec_def by (cases i) simp_all
  qed
  then have "check_instructions m (context_of f out) b ?is False (inc ! b) = Inr (inc ! b \<union> defined_by ?is)"
    unfolding check_instructions_Inr by simp
  moreover have "available f b ?is \<subseteq> inc ! b \<union> defined_by ?is" using i by (auto simp: available_eq)
  from check_terminator_mono [OF conjunct2 [OF spec] this]
  have "check_terminator m f (types_of f) (inc ! b \<union> defined_by ?is) (bb_terminator (fn_blocks f ! b)) = Inr ()" .
  ultimately show ?thesis by (simp add: check_block_def Let_def)
qed (simp add: check_block_def)

lemma check_shape_Inr: "check_shape f = Inr () \<longleftrightarrow> u32_ok (int (length (fn_blocks f))) \<and> dense f \<and> targets_ok f"
  by (auto simp: check_shape_def for_each_Inr nth_enumerate_eq list_ex_iff dense_def targets_ok_def not_le all_set_conv_all_nth)

lemma validate_function_sound:
  assumes "validate_function m f = Some (Inr ())"
  shows "well_formed m f"
proof -
  have sh: "check_shape f = Inr ()" using assms by (cases "check_shape f") (simp_all add: validate_function_def)
  obtain all_values types where cv: "collect_values (fn_name f) (function_instructions f) ({}, Map.empty) = Inr (all_values, types)"
    using assms sh by (auto simp: validate_function_def Let_def split: sum.splits)
  then have types: "all_values = all_defined f" "types = types_of f" "distinct (definitions_of (function_instructions f))"
    by (auto simp: collect_values_Inr types_of_def defined_by_functions)
  obtain inc out where fx: "flow_fixpoint (flow_graph_of f) (all_defined f) = Some (inc, out)"
    and blocks: "\<forall>b < length (fn_blocks f). check_block m f (context_of f out) inc b = Inr ()"
    using assms sh cv types by (auto simp: validate_function_def Let_def for_each_Inr context_of_def)
  note shape = sh [unfolded check_shape_Inr]
  then have "below_walks f inc out" using fixpoint_sound [OF _ fx] unfolding below_walks_def by blast
  then show ?thesis
    using shape types blocks check_block_sound walk_in_range unfolding well_formed_def by metis
qed

lemma validate_function_complete:
  assumes "well_formed m f" "fn_entry f = 0"
  shows "validate_function m f = Some (Inr ())"
proof -
  note wf = assms(1) [unfolded well_formed_def]
  have sh: "check_shape f = Inr ()" unfolding check_shape_Inr using wf by blast
  have cv: "collect_values (fn_name f) (function_instructions f) ({}, Map.empty) = Inr (all_defined f, types_of f)"
    using wf by (auto simp: collect_values_Inr types_of_def defined_by_functions)
  obtain inc out where fx: "flow_fixpoint (flow_graph_of f) (all_defined f) = Some (inc, out)"
    and ex: "\<forall>p b. walk f p b \<longrightarrow> inc ! b = always_defined f b \<and> out ! b = inc ! b \<union> defined_by (bb_instructions (fn_blocks f ! b))"
    using fixpoint_exact assms wf by blast
  have "above_walks f inc out" using ex unfolding above_walks_def by blast
  then have "\<forall>b < length (fn_blocks f). check_block m f (context_of f out) inc b = Inr ()"
    using wf check_block_complete by blast
  then show ?thesis using sh cv fx
    by (simp add: validate_function_def Let_def for_each_Inr context_of_def)
qed

lemma validate_functions_Inr:
  "validate_functions m fs = Some (Inr ()) \<longleftrightarrow> (\<forall>f \<in> set fs. validate_function m f = Some (Inr ()))"
  by (induction fs) (auto split: option.splits sum.splits)

lemma validate_Inr:
  "validate m = Some (Inr ()) \<longleftrightarrow>
     validate_class_bases m = Inr () \<and> validate_ownership m = Inr () \<and> validate_field_layouts m = Inr () \<and>
     validate_function_kinds m = Inr () \<and> (\<forall>f \<in> set (m_functions m). validate_function m f = Some (Inr ()))"
  by (auto simp: validate_def validate_functions_Inr try_sum_Inr split: sum.splits)

text \<open>What is used of a function of an accepted module.\<close>

lemma accepted_function:
  assumes "validate m = Some (Inr ())" "f \<in> set (m_functions m)"
  shows "well_formed m f" "validate_function_ownership m f = Inr ()"
  using assms validate_function_sound by (auto simp: validate_Inr validate_ownership_def for_each_Inr)

lemma read_available:
  assumes "validate m = Some (Inr ())" "f \<in> set (m_functions m)" "walk f p b"
    "bb_instructions (fn_blocks f ! b) = before @ i # after" "\<not> is_phi i" "v \<in> set (instruction_uses i)"
  shows "v \<in> available f b before \<or> instruction_defines i = Some v"
proof -
  have "instruction_spec m f b before i"
    using accepted_function(1) [OF assms(1,2)] assms(3,4) unfolding well_formed_def block_spec_def Let_def by blast
  then have "uses_defined i (available f b before)"
    using assms(5) by (cases i) (simp_all add: instruction_spec_def is_phi_def)
  then show ?thesis using assms(6) by (auto simp: uses_defined_def)
qed

lemma validate_function_returns:
  assumes "fn_entry f = 0"
  shows "validate_function m f \<noteq> None"
proof (cases "check_shape f = Inr ()")
  case True
  then obtain inc out where "flow_fixpoint (flow_graph_of f) (all_defined f) = Some (inc, out)"
    using fixpoint_exact [OF _ assms] by (auto simp: check_shape_Inr)
  moreover have "all_values = all_defined f"
    if "collect_values (fn_name f) (function_instructions f) ({}, Map.empty) = Inr (all_values, types)" for all_values types
    using that by (simp add: collect_values_Inr defined_by_functions)
  ultimately show ?thesis by (auto simp: validate_function_def Let_def split: sum.splits)
qed (cases "check_shape f"; simp add: validate_function_def)

section \<open>A module\<close>

definition string_function :: ir_function where
  "string_function =
     (let block = (\<lambda>i instrs t. \<lparr>bb_id = i, bb_instructions = instrs, bb_terminator = t\<rparr>)
      in \<lparr>fn_name = ''Start'', fn_kind = KEntry, fn_owner = None, fn_asynchronous = False, fn_parameters = [],
          fn_weak_symbols = {}, fn_return_type = TNamed ''VOID'', fn_entry = 0,
          fn_blocks =
            [block 0 [IConstant 0 (CString ''a'') TString, IBinary 1 ''Plus'' 0 0 TString, IConstant 2 (CBoolean True) TBoolean]
               (TermBranch 2 1 2),
             block 1 [IConstant 3 (CInteger ''7'') (TInteger Int32)] (TermJump 3),
             block 2 [IConstant 4 (CInteger ''9'') (TInteger Int32)] (TermJump 3),
             block 3 [IPhi 5 [(1, 3), (2, 4)] (TInteger Int32), IPrint [5, 1], IRelease 1 None] (TermJump 4),
             block 4 [] (TermReturn None)]\<rparr>)"

definition string_module :: ir_module where
  "string_module = animal_dog\<lparr>m_functions := string_function # m_functions animal_dog\<rparr>"

lemma string_module_accepted: "validate string_module = Some (Inr ())"
  by code_simp

lemma string_function_in: "string_function \<in> set (m_functions string_module)"
  by (simp add: string_module_def)

lemma string_module_entries: "\<forall>f \<in> set (m_functions string_module). fn_entry f = 0"
  by (simp add: string_module_def string_function_def animal_dog_def Let_def)

lemma string_walk: "walk string_function ([0] @ [1]) 3"
proof -
  have "walk string_function [] 0" using walk_entry [of string_function] by (simp add: string_function_def Let_def)
  from walk_step [OF this, of 1] have "walk string_function [0] 1"
    by (simp add: string_function_def Let_def block_successors_def)
  from walk_step [OF this, of 3] show ?thesis by (simp add: string_function_def Let_def block_successors_def)
qed

definition self_copy_module :: ir_module where
  "self_copy_module = animal_dog\<lparr>m_functions := string_function\<lparr>fn_blocks :=
     [\<lparr>bb_id = 0, bb_instructions = [ICopy 0 0 (TInteger Int32)], bb_terminator = TermReturn None\<rparr>]\<rparr> # m_functions animal_dog\<rparr>"

section \<open>Properties\<close>



text \<open>C16: the validator returns: for a module whose functions enter at their first block, as
  lowering builds them, no fixpoint loop runs forever, whatever else is wrong with it.\<close>

theorem validate_returns:
  assumes "\<forall>f \<in> set (m_functions m). fn_entry f = 0"
  shows "\<exists>answer. validate m = Some answer"
proof -
  have "validate_functions m fs \<noteq> None" if "set fs \<subseteq> set (m_functions m)" for fs
    using that assms validate_function_returns by (induction fs) (auto split: option.splits sum.splits)
  then have "validate m \<noteq> None" by (auto simp: validate_def split: sum.splits)
  then show ?thesis by blast
qed

theorem validate_returns_witness: "\<exists>answer. validate string_module = Some answer"
  by (rule validate_returns [OF string_module_entries])

text \<open>C14: no read before definition, outside the destination itself: in an accepted module, on
  every walk from the entry of a function to one of its blocks, an instruction that is
  not a phi reads only values that the blocks of the walk or the instructions before it
  have defined, or its own destination.\<close>

theorem values_defined_before_use:
  assumes "validate m = Some (Inr ())" "f \<in> set (m_functions m)" "walk f p b"
    "bb_instructions (fn_blocks f ! b) = before @ i # after" "\<not> is_phi i" "v \<in> set (instruction_uses i)"
  shows "v \<in> defined_on f p \<union> defined_by before \<or> instruction_defines i = Some v"
  using read_available [OF assms] assms(3) by (auto simp: available_def)

theorem values_defined_before_use_witness: "(1 :: value_id) \<in> defined_on string_function [0, 1] \<union> defined_by [IPhi 5 [(1, 3), (2, 4)] (TInteger Int32)]"
proof -
  from values_defined_before_use [OF string_module_accepted string_function_in string_walk, of
      "[IPhi 5 [(1, 3), (2, 4)] (TInteger Int32)]" "IPrint [5, 1]" "[IRelease 1 None]" 1]
  show ?thesis by (simp add: string_function_def Let_def is_phi_def instruction_uses_def instruction_defines_def)
qed

text \<open>An instruction may read its own destination before it is defined: a module whose only
  instruction copies the value it defines is accepted, though no walk defines that value
  before.\<close>

theorem own_destination_read_accepted:
  "validate self_copy_module = Some (Inr ()) \<and> fn_blocks (hd (m_functions self_copy_module)) \<noteq> [] \<and>
   bb_instructions (hd (fn_blocks (hd (m_functions self_copy_module)))) = [ICopy 0 0 (TInteger Int32)] \<and>
   walk (hd (m_functions self_copy_module)) [] 0 \<and> (0 :: value_id) \<notin> defined_on (hd (m_functions self_copy_module)) []"
proof (intro conjI)
  show "validate self_copy_module = Some (Inr ())" by code_simp
  show "walk (hd (m_functions self_copy_module)) [] 0"
    using walk_entry [of "hd (m_functions self_copy_module)"]
    by (simp add: self_copy_module_def string_function_def Let_def)
qed (simp_all add: self_copy_module_def)

end
