(* ===== verification/BN_IR_Safety.thy ===== *)
theory BN_IR_Safety
  imports BN_IR_Validate
begin

text \<open>
  What the ownership analysis of an accepted module promises to an execution: on every
  walk through the blocks of a function nothing is consumed that is not owned, nothing
  is read after it was consumed, no owned value is overwritten, and a return leaves
  nothing owned behind. The analysis visits a block once, with the state of one walk;
  that the promises hold on all walks rests on the agreement of the owned values where
  paths join, on single assignment and on definite assignment.
\<close>

section \<open>Executed instructions\<close>

definition trace :: "ir_function \<Rightarrow> nat list \<Rightarrow> instruction list" where
  "trace f p = concat (map (\<lambda>b. bb_instructions (fn_blocks f ! b)) p)"

definition run :: "ir_module \<Rightarrow> ir_function \<Rightarrow> instruction list \<Rightarrow> own_state" where
  "run m f instrs = own_exec_all m f (own_types f) instrs own_default"

lemma trace_simps [simp]: "trace f [] = []" "trace f (p @ [b]) = trace f p @ bb_instructions (fn_blocks f ! b)"
  by (simp_all add: trace_def)

lemma run_simps [simp]:
  "run m f [] = own_default"
  "run m f (is @ [i]) = own_exec m f (own_types f) i (run m f is)"
  "own_exec_all m f (own_types f) more_instrs (run m f is) = run m f (is @ more_instrs)"
  by (simp_all add: run_def)

lemma walk_own_run: "walk_own m f p = run m f (trace f p)"
  by (induction p rule: rev_induct) simp_all

lemma defined_by_trace: "defined_by (trace f p) = defined_on f p"
  by (induction p rule: rev_induct) simp_all

lemma block_in_function: "b < length (fn_blocks f) \<Longrightarrow> set (bb_instructions (fn_blocks f ! b)) \<subseteq> set (function_instructions f)"
  by (auto simp: function_instructions_def intro: bexI [OF _ nth_mem])

lemma trace_in_function: "walk f p b \<Longrightarrow> targets_ok f \<Longrightarrow> set (trace f p) \<subseteq> set (function_instructions f)"
  using walk_blocks [of f p b] block_in_function by (fastforce simp: trace_def)

section \<open>Single assignment\<close>

lemma definitions_of_append [simp]: "definitions_of (xs @ ys) = definitions_of xs @ definitions_of ys"
  by (induction xs) (auto split: option.splits)

lemma unique_definer:
  assumes "distinct (definitions_of instrs)" "i \<in> set instrs" "j \<in> set instrs"
    "instruction_defines i = Some d" "instruction_defines j = Some d"
  shows "i = j"
  using assms
proof (induction instrs)
  case (Cons k instrs)
  have "d \<in> defined_by instrs" if "l \<in> set instrs" "instruction_defines l = Some d" for l
    using that by (auto simp: defined_by_def)
  with Cons show ?case by (auto split: option.splits)
qed simp

lemma definitions_of_blocks: "definitions_of (concat (map bb_instructions blocks)) = concat (map (definitions_of \<circ> bb_instructions) blocks)"
  by (induction blocks) simp_all

lemma unique_block:
  assumes "distinct (definitions_of (function_instructions f))" "b < length (fn_blocks f)" "c < length (fn_blocks f)" "b \<noteq> c"
  shows "defined_by (bb_instructions (fn_blocks f ! b)) \<inter> defined_by (bb_instructions (fn_blocks f ! c)) = {}"
proof -
  let ?D = "map (definitions_of \<circ> bb_instructions) (fn_blocks f)"
  have "distinct (concat ?D)" using assms(1) by (simp add: function_instructions_def definitions_of_blocks)
  moreover have "xs ! i \<inter> xs ! j = {}" if "xs = map set ls" "distinct (concat ls)" "i < length ls" "j < length ls" "i \<noteq> j" for xs ls i j
    using that
  proof (induction ls arbitrary: xs i j)
    case (Cons l ls)
    have "set l \<inter> set (ls ! k) = {}" if "k < length ls" for k
      using Cons.prems(2) nth_mem [OF that] by fastforce
    then show ?case using Cons by (cases i; cases j) (auto simp: Int_commute)
  qed simp
  from this [OF refl, of ?D b c] have "set (?D ! b) \<inter> set (?D ! c) = {}"
    using calculation assms by simp
  then show ?thesis using assms by simp
qed

lemma unique_place:
  assumes "distinct (definitions_of (function_instructions f))" "b < length (fn_blocks f)"
    "bb_instructions (fn_blocks f ! b) = before @ i # after" "instruction_defines i = Some d"
  shows "d \<notin> defined_by before"
proof -
  have "distinct (definitions_of (bb_instructions (fn_blocks f ! b)))"
    using assms(1,2) by (auto simp: function_instructions_def definitions_of_blocks distinct_concat_iff)
  then show ?thesis using assms(3,4) by auto
qed

text \<open>A block is reached without passing it before.\<close>

lemma first_arrival: "walk f p b \<Longrightarrow> \<exists>q. walk f q b \<and> b \<notin> set q"
proof (induction "length p" arbitrary: p rule: less_induct)
  case less
  show ?case
  proof (cases "b \<in> set p")
    case True
    then obtain xs ys where p: "p = xs @ b # ys" by (meson split_list)
    have "walk f (xs @ b # ys) c \<Longrightarrow> walk f xs b" for c
    proof (induction ys arbitrary: c rule: rev_induct)
      case (snoc y ys)
      then have "walk f ((xs @ b # ys) @ [y]) c" by simp
      then show ?case using snoc.IH by (blast elim: walk_snocE)
    qed (auto elim: walk_snocE)
    from this [of b] show ?thesis using less.hyps [of xs] less.prems p by simp
  qed (use less in blast)
qed

section \<open>Owned, consumed and produced values\<close>

definition owners :: "ir_module \<Rightarrow> ir_function \<Rightarrow> instruction list \<Rightarrow> value_id set" where
  "owners m f instrs = {d. \<exists>i \<in> set instrs. instruction_defines i = Some d \<and> produces_owned m i (own_types f)}"

definition consumes_owned :: "ir_module \<Rightarrow> ir_function \<Rightarrow> instruction list \<Rightarrow> bool" where
  "consumes_owned m f instrs \<longleftrightarrow>
     (\<forall>before i after. instrs = before @ i # after \<longrightarrow> set (consumed_by m f i (own_types f)) \<subseteq> owned (run m f before))"

lemma owners_simps: "owners m f [] = {}" "owners m f (xs @ ys) = owners m f xs \<union> owners m f ys"
  by (auto simp: owners_def)

lemma owners_defined: "owners m f instrs \<subseteq> defined_by instrs"
  by (auto simp: owners_def defined_by_def)

lemma consumes_owned_append:
  "consumes_owned m f (xs @ [i]) \<longleftrightarrow> consumes_owned m f xs \<and> set (consumed_by m f i (own_types f)) \<subseteq> owned (run m f xs)"
  unfolding consumes_owned_def by (auto simp: append_eq_append_conv2 Cons_eq_append_conv append_eq_Cons_conv) blast+

lemma run_partition:
  assumes "distinct (definitions_of all_instrs)"
  shows "set instrs \<subseteq> set all_instrs \<Longrightarrow> consumes_owned m f instrs \<Longrightarrow>
    owned (run m f instrs) \<inter> consumed (run m f instrs) = {} \<and>
    owned (run m f instrs) \<union> consumed (run m f instrs) = owners m f instrs"
proof (induction instrs rule: rev_induct)
  case (snoc i instrs)
  let ?s = "run m f instrs" and ?gone = "set (consumed_by m f i (own_types f))"
  have IH: "owned ?s \<inter> consumed ?s = {}" "owned ?s \<union> consumed ?s = owners m f instrs" and g: "?gone \<subseteq> owned ?s"
    using snoc by (simp_all add: consumes_owned_append)
  have fresh: "d \<notin> owners m f instrs" if "instruction_defines i = Some d" "\<not> produces_owned m i (own_types f)" for d
  proof
    assume "d \<in> owners m f instrs"
    then obtain j where "j \<in> set instrs" "instruction_defines j = Some d" "produces_owned m j (own_types f)"
      by (auto simp: owners_def)
    moreover have "j = i" using unique_definer [OF assms, of j i d] that snoc.prems(1) calculation by auto
    ultimately show False using that(2) by simp
  qed
  have o: "owners m f (instrs @ [i]) = owners m f instrs \<union>
      (case instruction_defines i of Some d \<Rightarrow> if produces_owned m i (own_types f) then {d} else {} | None \<Rightarrow> {})"
    by (auto simp: owners_def split: option.splits)
  show ?case unfolding o using IH g fresh
    by (cases "instruction_defines i"; cases "produces_owned m i (own_types f)") (auto simp: own_exec_def Let_def)
qed (simp add: owners_simps own_default_def)

section \<open>What the analysis has checked on every walk\<close>

lemma exec_owned_cong:
  "owned x = owned y \<Longrightarrow> owned (own_exec_all m f types is x) = owned (own_exec_all m f types is y)"
  by (induction "is" arbitrary: x y) (simp_all add: own_exec_def Let_def)

text \<open>The state of the analysis at a place of a block, seen from the walk at hand and from
  the one the analysis took.\<close>

lemma analysed_place:
  assumes "validate_function_ownership m f = Inr ()" "dense f" "targets_ok f" "walk f p b"
    "bb_instructions (fn_blocks f ! b) = before @ rest"
  obtains st st' q where "own_instructions m f (own_types f) rest st = Inr st'"
    "owned (run m f (trace f p @ before)) = owned st"
    "owned (run m f (trace f p @ before @ rest)) = owned st'"
    "walk f q b" "owned (run m f (trace f q @ before)) = owned st" "consumed (run m f (trace f q @ before)) \<subseteq> consumed st"
    "\<And>v. bb_terminator (fn_blocks f ! b) = TermReturn v \<Longrightarrow> own_return m (own_types f) v st' = Inr ()"
proof -
  obtain S where S: "checked_block m f S b" "\<And>s. S b = Some s \<Longrightarrow> owned s = owned (walk_own m f p)"
    using ownership_accepted [OF assms(1-3)] assms(4) by metis
  then obtain st0 st' where 0: "from_walk m f b st0" "owned st0 = owned (walk_own m f p)"
      "own_instructions m f (own_types f) (before @ rest) st0 = Inr st'"
      and ret: "\<And>v. bb_terminator (fn_blocks f ! b) = TermReturn v \<Longrightarrow> own_return m (own_types f) v st' = Inr ()"
    unfolding checked_block_def assms(5) by metis
  obtain st where b: "own_instructions m f (own_types f) before st0 = Inr st"
    and r: "own_instructions m f (own_types f) rest st = Inr st'"
    using 0(3) by (auto simp: own_instructions_append try_sum_Inr)
  obtain q where q: "walk f q b" "owned (walk_own m f q) = owned st0" "consumed (walk_own m f q) \<subseteq> consumed st0"
    using 0(1) unfolding from_walk_def by blast
  have q': "owned (run m f (trace f q @ before)) = owned st" "consumed (run m f (trace f q @ before)) \<subseteq> consumed st"
    using own_instructions_exec [OF b q(2,3)] by (simp_all add: walk_own_run)
  have p': "owned (run m f (trace f p @ before)) = owned (run m f (trace f q @ before))"
    using exec_owned_cong [of "walk_own m f p" "walk_own m f q" m f "own_types f" before] 0(2) q(2) by (simp add: walk_own_run)
  have "owned (own_exec_all m f (own_types f) rest (run m f (trace f q @ before))) = owned st'"
    using own_instructions_exec [OF r q'] by blast
  then have "owned (run m f (trace f p @ before @ rest)) = owned st'"
    using exec_owned_cong [OF p', of m f "own_types f" rest] by simp
  with r q(1) q' p' ret show thesis by (intro that [of st st' q]) simp_all
qed

lemma walks_agree:
  assumes "validate_function_ownership m f = Inr ()" "dense f" "targets_ok f" "walk f p b" "walk f q b"
  shows "owned (own_exec_all m f (own_types f) instrs (walk_own m f p)) = owned (own_exec_all m f (own_types f) instrs (walk_own m f q))"
proof (rule exec_owned_cong)
  obtain S where "\<And>p b. walk f p b \<Longrightarrow> checked_block m f S b"
    "\<And>p b s. walk f p b \<Longrightarrow> S b = Some s \<Longrightarrow> owned s = owned (walk_own m f p)"
    using ownership_accepted [OF assms(1-3)] by blast
  then show "owned (walk_own m f p) = owned (walk_own m f q)" using assms(4,5) unfolding checked_block_def by metis
qed

lemma walk_consumes_owned:
  assumes "validate_function_ownership m f = Inr ()" "dense f" "targets_ok f"
  shows "walk f p b \<Longrightarrow> bb_instructions (fn_blocks f ! b) = before @ rest \<Longrightarrow> consumes_owned m f (trace f p @ before)"
proof (induction p b arbitrary: before rest rule: walk.induct)
  have "consumes_owned m f (trace f p @ before)"
    if w: "walk f p b" and c: "consumes_owned m f (trace f p)" and s: "bb_instructions (fn_blocks f ! b) = before @ rest"
    for p b before rest
    using s
  proof (induction before arbitrary: rest rule: rev_induct)
    case (snoc i before)
    then have split: "bb_instructions (fn_blocks f ! b) = before @ i # rest" by simp
    then have "consumes_owned m f (trace f p @ before)" using snoc.IH by blast
    moreover obtain st st' where "own_instructions m f (own_types f) (i # rest) st = Inr st'"
      "owned (run m f (trace f p @ before)) = owned st"
      using analysed_place [OF assms w split] by metis
    ultimately show ?case
      using consumes_owned_append [of m f "trace f p @ before" i] own_instruction_step by (metis append.assoc)
  qed (use c in simp)
  note block = this
  {
    case walk_entry
    show ?case using block [OF walk.walk_entry _ walk_entry] by (simp add: consumes_owned_def)
  next
    case (walk_step p b c)
    have "consumes_owned m f (trace f p @ bb_instructions (fn_blocks f ! b))" using walk_step.IH [of "bb_instructions (fn_blocks f ! b)" "[]"] by simp
    then show ?case using block [OF walk.walk_step [OF walk_step(1,2)] _ walk_step.prems] by simp
  }
qed

section \<open>A module with arms of unequal length\<close>

definition unequal_arms :: ir_function where
  "unequal_arms =
     (let block = (\<lambda>i instrs t. \<lparr>bb_id = i, bb_instructions = instrs, bb_terminator = t\<rparr>)
      in string_function\<lparr>fn_blocks :=
            [block 0 [IConstant 0 (CString ''a'') TString, IConstant 1 (CBoolean True) TBoolean] (TermBranch 1 1 2),
             block 1 [] (TermJump 3),
             block 2 [IBinary 2 ''Plus'' 0 0 TString] (TermJump 4),
             block 3 [IPhi 3 [(1, 0), (4, 2)] TString, IPrint [3]] (TermReturn None),
             block 4 [IRelease 2 None] (TermJump 3)]\<rparr>)"

definition unequal_module :: ir_module where
  "unequal_module = animal_dog\<lparr>m_functions := unequal_arms # m_functions animal_dog\<rparr>"

section \<open>Properties\<close>

text \<open>C4: nothing is consumed, read or overwritten out of turn: on every walk of an accepted
  module to an instruction, the values the instruction consumes are owned there and
  pairwise different, the value it defines is not owned before, so no owned value is
  lost, and, phis apart, it reads no value that was consumed and not defined again,
  except its own destination.\<close>

theorem ownership_discipline:
  assumes "validate m = Some (Inr ())" "f \<in> set (m_functions m)" "walk f p b"
    "bb_instructions (fn_blocks f ! b) = before @ i # after"
    "s = own_exec_all m f (own_types f) before (walk_own m f p)"
  shows "set (consumed_by m f i (own_types f)) \<subseteq> owned s \<and> distinct (consumed_by m f i (own_types f)) \<and>
    (\<forall>d. instruction_defines i = Some d \<longrightarrow> d \<notin> owned s) \<and>
    (\<not> is_phi i \<longrightarrow> (\<forall>v \<in> set (instruction_uses i). v \<in> consumed s \<longrightarrow> instruction_defines i = Some v))"
proof -
  note acc = accepted_function [OF assms(1,2)]
  then have ok: "dense f" "targets_ok f" and single: "distinct (definitions_of (function_instructions f))"
    by (auto simp: well_formed_def)
  note s = assms(5) [unfolded walk_own_run run_simps]
  obtain st st' q where i: "own_instructions m f (own_types f) (i # after) st = Inr st'"
    and o: "owned s = owned st" and q: "walk f q b" "owned (run m f (trace f q @ before)) = owned st"
      "consumed (run m f (trace f q @ before)) \<subseteq> consumed st"
    using analysed_place [OF acc(2) ok assms(3,4)] s by metis
  have inside: "set (trace f r @ before) \<subseteq> set (function_instructions f)" if "walk f r b" for r
    using trace_in_function [OF that ok(2)] block_in_function [OF walk_in_range [OF that ok(2)]] assms(4) by simp
  note part = run_partition [OF single inside walk_consumes_owned [OF acc(2) ok _ assms(4)]]
  have "d \<notin> owned s" if d: "instruction_defines i = Some d" for d
  proof -
    obtain r where r: "walk f r b" "b \<notin> set r" using first_arrival [OF assms(3)] by blast
    note b = walk_in_range [OF assms(3) ok(2)]
    have "d \<in> defined_by (bb_instructions (fn_blocks f ! b))" using assms(4) d by (auto simp: defined_by_def)
    then have "d \<notin> defined_by (bb_instructions (fn_blocks f ! c))" if "c \<in> set r" for c
      using unique_block [OF single b, of c] walk_blocks [OF r(1) ok(2)] that r(2) by blast
    then have "d \<notin> defined_by (trace f r @ before)"
      using unique_place [OF single b assms(4) d] by (simp add: defined_by_trace defined_on_def)
    then have "d \<notin> owned (run m f (trace f r @ before))" using part [OF r(1) r(1)] owners_defined by blast
    moreover have "owned (run m f (trace f r @ before)) = owned s"
      using walks_agree [OF acc(2) ok r(1) assms(3), of before] by (simp add: s walk_own_run)
    ultimately show ?thesis by simp
  qed
  moreover have "v \<notin> consumed s" if v: "\<not> is_phi i" "v \<in> set (instruction_uses i)" "instruction_defines i \<noteq> Some v" for v
  proof
    assume "v \<in> consumed s"
    then have dead: "v \<notin> owned s" "v \<in> owners m f (trace f p @ before)"
      using part [OF assms(3) assms(3)] s by auto
    then obtain j where j: "j \<in> set (trace f p @ before)" "instruction_defines j = Some v" "produces_owned m j (own_types f)"
      by (auto simp: owners_def)
    have "v \<in> defined_by (trace f q @ before)"
      using read_available [OF assms(1,2,3,4) v(1,2)] v(3) q(1) by (auto simp: available_def defined_by_trace)
    then obtain k where k: "k \<in> set (trace f q @ before)" "instruction_defines k = Some v" by (auto simp: defined_by_def)
    have "k = j" using unique_definer [OF single _ _ k(2) j(2)] inside [OF q(1)] inside [OF assms(3)] j(1) k(1) by blast
    then have "v \<in> owners m f (trace f q @ before)" using k j(3) unfolding owners_def by blast
    then have "v \<in> consumed st" using part [OF q(1) q(1)] q(2,3) dead(1) o by blast
    then show False using own_instruction_step [OF i] v(2) by metis
  qed
  ultimately show ?thesis using own_instruction_step [OF i] o by metis
qed

theorem ownership_discipline_witness:
  "(1 :: value_id) \<in> owned (own_exec_all string_module string_function (own_types string_function)
     [IPhi 5 [(1, 3), (2, 4)] (TInteger Int32), IPrint [5, 1]] (walk_own string_module string_function ([0] @ [1])))"
proof -
  have "bb_instructions (fn_blocks string_function ! 3) =
      [IPhi 5 [(1, 3), (2, 4)] (TInteger Int32), IPrint [5, 1]] @ IRelease 1 None # []"
    by (simp add: string_function_def Let_def)
  from ownership_discipline [OF string_module_accepted string_function_in string_walk this refl]
  have "set (consumed_by string_module string_function (IRelease 1 None) (own_types string_function)) \<subseteq>
      owned (own_exec_all string_module string_function (own_types string_function)
        [IPhi 5 [(1, 3), (2, 4)] (TInteger Int32), IPrint [5, 1]] (walk_own string_module string_function ([0] @ [1])))"
    by blast
  moreover have "consumed_by string_module string_function (IRelease 1 None) (own_types string_function) = [1]" by code_simp
  ultimately show ?thesis by simp
qed

text \<open>C12: a return leaves nothing behind: on every walk of an accepted module to a block that
  returns, the values still owned after its instructions are the returned value when its
  type is reference counted, and none otherwise.\<close>

theorem return_leaves_nothing:
  assumes "validate m = Some (Inr ())" "f \<in> set (m_functions m)" "walk f p b"
    "bb_terminator (fn_blocks f ! b) = TermReturn v"
  shows "owned (walk_own m f (p @ [b])) =
    (case v of Some x \<Rightarrow> if has_arc_type m (own_types f) x then {x} else {} | None \<Rightarrow> {})"
proof -
  note acc = accepted_function [OF assms(1,2)]
  then have ok: "dense f" "targets_ok f" by (auto simp: well_formed_def)
  obtain st' where "owned (run m f (trace f p @ bb_instructions (fn_blocks f ! b))) = owned st'"
    "own_return m (own_types f) v st' = Inr ()"
    using analysed_place [OF acc(2) ok assms(3), of "[]" "bb_instructions (fn_blocks f ! b)"] assms(4)
    by (metis append_Nil)
  then show ?thesis by (auto simp: walk_own_run own_return_def Let_def split: option.splits if_splits)
qed

theorem return_leaves_nothing_witness: "owned (walk_own string_module string_function ([0, 1, 3] @ [4])) = {}"
proof -
  have "walk string_function [0, 1, 3] 4"
    using walk_step [OF string_walk, of 4] by (simp add: string_function_def Let_def block_successors_def)
  from return_leaves_nothing [OF string_module_accepted string_function_in this, of None] show ?thesis
    by (simp add: string_function_def Let_def)
qed

text \<open>C15: a phi has its value: in an accepted module, when a walk enters a block from another
  one, each phi of the block has exactly one arm for that block and the value of the arm
  was defined on the walk.\<close>

theorem phi_arm_defined:
  assumes "validate m = Some (Inr ())" "f \<in> set (m_functions m)" "walk f (p @ [a]) b"
    "bb_instructions (fn_blocks f ! b) = before @ IPhi d arms ty # after"
  shows "\<exists>v. map_of arms a = Some v \<and> distinct (map fst arms) \<and> v \<in> defined_on f (p @ [a]) \<and>
    (\<exists>t. types_of f v = Some t \<and> types_compatible t ty)"
proof -
  have "phi_spec f b arms ty"
    using accepted_function(1) [OF assms(1,2)] assms(3,4)
    unfolding well_formed_def block_spec_def Let_def instruction_spec_def by fastforce
  moreover from this have "a \<in> fst ` set arms" using assms(3) unfolding phi_spec_def by blast
  then obtain v where "map_of arms a = Some v" by (meson map_of_eq_None_iff not_None_eq)
  ultimately show ?thesis using map_of_SomeD assms(3) unfolding phi_spec_def by fastforce
qed

theorem phi_arm_defined_witness: "(3 :: value_id) \<in> defined_on string_function ([0] @ [1])"
proof -
  have "bb_instructions (fn_blocks string_function ! 3) =
      [] @ IPhi 5 [(1, 3), (2, 4)] (TInteger Int32) # [IPrint [5, 1], IRelease 1 None]"
    by (simp add: string_function_def Let_def)
  from phi_arm_defined [OF string_module_accepted string_function_in string_walk this] show ?thesis by auto
qed

text \<open>C38: a phi may read a released value: a module is accepted in which the longer of two arms
  releases a string and then jumps to a block whose phi reads that string; the block is
  analysed when the shorter arm reaches it.\<close>

theorem released_phi_arm_accepted:
  "validate unequal_module = Some (Inr ()) \<and> unequal_arms \<in> set (m_functions unequal_module) \<and>
   walk unequal_arms ([0, 2] @ [4]) 3 \<and>
   bb_instructions (fn_blocks unequal_arms ! 3) = [IPhi 3 [(1, 0), (4, 2)] TString, IPrint [3]] \<and>
   2 \<in> consumed (walk_own unequal_module unequal_arms ([0, 2] @ [4]))"
proof (intro conjI)
  show "validate unequal_module = Some (Inr ())" by code_simp
  have "walk unequal_arms [] 0" using walk_entry [of unequal_arms] by (simp add: unequal_arms_def string_function_def Let_def)
  from walk_step [OF this, of 2] have "walk unequal_arms [0] 2" by (simp add: unequal_arms_def Let_def block_successors_def)
  from walk_step [OF this, of 4] have "walk unequal_arms [0, 2] 4" by (simp add: unequal_arms_def Let_def block_successors_def)
  from walk_step [OF this, of 3] show "walk unequal_arms ([0, 2] @ [4]) 3"
    by (simp add: unequal_arms_def Let_def block_successors_def)
  show "2 \<in> consumed (walk_own unequal_module unequal_arms ([0, 2] @ [4]))" by code_simp
qed (simp_all add: unequal_module_def unequal_arms_def Let_def)

end
