(* ===== verification/BN_Temporal_Ops.thy ===== *)
theory BN_Temporal_Ops
  imports BN_Time_Zone BN_Operators
begin

text \<open>
  The temporal builtins of the interpreter: \<open>crates/bn_interp/src/temporal.rs\<close> and
  \<open>temporal_ops.rs\<close>. The parsers can panic, so every builtin has an outcome; texts of
  the message catalogue are the argument \<open>cat\<close>.
\<close>

section \<open>Operations\<close>

type_synonym 'a temporal = "(diagnostic + 'a) outcome"

text \<open>\<open>ok_or_else\<close> on the result of a function that may panic.\<close>

fun or_diagnostic :: "'a option outcome \<Rightarrow> diagnostic \<Rightarrow> 'a temporal" where
  "or_diagnostic Panic e = Panic"
| "or_diagnostic (Done None) e = Done (Inl e)"
| "or_diagnostic (Done (Some x)) e = Done (Inr x)"

definition temporal_out_of_range :: diagnostic where
  "temporal_out_of_range = FORMAT_OUT_OF_RANGE ''civil time must be in years 0001 through 9999''"

definition unsupported_timezone :: "(str \<Rightarrow> str \<Rightarrow> str) \<Rightarrow> str \<Rightarrow> diagnostic" where
  "unsupported_timezone cat tz =
     INVALID_TIMEZONE ([CHR 0x27] @ tz @ [CHR 0x27] @ '' '' @ cat ''temporal'' ''msg.timezone_not_supported'')"

definition default_date :: int where "default_date = 0"
definition default_time :: int where "default_time = 0"

definition temporal_parse_date :: "str \<Rightarrow> int temporal" where
  "temporal_parse_date s =
     (case parse_ymd s of
        Panic \<Rightarrow> Panic
      | Done None \<Rightarrow> Done (Inl (INVALID_DATE ''DATE must be YYYY-MM-DD''))
      | Done (Some (year, month, day)) \<Rightarrow>
          or_diagnostic (Done (days_from_civil year month day)) (INVALID_DATE (s @ '' is not a valid DATE'')))"

definition temporal_parse_time :: "str \<Rightarrow> int temporal" where
  "temporal_parse_time s = or_diagnostic (parse_hms s True) (INVALID_TIME ''TIME must be HH:MM:SS.mmm'')"

definition temporal_parse_timezone :: "str \<Rightarrow> diagnostic + str" where
  "temporal_parse_timezone s =
     (if is_timezone_id s then Inr s
      else Inl (INVALID_TIMEZONE ([CHR 0x27] @ s @ [CHR 0x27] @ '' is not a canonical IANA time-zone identifier'')))"

definition temporal_parse_rfc3339 :: "str \<Rightarrow> int temporal" where
  "temporal_parse_rfc3339 s =
     or_diagnostic (parse_rfc3339 s) (PARSE_ERROR ([CHR 0x27] @ s @ [CHR 0x27] @ '' is not an RFC 3339 TIMESTAMP''))"

definition format_rfc3339 :: "int \<Rightarrow> diagnostic + str" where
  "format_rfc3339 timestamp = (case rfc3339 timestamp of None \<Rightarrow> Inl temporal_out_of_range | Some s \<Rightarrow> Inr s)"

definition temporal_offset :: "(str \<Rightarrow> str \<Rightarrow> str) \<Rightarrow> str \<Rightarrow> int \<Rightarrow> int temporal" where
  "temporal_offset cat tz timestamp = or_diagnostic (timezone_offset tz timestamp) (unsupported_timezone cat tz)"

definition temporal_is_dst :: "(str \<Rightarrow> str \<Rightarrow> str) \<Rightarrow> str \<Rightarrow> int \<Rightarrow> bool temporal" where
  "temporal_is_dst cat tz timestamp = or_diagnostic (timezone_is_dst tz timestamp) (unsupported_timezone cat tz)"

text \<open>The error of the two conversions: the range for a zone that is known.\<close>

definition zone_failure :: "(str \<Rightarrow> str \<Rightarrow> str) \<Rightarrow> str \<Rightarrow> 'a temporal" where
  "zone_failure cat tz =
     bind_outcome (is_known_timezone tz) (\<lambda>known.
       Done (Inl (if known then temporal_out_of_range else unsupported_timezone cat tz)))"

definition temporal_at_zone :: "(str \<Rightarrow> str \<Rightarrow> str) \<Rightarrow> int \<Rightarrow> str \<Rightarrow> str temporal" where
  "temporal_at_zone cat timestamp tz =
     bind_outcome (format_at_zone timestamp tz) (\<lambda>r.
       case r of Some s \<Rightarrow> Done (Inr s) | None \<Rightarrow> zone_failure cat tz)"

definition temporal_from_local :: "(str \<Rightarrow> str \<Rightarrow> str) \<Rightarrow> int \<Rightarrow> int \<Rightarrow> str \<Rightarrow> int temporal" where
  "temporal_from_local cat days millis tz =
     bind_outcome (timestamp_from_local days millis tz) (\<lambda>r.
       case r of Some t \<Rightarrow> Done (Inr t) | None \<Rightarrow> zone_failure cat tz)"

definition split_timestamp :: "int \<Rightarrow> diagnostic + int \<times> int" where
  "split_timestamp timestamp = (case civil_split timestamp of None \<Rightarrow> Inl temporal_out_of_range | Some p \<Rightarrow> Inr p)"

definition date_from_timestamp :: "int \<Rightarrow> diagnostic + int" where
  "date_from_timestamp timestamp = map_sum id fst (split_timestamp timestamp)"

definition time_from_timestamp :: "int \<Rightarrow> diagnostic + int" where
  "time_from_timestamp timestamp = map_sum id snd (split_timestamp timestamp)"

definition timestamp_from_date_time :: "int \<Rightarrow> int \<Rightarrow> diagnostic + int" where
  "timestamp_from_date_time days millis =
     (if \<not> in_range days then Inl temporal_out_of_range
      else if millis > 86399999 then Inl (INVALID_TIME ''TIME must be in 00:00:00.000..23:59:59.999'')
      else let t = days * DAY_MS + millis
           in if i64_ok t then Inr t
              else Inl (FORMAT_OUT_OF_RANGE ''TIMESTAMP is outside 0001-01-01..9999-12-31''))"

section \<open>The builtins\<close>

definition is_temporal_builtin :: "str \<Rightarrow> bool" where
  "is_temporal_builtin name \<longleftrightarrow>
     name \<in> {''Date.Parse'', ''Time.Parse'', ''TimeZone.Parse'', ''TimeZone.Offset'', ''TimeZone.IsDST'',
       ''Timestamp.Parse'', ''Timestamp.Format'', ''Timestamp.AtZone'', ''Timestamp.FromLocal''}"

definition require_arity :: "str \<Rightarrow> bn_value list \<Rightarrow> nat \<Rightarrow> diagnostic + unit" where
  "require_arity name arguments expected =
     (if length arguments = expected then Inr ()
      else Inl (TYPE_MISMATCH (show_nat expected @ '' argument(s)'') (show_nat (length arguments) @ '' argument(s)'') name))"

definition lift_value :: "('a \<Rightarrow> bn_value) \<Rightarrow> 'a temporal \<Rightarrow> bn_value temporal" where
  "lift_value f r = bind_outcome r (\<lambda>s. Done (map_sum id f s))"

definition string_argument :: "str \<Rightarrow> bn_value \<Rightarrow> (str \<Rightarrow> bn_value temporal) \<Rightarrow> bn_value temporal" where
  "string_argument name v f =
     (case v of VString s \<Rightarrow> f s | _ \<Rightarrow> Done (Inl (TYPE_MISMATCH ''STRING'' ''non-STRING value'' name)))"

definition zone_argument ::
  "(str \<Rightarrow> str \<Rightarrow> str) \<Rightarrow> str \<Rightarrow> bn_value \<Rightarrow> (str \<Rightarrow> bn_value temporal) \<Rightarrow> bn_value temporal" where
  "zone_argument cat name v f =
     (case v of
        VTimeZone tz \<Rightarrow> f tz
      | _ \<Rightarrow> Done (Inl (TYPE_MISMATCH ''TIMEZONE'' (cat ''temporal'' ''msg.non_timezone_value'') name)))"

definition timestamp_argument :: "bn_value \<Rightarrow> str \<Rightarrow> (int \<Rightarrow> bn_value temporal) \<Rightarrow> bn_value temporal" where
  "timestamp_argument v message f =
     (case integer_of v of
        Inl e \<Rightarrow> Done (Inl e)
      | Inr (t, _) \<Rightarrow> if i64_ok t then f t else Done (Inl (FORMAT_OUT_OF_RANGE message)))"

definition arity_of_temporal :: "str \<Rightarrow> nat" where
  "arity_of_temporal name =
     (if name = ''Timestamp.FromLocal'' then 3
      else if name \<in> {''TimeZone.Offset'', ''TimeZone.IsDST'', ''Timestamp.AtZone''} then 2 else 1)"

definition temporal_one :: "str \<Rightarrow> bn_value \<Rightarrow> bn_value temporal" where
  "temporal_one name a =
     (if name = ''Date.Parse'' then string_argument name a (\<lambda>s. lift_value VDate (temporal_parse_date s))
      else if name = ''Time.Parse'' then string_argument name a (\<lambda>s. lift_value VTime (temporal_parse_time s))
      else if name = ''TimeZone.Parse'' then
        string_argument name a (\<lambda>s. lift_value VTimeZone (Done (temporal_parse_timezone s)))
      else if name = ''Timestamp.Parse'' then
        string_argument name a (\<lambda>s. lift_value (\<lambda>t. VInteger t Int64) (temporal_parse_rfc3339 s))
      else timestamp_argument a ''TIMESTAMP is outside 0001-01-01..9999-12-31''
        (\<lambda>t. lift_value VString (Done (format_rfc3339 t))))"

definition temporal_two :: "(str \<Rightarrow> str \<Rightarrow> str) \<Rightarrow> str \<Rightarrow> bn_value \<Rightarrow> bn_value \<Rightarrow> bn_value temporal" where
  "temporal_two cat name a b =
     (let message = cat ''temporal'' ''msg.timestamp_out_of_range''
      in if name = ''TimeZone.Offset'' then
           zone_argument cat name a (\<lambda>tz. timestamp_argument b message (\<lambda>t.
             lift_value (\<lambda>o1. VInteger o1 Int32) (temporal_offset cat tz t)))
         else if name = ''TimeZone.IsDST'' then
           zone_argument cat name a (\<lambda>tz. timestamp_argument b message (\<lambda>t.
             lift_value VBoolean (temporal_is_dst cat tz t)))
         else
           timestamp_argument a message (\<lambda>t. zone_argument cat name b (\<lambda>tz.
             lift_value VString (temporal_at_zone cat t tz))))"

definition temporal_three :: "(str \<Rightarrow> str \<Rightarrow> str) \<Rightarrow> str \<Rightarrow> bn_value \<Rightarrow> bn_value \<Rightarrow> bn_value \<Rightarrow> bn_value temporal" where
  "temporal_three cat name a b c =
     (case a of
        VDate days \<Rightarrow>
          (case b of
             VTime millis \<Rightarrow>
               zone_argument cat name c (\<lambda>tz.
                 lift_value (\<lambda>t. VInteger t Int64)
                   (temporal_from_local cat days (if i32_ok millis then millis else 0) tz))
           | _ \<Rightarrow> Done (Inl (TYPE_MISMATCH ''TIME'' (cat ''temporal'' ''msg.non_time_value'') name)))
      | _ \<Rightarrow> Done (Inl (TYPE_MISMATCH ''DATE'' (cat ''temporal'' ''msg.non_date_value'') name)))"

definition temporal_call :: "(str \<Rightarrow> str \<Rightarrow> str) \<Rightarrow> str \<Rightarrow> bn_value list \<Rightarrow> bn_value temporal" where
  "temporal_call cat name arguments =
     (if \<not> is_temporal_builtin name then Done (Inl (NAME_NOT_FOUND name ''temporal function''))
      else case require_arity name arguments (arity_of_temporal name) of
        Inl e \<Rightarrow> Done (Inl e)
      | Inr _ \<Rightarrow>
          (case arguments of
             [a] \<Rightarrow> temporal_one name a
           | [a, b] \<Rightarrow> temporal_two cat name a b
           | [a, b, c] \<Rightarrow> temporal_three cat name a b c
           | _ \<Rightarrow> Panic))"

section \<open>Laws\<close>

lemma or_diagnostic_Inr: "or_diagnostic r e = Done (Inr x) \<longleftrightarrow> r = Done (Some x)"
  by (cases r; cases "case r of Done y \<Rightarrow> y | Panic \<Rightarrow> None") auto

lemma temporal_parse_date_Inr: "temporal_parse_date s = Done (Inr d) \<longleftrightarrow> parse_date s = Done (Some d)"
  by (cases "parse_ymd s") (auto simp: temporal_parse_date_def parse_date_def or_diagnostic_Inr split: option.splits)

lemma lift_value_Inr: "lift_value f r = Done (Inr v) \<longleftrightarrow> (\<exists>x. r = Done (Inr x) \<and> v = f x)"
  by (cases r; cases "case r of Done y \<Rightarrow> y | Panic \<Rightarrow> undefined") (auto simp: lift_value_def)

lemma temporal_call_parse:
  "temporal_call cat ''Date.Parse'' [VString s] = lift_value VDate (temporal_parse_date s)"
  "temporal_call cat ''Time.Parse'' [VString s] = lift_value VTime (temporal_parse_time s)"
  "temporal_call cat ''Timestamp.Parse'' [VString s] = lift_value (\<lambda>t. VInteger t Int64) (temporal_parse_rfc3339 s)"
  by (simp_all add: temporal_call_def is_temporal_builtin_def require_arity_def arity_of_temporal_def temporal_one_def
      string_argument_def)

lemma temporal_call_print:
  "temporal_call cat ''Timestamp.Format'' [VInteger t k] =
     timestamp_argument (VInteger t k) ''TIMESTAMP is outside 0001-01-01..9999-12-31''
       (\<lambda>t. lift_value VString (Done (format_rfc3339 t)))"
  "temporal_call cat ''Timestamp.AtZone'' [VInteger t k, VTimeZone tz] =
     timestamp_argument (VInteger t k) (cat ''temporal'' ''msg.timestamp_out_of_range'')
       (\<lambda>t. lift_value VString (temporal_at_zone cat t tz))"
  by (simp_all add: temporal_call_def is_temporal_builtin_def require_arity_def arity_of_temporal_def temporal_one_def
      temporal_two_def zone_argument_def Let_def)

lemma timestamp_argument_Inr:
  "timestamp_argument (VInteger t k) m f = Done (Inr v) \<longleftrightarrow> i64_ok t \<and> f t = Done (Inr v)"
  by (simp add: timestamp_argument_def integer_of_def)

lemma temporal_at_zone_Inr: "temporal_at_zone cat t tz = Done (Inr s) \<longleftrightarrow> format_at_zone t tz = Done (Some s)"
proof (cases "format_at_zone t tz")
  case (Done r)
  then show ?thesis
    by (cases r; cases "is_known_timezone tz") (simp_all add: temporal_at_zone_def zone_failure_def)
qed (simp add: temporal_at_zone_def)

section \<open>Properties\<close>

text \<open>C40: the temporal builtins read back what they print: the text of a \<open>TIMESTAMP\<close>, in UTC
  or at any zone, parses to that timestamp when it lies in the civil range, and the
  texts of a \<open>DATE\<close> of the civil range and of a \<open>TIME\<close> parse to them.\<close>

theorem temporal_builtins_roundtrip:
  assumes "temporal_call cat ''Timestamp.Format'' [VInteger t k] = Done (Inr utc)"
    "temporal_call cat ''Timestamp.AtZone'' [VInteger t k, VTimeZone tz] = Done (Inr local_text)"
    "i32_ok days" "in_range days" "0 \<le> millis" "millis < DAY_MS"
  shows "temporal_call cat ''Timestamp.Parse'' [utc] = Done (Inr (VInteger t Int64)) \<and>
    temporal_call cat ''Timestamp.Parse'' [local_text] = Done (Inr (VInteger t Int64)) \<and>
    temporal_call cat ''Date.Parse'' [VString (format_date days)] = Done (Inr (VDate days)) \<and>
    temporal_call cat ''Time.Parse'' [VString (format_time millis)] = Done (Inr (VTime millis))"
proof -
  obtain s where utc: "utc = VString s" "rfc3339 t = Some s" and t: "i64_ok t"
    using assms(1) unfolding temporal_call_print timestamp_argument_Inr lift_value_Inr
    by (auto simp: format_rfc3339_def split: option.splits)
  obtain l where l: "local_text = VString l" "format_at_zone t tz = Done (Some l)"
    using assms(2) unfolding temporal_call_print timestamp_argument_Inr lift_value_Inr temporal_at_zone_Inr by auto
  have "civil_split t \<noteq> None" using utc(2) by (auto simp: rfc3339_def split: option.splits)
  then have "parse_rfc3339 l = Done (Some t)" using parse_rfc3339_format_at_zone [OF t] l(2) by blast
  moreover have "parse_rfc3339 s = Done (Some t)" using parse_rfc3339_of_rfc3339 [OF t utc(2)] .
  moreover have "parse_date (format_date days) = Done (Some days)" "parse_hms (format_time millis) True = Done (Some millis)"
    using parse_date_format(1) [OF assms(3,4)] parse_hms_format [OF assms(5,6)] by simp_all
  ultimately show ?thesis
    unfolding utc(1) l(1) temporal_call_parse lift_value_Inr temporal_parse_date_Inr
    by (simp add: temporal_parse_rfc3339_def temporal_parse_time_def or_diagnostic_Inr)
qed

theorem temporal_builtins_roundtrip_witness:
  "temporal_call (\<lambda>_ _. []) ''Timestamp.Parse'' [VString ''2024-02-29T09:34:56.789-03:00''] =
     Done (Inr (VInteger 1709210096789 Int64))"
proof -
  have "temporal_call (\<lambda>_ _. []) ''Timestamp.Format'' [VInteger 1709210096789 Int64] =
      Done (Inr (VString ''2024-02-29T12:34:56.789Z''))" by code_simp
  moreover have "temporal_call (\<lambda>_ _. []) ''Timestamp.AtZone'' [VInteger 1709210096789 Int64, VTimeZone ''America/Sao_Paulo''] =
      Done (Inr (VString ''2024-02-29T09:34:56.789-03:00''))" by code_simp
  moreover have "i32_ok 0" "in_range 0" "(0 :: int) \<le> 0" "0 < DAY_MS" by (simp_all add: i32_ok_def in_range_iff DAY_MS_def)
  ultimately show ?thesis using temporal_builtins_roundtrip by blast
qed

text \<open>\<open>Time.Parse\<close> crashes the interpreter on a text that it should refuse: the parser
  slices inside a letter.\<close>

theorem time_parse_builtin_panics:
  "temporal_call cat ''Time.Parse'' [VString (''00:00:0'' @ [char_of (195 :: nat), char_of (169 :: nat)])] = Panic"
proof -
  have "parse_hms (''00:00:0'' @ [char_of (195 :: nat), char_of (169 :: nat)]) True = Panic" by code_simp
  then show ?thesis by (simp add: temporal_call_parse temporal_parse_time_def lift_value_def)
qed

end
