(* ===== verification/BN_Render.thy ===== *)
theory BN_Render
  imports BN_Temporal_Ops BN_Heap BN_IR
begin

text \<open>
  Helpers of the interpreter that need no state: the text of a value
  (\<open>crates/bn_interp/src/render.rs\<close>), constants and empty values (\<open>helpers.rs\<close>), the
  sizes and defaults of allocations (\<open>allocation.rs\<close>), index lists
  (\<open>collections.rs\<close>) and the text builtins of \<open>executor.rs\<close> with the reports of
  \<open>crates/bn_core_text/src/builtin.rs\<close>. Unicode case mapping and the reading of a float
  literal belong to Rust's library and are arguments.
\<close>

section \<open>The text of a value\<close>

fun join :: "str \<Rightarrow> str list \<Rightarrow> str" where
  "join sep [] = []"
| "join sep [s] = s"
| "join sep (s # ss) = s @ sep @ join sep ss"

fun render :: "float_ops \<Rightarrow> bn_value \<Rightarrow> str" where
  "render fo (VInteger n _) = integer_text n"
| "render fo (VFloat f kind) = f_text fo f kind"
| "render fo (VBoolean b) = boolean_text b"
| "render fo (VString s) = s"
| "render fo VNull = ''NULL''"
| "render fo VNotAvailable = ''NA''"
| "render fo VEndOfFile = ''EOF''"
| "render fo (VVector vs) = ''['' @ join '', '' (map (render fo) vs) @ '']''"
| "render fo (VFunction name) = name"
| "render fo (VType name) = name"
| "render fo (VTimeZone name) = name"
| "render fo VHostConsole = ''HOST.Console''"
| "render fo VHostArgs = ''HOST.Args''"
| "render fo (VTcpStream _) = ''HOST.Net.TCPStream''"
| "render fo (VTcpListener _) = ''HOST.Net.TCPListener''"
| "render fo (VUdpSocket _) = ''HOST.Net.UDPSocket''"
| "render fo (VLogFields _) = ''BNLog.Fields''"
| "render fo (VLogEntry _) = ''BNLog.Entry''"
| "render fo (VLogLogger _) = ''BNLog.Logger''"
| "render fo (VJson _) = ''BNJson.Json''"
| "render fo (VCryptoBytes _) = ''BNCrypto.Bytes''"
| "render fo (VCryptoKey _) = catalogue fo ''modules'' ''type.crypto_key''"
| "render fo (VCompressBytes _) = catalogue fo ''modules'' ''type.compress_bytes''"
| "render fo (VCompressZip _) = catalogue fo ''modules'' ''type.compress_zip_archive''"
| "render fo (VDispatchQueue _) = ''BNDispatch.Queue''"
| "render fo (VDispatchTicket i) = ''BNDispatch.Ticket#'' @ show_nat (unat i)"
| "render fo (VDispatchGroup i) = ''BNDispatch.Group#'' @ show_nat (unat i)"
| "render fo (VDispatchBarrier i) = ''BNDispatch.Barrier#'' @ show_nat (unat i)"
| "render fo (VDispatchSemaphore i) = ''BNDispatch.Semaphore#'' @ show_nat (unat i)"
| "render fo (VDispatchMutex i) = ''BNDispatch.Mutex#'' @ show_nat (unat i)"
| "render fo (VHandle name) = name"
| "render fo (VRecord r) = type_name r"
| "render fo (VObject _ cls) = last_part cls"
| "render fo (VPointer _ _) = ''POINTER''"
| "render fo (VFile _) = ''FS.File''"
| "render fo (VDataFrame _) = ''DataFrame''"
| "render fo (VDate days) = format_date days"
| "render fo (VTime millis) = format_time millis"
| "render fo (VError code message detail) =
     error_text code (error_detail_field detail False) message (error_detail_field detail True)"

section \<open>Constants and empty values\<close>

text \<open>A float literal is checked before it gets here; on another text the code panics.\<close>

definition parse_float :: "(str \<Rightarrow> 64 word option) \<Rightarrow> str \<Rightarrow> 64 word outcome" where
  "parse_float parse v =
     (if v = ''NAN'' then Done 0x7FF8000000000000
      else if v = ''INF'' then Done 0x7FF0000000000000
      else if v = ''-INF'' then Done 0xFFF0000000000000
      else case parse v of None \<Rightarrow> Panic | Some f \<Rightarrow> Done f)"

definition constant_value ::
  "float_ops \<Rightarrow> (str \<Rightarrow> 64 word option) \<Rightarrow> ir_constant \<Rightarrow> bn_type \<Rightarrow> (diagnostic + bn_value) outcome" where
  "constant_value fo parse c ty =
     (case c of
        CInteger s \<Rightarrow>
          (case parse_integer s of
             None \<Rightarrow> Done (Inl (INVALID_IR ''invalid integer constant''))
           | Some n \<Rightarrow> Done (Inr (VInteger n (case integer_kind ty of Some k \<Rightarrow> k | None \<Rightarrow> Int32))))
      | CFloat s \<Rightarrow> bind_outcome (parse_float parse s) (\<lambda>f. Done (Inr (float_value fo f (float_kind ty))))
      | CString s \<Rightarrow> Done (Inr (VString s))
      | CBoolean b \<Rightarrow> Done (Inr (VBoolean b))
      | CNull \<Rightarrow> Done (Inr VNull)
      | CNotAvailable \<Rightarrow> Done (Inr VNotAvailable)
      | CEndOfFile \<Rightarrow> Done (Inr VEndOfFile)
      | CFunction s \<Rightarrow> Done (Inr (VFunction s))
      | CType s \<Rightarrow> Done (Inr (VType s))
      | CHostConsole \<Rightarrow> Done (Inr VHostConsole)
      | CHostArgs \<Rightarrow> Done (Inr VHostArgs))"

definition empty_named :: "str \<Rightarrow> bn_value" where
  "empty_named name =
     (if name = ''DATE'' then VDate default_date
      else if name = ''TIME'' then VTime default_time
      else if name = ''TIMEZONE'' then VTimeZone ''UTC''
      else if name = ''VOID'' then VHandle name
      else if name = ''Error'' then value_error 0 []
      else VRecord (RecordValue name []))"

definition default_function_owner :: "bn_type \<Rightarrow> str option" where
  "default_function_owner ty =
     (case ty of
        TNamed name \<Rightarrow> Some name
      | TTypeName name \<Rightarrow> Some name
      | TImportedNamed i name \<Rightarrow> Some (''#'' @ show_int i @ ''.'' @ name)
      | TImportedTypeName i name \<Rightarrow> Some (''#'' @ show_int i @ ''.'' @ name)
      | _ \<Rightarrow> None)"

section \<open>Allocations\<close>

definition pointer_mismatch :: diagnostic where
  "pointer_mismatch = TYPE_MISMATCH ''numeric pointer element'' ''non-numeric type'' ''pointer allocation''"

definition pointer_element_default :: "bn_type \<Rightarrow> diagnostic + bn_value" where
  "pointer_element_default element =
     (case element of
        TInteger kind \<Rightarrow> Inr (VInteger 0 kind)
      | TFloat kind \<Rightarrow> Inr (VFloat 0 kind)
      | _ \<Rightarrow> Inl pointer_mismatch)"

definition pointer_element_size :: "bn_type \<Rightarrow> int option" where
  "pointer_element_size element =
     (case element of
        TInteger kind \<Rightarrow> Some (integer_byte_size kind)
      | TFloat Float32 \<Rightarrow> Some 4
      | TFloat Float64 \<Rightarrow> Some 8
      | _ \<Rightarrow> None)"

text \<open>The \<open>Debug\<close> names of the kinds.\<close>

fun debug_integer :: "integer_type \<Rightarrow> str" where
  "debug_integer Byte = ''Byte''" | "debug_integer Int8 = ''Int8''"
| "debug_integer Int16 = ''Int16''" | "debug_integer Int32 = ''Int32''"
| "debug_integer Int64 = ''Int64''" | "debug_integer UInt16 = ''UInt16''"
| "debug_integer UInt32 = ''UInt32''" | "debug_integer UInt64 = ''UInt64''"

definition display_element :: "bn_type \<Rightarrow> str" where
  "display_element element =
     (case element of
        TInteger kind \<Rightarrow> debug_integer kind
      | TFloat Float32 \<Rightarrow> ''Float32''
      | TFloat Float64 \<Rightarrow> ''Float64''
      | _ \<Rightarrow> ''POINTER'')"

definition integer_overflow :: diagnostic where
  "integer_overflow = NUMERIC_OVERFLOW ''converting a value to INTEGER''"

definition add_sizes :: "int \<Rightarrow> bn_value \<Rightarrow> diagnostic + int" where
  "add_sizes so_far sz =
     (case sz of
        VInteger n _ \<Rightarrow>
          if \<not> u64_ok n then Inl integer_overflow
          else (case try_fit u64_ok (so_far + n) of None \<Rightarrow> Inl integer_overflow | Some t \<Rightarrow> Inr t)
      | _ \<Rightarrow> Inl (TYPE_MISMATCH ''INTEGER size'' ''non-integer value'' ''allocation size''))"

definition integer_from_u64 :: "int \<Rightarrow> diagnostic + bn_value" where
  "integer_from_u64 count = (if count > 2147483647 then Inl integer_overflow else Inr (VInteger count Int32))"

section \<open>Index lists\<close>

definition dataframe_index_error :: "(str \<Rightarrow> str \<Rightarrow> str) \<Rightarrow> bn_value" where
  "dataframe_index_error cat =
     error_report 1 ''DataFrame'' ''DataFrame index out of bounds'' (cat ''frontend'' ''msg.dataframe_index_cause'')"

definition usize_ok :: "int \<Rightarrow> bool" where
  "usize_ok = u64_ok"

fun unsigned_indices :: "int list \<Rightarrow> nat list option" where
  "unsigned_indices [] = Some []"
| "unsigned_indices (v # vs) =
     (if \<not> usize_ok v then None else map_option (\<lambda>is. nat v # is) (unsigned_indices vs))"

text \<open>\<open>collect\<close> into a \<open>Result\<close>: the first error, or all results in order.\<close>

fun collect_results :: "('a \<Rightarrow> 'e + 'b) \<Rightarrow> 'a list \<Rightarrow> 'e + 'b list" where
  "collect_results f [] = Inr []"
| "collect_results f (x # xs) = try_sum (f x) (\<lambda>y. try_sum (collect_results f xs) (\<lambda>ys. Inr (y # ys)))"

definition collect_indices :: "bn_value heap \<Rightarrow> bn_value \<Rightarrow> diagnostic + int list" where
  "collect_indices memory v =
     try_sum
       (case v of
          VVector vs \<Rightarrow> Inr vs
        | VPointer h _ \<Rightarrow> try_sum (heap_len memory h) (\<lambda>n. collect_results (heap_get memory h) [0..<n])
        | _ \<Rightarrow> Inl (TYPE_MISMATCH ''INTEGER vector'' ''non-vector value'' ''index collection''))
       (collect_results (\<lambda>v. map_sum id fst (integer_of v)))"

section \<open>Text builtins\<close>

text \<open>The number of a character from its bytes, and its bytes from a number:
  \<open>u32::from(char)\<close>, \<open>char::from_u32\<close> with \<open>to_string\<close>.\<close>

fun scalar_of :: "str \<Rightarrow> int" where
  "scalar_of [a] = int (byte a)"
| "scalar_of [a, b] = (int (byte a) - 192) * 64 + (int (byte b) - 128)"
| "scalar_of [a, b, c] = (int (byte a) - 224) * 4096 + (int (byte b) - 128) * 64 + (int (byte c) - 128)"
| "scalar_of [a, b, c, d] =
     (int (byte a) - 240) * 262144 + (int (byte b) - 128) * 4096 + (int (byte c) - 128) * 64 + (int (byte d) - 128)"
| "scalar_of _ = 0"

definition is_scalar :: "int \<Rightarrow> bool" where
  "is_scalar n \<longleftrightarrow> 0 \<le> n \<and> n \<le> 0x10FFFF \<and> \<not> (0xD800 \<le> n \<and> n \<le> 0xDFFF)"

definition scalar_text :: "int \<Rightarrow> str" where
  "scalar_text n =
     (let tail = (\<lambda>k. char_of (nat (128 + (n div k) mod 64)))
      in if n < 0x80 then [char_of (nat n)]
         else if n < 0x800 then [char_of (nat (192 + n div 64)), tail 1]
         else if n < 0x10000 then [char_of (nat (224 + n div 4096)), tail 64, tail 1]
         else [char_of (nat (240 + n div 262144)), tail 4096, tail 64, tail 1])"

definition asc_operation :: "(str \<Rightarrow> str \<Rightarrow> str) \<Rightarrow> str" where
  "asc_operation cat = cat ''string'' ''builtin.asc.operation''"

definition char_operation :: "(str \<Rightarrow> str \<Rightarrow> str) \<Rightarrow> str" where
  "char_operation cat = cat ''string'' ''builtin.char.operation''"

definition builtin_failure_cause :: "(str \<Rightarrow> str \<Rightarrow> str) \<Rightarrow> str \<Rightarrow> str" where
  "builtin_failure_cause cat op =
     (if op = asc_operation cat then cat ''string'' ''builtin.asc.cause''
      else if op = char_operation cat then cat ''string'' ''builtin.char.cause''
      else [])"

definition asc_builtin :: "(str \<Rightarrow> str \<Rightarrow> str) \<Rightarrow> bn_value \<Rightarrow> diagnostic + bn_value" where
  "asc_builtin cat v =
     (case v of
        VString s \<Rightarrow>
          (case next_char s of
             None \<Rightarrow> Inr (error_report 1 (asc_operation cat) ''ASC requires a non-empty STRING''
               (builtin_failure_cause cat (asc_operation cat)))
           | Some c \<Rightarrow> Inr (VInteger (scalar_of c) Int32))
      | _ \<Rightarrow> Inl (TYPE_MISMATCH ''STRING'' ''non-STRING value'' ''ASC''))"

definition char_builtin :: "(str \<Rightarrow> str \<Rightarrow> str) \<Rightarrow> bn_value \<Rightarrow> diagnostic + bn_value" where
  "char_builtin cat v =
     try_sum (integer_of v) (\<lambda>(code, _).
       Inr (if u32_ok code \<and> is_scalar code then VString (scalar_text code)
            else error_report 1 (char_operation cat) ''CHAR code is not a Unicode scalar''
              (builtin_failure_cause cat (char_operation cat))))"

definition case_builtin :: "str \<Rightarrow> (str \<Rightarrow> str) \<Rightarrow> bn_value \<Rightarrow> diagnostic + bn_value" where
  "case_builtin name change v =
     (case v of VString s \<Rightarrow> Inr (VString (change s)) | _ \<Rightarrow> Inl (TYPE_MISMATCH ''STRING'' ''non-STRING value'' name))"

text \<open>\<open>&arguments[i]\<close>, which panics past the last argument.\<close>

definition with_argument :: "bn_value list \<Rightarrow> nat \<Rightarrow> (bn_value \<Rightarrow> 'a outcome) \<Rightarrow> 'a outcome" where
  "with_argument arguments i f = (if i < length arguments then f (arguments ! i) else Panic)"

definition builtin ::
  "float_ops \<Rightarrow> (str \<Rightarrow> str) \<Rightarrow> (str \<Rightarrow> str) \<Rightarrow> str \<Rightarrow> bn_value list \<Rightarrow> (diagnostic + bn_value) outcome" where
  "builtin fo lower upper name arguments =
     (let argument = with_argument arguments
      in if name = ''$for_condition'' then
           argument 0 (\<lambda>a. argument 1 (\<lambda>b. argument 2 (\<lambda>c. Done (for_condition a b c))))
         else if name = ''$for_fits'' then argument 0 (\<lambda>a. argument 1 (\<lambda>b. Done (for_fits a b)))
         else if name = ''ASC'' then argument 0 (\<lambda>a. Done (asc_builtin (catalogue fo) a))
         else if name = ''CHAR'' then argument 0 (\<lambda>a. Done (char_builtin (catalogue fo) a))
         else if name = ''TOLOWER'' then argument 0 (\<lambda>a. Done (case_builtin ''TOLOWER'' lower a))
         else if name = ''TOUPPER'' then argument 0 (\<lambda>a. Done (case_builtin ''TOUPPER'' upper a))
         else Done (Inl (NAME_NOT_FOUND name ''builtin dispatch'')))"

section \<open>Laws\<close>

lemma byte_char_of: "0 \<le> n \<Longrightarrow> n < 256 \<Longrightarrow> byte (char_of (nat n)) = nat n"
  by (simp add: byte_def)

lemma tail_bounds: "128 \<le> 128 + n mod 64" "128 + n mod 64 < (192 :: int)" "0 \<le> 128 + n mod (64 :: int)"
  using pos_mod_bound [of 64 n] pos_mod_sign [of 64 n] by simp_all

lemma tail_byte: "int (byte (char_of (nat (128 + n mod 64)))) = 128 + n mod 64"
  using tail_bounds [of n] by (subst byte_char_of) auto

lemma digits_sum:
  fixes a b c x y z n :: int
  shows "64 * a + x = n \<Longrightarrow> 64 * b + y = a \<Longrightarrow> (224 + b - 224) * 4096 + y * 64 + x = n"
    "64 * a + x = n \<Longrightarrow> 64 * b + y = a \<Longrightarrow> 64 * c + z = b \<Longrightarrow> (240 + c - 240) * 262144 + z * 4096 + y * 64 + x = n"
  by auto

text \<open>The bytes of a scalar value are one character, and give its number back.\<close>

lemma scalar_text_one:
  assumes "is_scalar n"
  shows "next_char (scalar_text n @ rest) = Some (scalar_text n)" "scalar_of (scalar_text n) = n"
proof -
  have n: "0 \<le> n" "n < 1114112" using assms by (auto simp: is_scalar_def)
  have lead: "int (byte (char_of (nat k))) = k" "byte (char_of (nat k)) = nat k" if "0 \<le> k" "k < 256" for k
    using that by (simp_all add: byte_char_of)
  have "n div 4096 = n div 64 div 64" "n div 262144 = n div 4096 div 64" by (simp_all add: zdiv_zmult2_eq [symmetric])
  then have digits: "64 * (n div 64) + n mod 64 = n" "64 * (n div 4096) + (n div 64) mod 64 = n div 64"
    "64 * (n div 262144) + (n div 4096) mod 64 = n div 4096"
    by (metis mult_div_mod_eq)+
  consider "n < 128" | "128 \<le> n" "n < 2048" | "2048 \<le> n" "n < 65536" | "65536 \<le> n" by linarith
  then have "next_char (scalar_text n @ rest) = Some (scalar_text n) \<and> scalar_of (scalar_text n) = n"
  proof cases
    case 1
    with n show ?thesis by (simp add: scalar_text_def lead char_len_def nat_less_iff)
  next
    case 2
    define k where "k = 192 + n div 64"
    have k: "192 \<le> k" "k < 224" using 2 by (auto simp: k_def)
    then have "next_char (scalar_text n @ rest) = Some (scalar_text n)"
      using 2 by (simp add: scalar_text_def Let_def lead char_len_def k_def [symmetric] nat_less_iff)
    moreover have "scalar_of (scalar_text n) = (k - 192) * 64 + n mod 64"
      using 2 k by (simp add: scalar_text_def Let_def lead tail_byte k_def [symmetric])
    ultimately show ?thesis by (simp add: k_def)
  next
    case 3
    define k where "k = 224 + n div 4096"
    have k: "224 \<le> k" "k < 240" using 3 by (auto simp: k_def)
    then have "next_char (scalar_text n @ rest) = Some (scalar_text n)"
      using 3 by (simp add: scalar_text_def Let_def lead char_len_def k_def [symmetric] nat_less_iff)
    moreover have "scalar_of (scalar_text n) = (k - 224) * 4096 + ((n div 64) mod 64) * 64 + n mod 64"
      using 3 k by (simp add: scalar_text_def Let_def lead tail_byte k_def [symmetric])
    ultimately show ?thesis unfolding k_def using digits_sum(1) [OF digits(1,2)] by simp
  next
    case 4
    define k where "k = 240 + n div 262144"
    have k: "240 \<le> k" "k < 256" using 4 n by (auto simp: k_def)
    then have "next_char (scalar_text n @ rest) = Some (scalar_text n)"
      using 4 by (simp add: scalar_text_def Let_def lead char_len_def k_def [symmetric] nat_less_iff)
    moreover have "scalar_of (scalar_text n) =
        (k - 240) * 262144 + ((n div 4096) mod 64) * 4096 + ((n div 64) mod 64) * 64 + n mod 64"
      using 4 k by (simp add: scalar_text_def Let_def lead tail_byte k_def [symmetric])
    ultimately show ?thesis unfolding k_def using digits_sum(2) [OF digits] by simp
  qed
  then show "next_char (scalar_text n @ rest) = Some (scalar_text n)" "scalar_of (scalar_text n) = n" by simp_all
qed

lemma collect_results_Inr:
  "collect_results f xs = Inr ys \<longleftrightarrow> length ys = length xs \<and> (\<forall>i < length xs. f (xs ! i) = Inr (ys ! i))"
proof (induction xs arbitrary: ys)
  case (Cons x xs)
  show ?case
  proof
    assume "collect_results f (x # xs) = Inr ys"
    then obtain y zs where "f x = Inr y" "collect_results f xs = Inr zs" "ys = y # zs" by (auto simp: try_sum_Inr)
    then show "length ys = length (x # xs) \<and> (\<forall>i < length (x # xs). f ((x # xs) ! i) = Inr (ys ! i))"
      using Cons.IH [of zs] by (auto simp: nth_Cons split: nat.splits)
  next
    assume r: "length ys = length (x # xs) \<and> (\<forall>i < length (x # xs). f ((x # xs) ! i) = Inr (ys ! i))"
    then obtain y zs where ys: "ys = y # zs" by (cases ys) auto
    have "f x = Inr y" using r [THEN conjunct2, THEN spec, of 0] ys by simp
    moreover have "f (xs ! i) = Inr (zs ! i)" if "i < length xs" for i
      using r [THEN conjunct2, THEN spec, of "Suc i"] ys that by simp
    ultimately show "collect_results f (x # xs) = Inr ys" using Cons.IH [of zs] r ys by (simp add: try_sum_Inr)
  qed
qed auto

section \<open>Properties\<close>

text \<open>\<open>CHAR\<close> and \<open>ASC\<close> are inverse on Unicode scalar values: \<open>CHAR\<close> of a scalar is a text
  of exactly one character, whose \<open>ASC\<close> is the number again, also with any text after
  it; for every other number \<open>CHAR\<close> answers an error value and never traps.\<close>

theorem char_asc_roundtrip:
  "if is_scalar n
   then char_builtin cat (VInteger n kind) = Inr (VString (scalar_text n)) \<and>
        chars (scalar_text n) = [scalar_text n] \<and>
        asc_builtin cat (VString (scalar_text n @ rest)) = Inr (VInteger n Int32)
   else \<exists>message detail. char_builtin cat (VInteger n kind) = Inr (VError 1 message (Some detail))"
proof (cases "is_scalar n")
  case True
  then have "u32_ok n" by (simp add: is_scalar_def u32_ok_def)
  moreover have "chars (scalar_text n) = [scalar_text n]"
    using scalar_text_one(1) [OF True, of "[]"] by (simp add: chars.simps)
  ultimately show ?thesis
    using True scalar_text_one [OF True] by (simp add: char_builtin_def asc_builtin_def integer_of_def)
qed (simp add: char_builtin_def integer_of_def error_report_def)

end
