(* ===== verification/BN_Machine.thy ===== *)
theory BN_Machine
  imports BN_Render BN_Ownership "HOL-Library.AList"
begin

text \<open>
  The state of the interpreter and its plug-ins: the \<open>Executor\<close> of
  \<open>crates/bn_interp/src/lib.rs\<close>, the contract of \<open>provider.rs\<close> and the provider registry of
  \<open>executor/part3.rs\<close>. The state is the \<open>interp\<close> of \<open>BN_Ownership\<close> whose provider part is
  the record \<open>parts\<close>. The streams and everything else outside are the world \<open>'w\<close>, a
  provider's own state is \<open>'p\<close>. A provider serves a call through \<open>CoreContext\<close> alone, so a
  served call is a dialogue: an answer, or a request with the continuation for its
  reply. Debug hooks, event consumers and cancellation are not attached. The pool of
  frames only reuses storage.
\<close>

section \<open>State\<close>

record ownership_frame =
  released_symbols :: "symbol_id set"
  weak_symbols :: "symbol_id set"

definition ownership_frame_new :: "symbol_id set \<Rightarrow> ownership_frame" where
  "ownership_frame_new weak = \<lparr>released_symbols = {}, weak_symbols = weak\<rparr>"

definition is_released :: "ownership_frame \<Rightarrow> symbol_id \<Rightarrow> bool" where
  "is_released f i \<longleftrightarrow> i \<in> released_symbols f"

definition is_weak :: "ownership_frame \<Rightarrow> symbol_id \<Rightarrow> bool" where
  "is_weak f i \<longleftrightarrow> i \<in> weak_symbols f"

datatype class_init = InitRunning | InitReady

text \<open>Stacks have their top first. The statics are an association list because the ARC
  verifier walks them; so are the registries of providers.\<close>

record ('p, 'w) parts =
  x_libraries :: "(str \<times> 'p) list"
  x_hosts :: "(str \<times> 'p) list"
  x_world :: 'w
  x_stop_code :: "int option"
  x_unwinding :: "int option"
  x_statics :: "((str \<times> str) \<times> bn_value) list"
  x_class_init :: "str \<Rightarrow> class_init option"
  x_pinned :: "(handle \<times> str) list"
  x_call_depth :: nat
  x_frames :: "ownership_frame list"
  x_bindings :: "symbol_id \<Rightarrow> bn_value option"
  x_restored :: "symbol_id set"
  x_captured :: "(symbol_id \<Rightarrow> bn_value option) option"

type_synonym ('p, 'w) machine = "('p, 'w) parts interp"
type_synonym ('p, 'w, 'a) execution = "(('p, 'w) machine \<times> (diagnostic + 'a)) outcome"

definition on_rest :: "(('p, 'w) parts \<Rightarrow> ('p, 'w) parts) \<Rightarrow> ('p, 'w) machine \<Rightarrow> ('p, 'w) machine" where
  "on_rest f st = st\<lparr>i_libs := f (i_libs st)\<rparr>"

text \<open>\<open>?\<close> on a run: an error returns at once, with the state it left.\<close>

fun and_then :: "('p, 'w, 'a) execution \<Rightarrow> ('a \<Rightarrow> ('p, 'w) machine \<Rightarrow> ('p, 'w, 'b) execution) \<Rightarrow> ('p, 'w, 'b) execution" where
  "and_then Panic f = Panic"
| "and_then (Done (st, Inl e)) f = Done (st, Inl e)"
| "and_then (Done (st, Inr x)) f = f x st"

definition answer :: "'a \<Rightarrow> ('p, 'w) machine \<Rightarrow> ('p, 'w, 'a) execution" where
  "answer x st = Done (st, Inr x)"

definition lift_sum :: "diagnostic + 'a \<Rightarrow> ('p, 'w) machine \<Rightarrow> ('p, 'w, 'a) execution" where
  "lift_sum r st = Done (st, r)"

definition lift_outcome :: "(diagnostic + 'a) outcome \<Rightarrow> ('p, 'w) machine \<Rightarrow> ('p, 'w, 'a) execution" where
  "lift_outcome r st = bind_outcome r (\<lambda>s. Done (st, s))"

section \<open>Providers\<close>

text \<open>The operations of \<open>CoreContext\<close>. The references it hands out (\<open>memory_mut\<close>, \<open>output\<close>,
  the host) are read and written back.\<close>

datatype ('p, 'w) request =
    AskCall str "bn_value list" span
  | AskLibraryCall str str "bn_value list" span
  | AskMemory
  | AskSetMemory "bn_value heap"
  | AskWorld
  | AskSetWorld 'w
  | AskAllocateObject str span
  | AskLibraryAllocate str str span
  | AskLibraryRelease bn_value span
  | AskLibraryTake str
  | AskLibraryInsert str 'p

datatype ('p, 'w) reply =
    GotValue "diagnostic + bn_value"
  | GotOptional "(diagnostic + bn_value) option"
  | GotRelease "(diagnostic + unit) option"
  | GotProvider "'p option"
  | GotMemory "bn_value heap"
  | GotWorld 'w
  | GotDone

datatype ('p, 'w) dialogue =
    Answer 'p "diagnostic + bn_value"
  | Ask "('p, 'w) request" "('p, 'w) reply \<Rightarrow> ('p, 'w) dialogue"

text \<open>What an execution is given: the module, the host and the operations of the providers.
  Whether the native stack is used up may depend on the state in any way.
  \<open>v_filesystem_refused\<close> says that the module imports a file system the host does not
  provide, \<open>v_debug_assertions\<close> is the build flag of the final check.\<close>

record ('p, 'w) machine_env =
  v_module :: ir_module
  v_float :: float_ops
  v_parse_f64 :: "str \<Rightarrow> 64 word option"
  v_lower :: "str \<Rightarrow> str"
  v_upper :: "str \<Rightarrow> str"
  v_reserve :: "nat \<Rightarrow> bool"
  v_arguments :: "str list"
  v_processors :: "str + nat"
  v_filesystem_refused :: bool
  v_debug_assertions :: bool
  v_stack_full :: "('p, 'w) machine \<Rightarrow> bool"
  v_span :: "str \<Rightarrow> nat \<Rightarrow> nat \<Rightarrow> span"
  v_write :: "str \<Rightarrow> 'w \<Rightarrow> 'w \<times> str option"
  v_flush :: "'w \<Rightarrow> 'w \<times> str option"
  v_read_line :: "'w \<Rightarrow> 'w \<times> (str + str)"
  v_provider_call :: "'p \<Rightarrow> str \<Rightarrow> bn_value list \<Rightarrow> span \<Rightarrow> ('p, 'w) dialogue"
  v_provider_allocate :: "'p \<Rightarrow> str \<Rightarrow> span \<Rightarrow> 'p \<times> (diagnostic + bn_value) option"
  v_provider_release :: "'p \<Rightarrow> bn_value \<Rightarrow> span \<Rightarrow> 'p \<times> (diagnostic + unit) option"
  v_provider_retain :: "'p \<Rightarrow> bn_value \<Rightarrow> span \<Rightarrow> 'p \<times> (diagnostic + unit) option"
  v_provider_destroyed :: "'p \<Rightarrow> handle \<Rightarrow> 'p"

text \<open>The parts of the interpreter a part calls back: named functions, libraries and the
  bodies of functions.\<close>

datatype flow = FlowReturn "bn_value option" | FlowStop int

record ('p, 'w) core_ops =
  o_call :: "str \<Rightarrow> bn_value list \<Rightarrow> span \<Rightarrow> ('p, 'w) machine \<Rightarrow> ('p, 'w, bn_value) execution"
  o_library_call :: "str \<Rightarrow> str \<Rightarrow> bn_value list \<Rightarrow> span \<Rightarrow> ('p, 'w) machine \<Rightarrow> ('p, 'w, bn_value) execution"
  o_function :: "ir_function \<Rightarrow> bn_value list \<Rightarrow> ('p, 'w) machine \<Rightarrow> ('p, 'w, flow) execution"

section \<open>The registry\<close>

text \<open>A provider leaves the registry while it works, and comes back changed.\<close>

definition allocate_in ::
  "('p, 'w) machine_env \<Rightarrow> str \<Rightarrow> str \<Rightarrow> span \<Rightarrow> (str \<times> 'p) list \<Rightarrow> (str \<times> 'p) list \<times> (diagnostic + bn_value) option" where
  "allocate_in env name cls sp ps =
     (case map_of ps name of
        None \<Rightarrow> (ps, None)
      | Some p \<Rightarrow> (case v_provider_allocate env p cls sp of (p', r) \<Rightarrow> (AList.update name p' ps, r)))"

text \<open>Every provider is asked in turn until one claims the value.\<close>

fun offer :: "('p \<Rightarrow> 'p \<times> 'r option) \<Rightarrow> str list \<Rightarrow> (str \<times> 'p) list \<Rightarrow> (str \<times> 'p) list \<times> 'r option" where
  "offer f [] ps = (ps, None)"
| "offer f (k # ks) ps =
     (case map_of ps k of
        None \<Rightarrow> offer f ks ps
      | Some p \<Rightarrow>
          (case f p of
             (p', None) \<Rightarrow> offer f ks (AList.update k p' ps)
           | (p', Some r) \<Rightarrow> (AList.update k p' ps, Some r)))"

definition split_once :: "char \<Rightarrow> str \<Rightarrow> (str \<times> str) option" where
  "split_once c s =
     (case dropWhile (\<lambda>b. b \<noteq> c) s of [] \<Rightarrow> None | _ # tail \<Rightarrow> Some (takeWhile (\<lambda>b. b \<noteq> c) s, tail))"

definition library_callee :: "('p, 'w) machine_env \<Rightarrow> str \<Rightarrow> (str \<times> str) option" where
  "library_callee env name =
     (case strip_prefix ''#'' name of
        None \<Rightarrow> None
      | Some tail \<Rightarrow>
          (case split_once (CHR ''.'') tail of
             None \<Rightarrow> None
           | Some (i, member) \<Rightarrow>
               (case parse_unsigned u32_ok i of
                  None \<Rightarrow> None
                | Some k \<Rightarrow> map_option (\<lambda>library. (library, member)) (standard_library_of (v_module env) k))))"

definition host_unavailable :: "str \<Rightarrow> diagnostic" where
  "host_unavailable capability = HOST_CAPABILITY_UNAVAILABLE (''HOST.'' @ capability @ '' is not provided by this host'')"

definition no_host_owner :: "('p, 'w) machine_env \<Rightarrow> diagnostic" where
  "no_host_owner env =
     HOST_CAPABILITY_UNAVAILABLE (catalogue (v_float env) ''frontend'' ''msg.no_host_capability_owns_this_handle'')"

definition host_allocate ::
  "('p, 'w) machine_env \<Rightarrow> str \<Rightarrow> str \<Rightarrow> span \<Rightarrow> ('p, 'w) machine \<Rightarrow> ('p, 'w, bn_value) execution" where
  "host_allocate env capability cls sp st =
     (case allocate_in env capability cls sp (x_hosts (i_libs st)) of
        (hosts, r) \<Rightarrow>
          Done (on_rest (\<lambda>s. s\<lparr>x_hosts := hosts\<rparr>) st,
            case r of None \<Rightarrow> Inl (host_unavailable capability) | Some v \<Rightarrow> v))"

definition host_offer ::
  "('p, 'w) machine_env \<Rightarrow> ('p \<Rightarrow> 'p \<times> (diagnostic + unit) option) \<Rightarrow> ('p, 'w) parts \<Rightarrow> ('p, 'w) parts \<times> (diagnostic + unit)" where
  "host_offer env f s =
     (case offer f (map fst (x_hosts s)) (x_hosts s) of
        (hosts, r) \<Rightarrow> (s\<lparr>x_hosts := hosts\<rparr>, case r of None \<Rightarrow> Inl (no_host_owner env) | Some v \<Rightarrow> v))"

definition host_retain :: "('p, 'w) machine_env \<Rightarrow> bn_value \<Rightarrow> span \<Rightarrow> ('p, 'w) parts \<Rightarrow> ('p, 'w) parts \<times> (diagnostic + unit)" where
  "host_retain env v sp = host_offer env (\<lambda>p. v_provider_retain env p v sp)"

definition host_release :: "('p, 'w) machine_env \<Rightarrow> bn_value \<Rightarrow> span \<Rightarrow> ('p, 'w) parts \<Rightarrow> ('p, 'w) parts \<times> (diagnostic + unit)" where
  "host_release env v sp = host_offer env (\<lambda>p. v_provider_release env p v sp)"

definition library_allocate_in ::
  "('p, 'w) machine_env \<Rightarrow> str \<Rightarrow> str \<Rightarrow> span \<Rightarrow> ('p, 'w) machine \<Rightarrow> ('p, 'w) machine \<times> (diagnostic + bn_value) option" where
  "library_allocate_in env library cls sp st =
     (case allocate_in env library cls sp (x_libraries (i_libs st)) of
        (libraries, r) \<Rightarrow> (on_rest (\<lambda>s. s\<lparr>x_libraries := libraries\<rparr>) st, r))"

definition library_allocate ::
  "('p, 'w) machine_env \<Rightarrow> str \<Rightarrow> span \<Rightarrow> ('p, 'w) machine \<Rightarrow> ('p, 'w) machine \<times> (diagnostic + bn_value) option" where
  "library_allocate env name sp st =
     (case library_callee env name of
        None \<Rightarrow> (st, None)
      | Some (library, cls) \<Rightarrow> library_allocate_in env library cls sp st)"

definition library_offer ::
  "('p \<Rightarrow> 'p \<times> (diagnostic + unit) option) \<Rightarrow> ('p, 'w) parts \<Rightarrow> ('p, 'w) parts \<times> (diagnostic + unit) option" where
  "library_offer f s =
     (case offer f (map fst (x_libraries s)) (x_libraries s) of (libraries, r) \<Rightarrow> (s\<lparr>x_libraries := libraries\<rparr>, r))"

definition library_release ::
  "('p, 'w) machine_env \<Rightarrow> bn_value \<Rightarrow> span \<Rightarrow> ('p, 'w) parts \<Rightarrow> ('p, 'w) parts \<times> (diagnostic + unit) option" where
  "library_release env v sp = library_offer (\<lambda>p. v_provider_release env p v sp)"

definition library_retain ::
  "('p, 'w) machine_env \<Rightarrow> bn_value \<Rightarrow> span \<Rightarrow> ('p, 'w) parts \<Rightarrow> ('p, 'w) parts \<times> (diagnostic + unit) option" where
  "library_retain env v sp = library_offer (\<lambda>p. v_provider_retain env p v sp)"

definition notify_object_destroyed :: "('p, 'w) machine_env \<Rightarrow> handle \<Rightarrow> ('p, 'w) parts \<Rightarrow> ('p, 'w) parts" where
  "notify_object_destroyed env h s =
     s\<lparr>x_libraries := map (\<lambda>(name, p). (name, v_provider_destroyed env p h)) (x_libraries s)\<rparr>"

section \<open>Ownership in the machine\<close>

fun ir_kind :: "function_kind \<Rightarrow> ir_function_kind" where
  "ir_kind Destructor = KDestructor"
| "ir_kind ReleaseFields = KReleaseFields"

definition own_env :: "('p, 'w) machine_env \<Rightarrow> ('p, 'w) core_ops \<Rightarrow> span \<Rightarrow> ('p, 'w) parts env" where
  "own_env env ops sp =
     \<lparr>e_reserve = v_reserve env,
      e_layouts = (\<lambda>cls. map_option (\<lambda>layout. map fe_weak (fl_fields layout)) (find_layout (v_module env) cls)),
      e_function_of_kind = (\<lambda>kind cls. map_option fn_name (function_of_kind (v_module env) (ir_kind kind) cls)),
      e_call = (\<lambda>name v st. and_then (o_call ops name [v] sp st) (\<lambda>_. answer ())),
      e_host_retain = (\<lambda>v. host_retain env v sp),
      e_library_retain = (\<lambda>v. library_retain env v sp),
      e_object_destroyed = notify_object_destroyed env\<rparr>"

section \<open>Serving a call\<close>

definition answer_request ::
  "('p, 'w) machine_env \<Rightarrow> ('p, 'w) core_ops \<Rightarrow> ('p, 'w) request \<Rightarrow> ('p, 'w) machine \<Rightarrow>
     (('p, 'w) machine \<times> ('p, 'w) reply) outcome" where
  "answer_request env ops q st =
     (case q of
        AskCall name arguments sp \<Rightarrow>
          bind_outcome (o_call ops name arguments sp st) (\<lambda>(st', r). Done (st', GotValue r))
      | AskLibraryCall library member arguments sp \<Rightarrow>
          bind_outcome (o_library_call ops library member arguments sp st) (\<lambda>(st', r). Done (st', GotValue r))
      | AskMemory \<Rightarrow> Done (st, GotMemory (i_memory st))
      | AskSetMemory memory \<Rightarrow> Done (st\<lparr>i_memory := memory\<rparr>, GotDone)
      | AskWorld \<Rightarrow> Done (st, GotWorld (x_world (i_libs st)))
      | AskSetWorld w \<Rightarrow> Done (on_rest (\<lambda>s. s\<lparr>x_world := w\<rparr>) st, GotDone)
      | AskAllocateObject cls sp \<Rightarrow>
          bind_outcome (allocate_object (own_env env ops sp) cls sp st) (\<lambda>(st', r). Done (st', GotValue r))
      | AskLibraryAllocate library cls sp \<Rightarrow>
          (case library_allocate_in env library cls sp st of (st', r) \<Rightarrow> Done (st', GotOptional r))
      | AskLibraryRelease v sp \<Rightarrow>
          (case library_release env v sp (i_libs st) of (s, r) \<Rightarrow> Done (st\<lparr>i_libs := s\<rparr>, GotRelease r))
      | AskLibraryTake library \<Rightarrow>
          Done (on_rest (\<lambda>s. s\<lparr>x_libraries := AList.delete library (x_libraries s)\<rparr>) st,
            GotProvider (map_of (x_libraries (i_libs st)) library))
      | AskLibraryInsert library p \<Rightarrow>
          Done (on_rest (\<lambda>s. s\<lparr>x_libraries := AList.update library p (x_libraries s)\<rparr>) st, GotDone))"

primrec serve ::
  "('p, 'w) machine_env \<Rightarrow> ('p, 'w) core_ops \<Rightarrow> ('p, 'w) dialogue \<Rightarrow> ('p, 'w) machine \<Rightarrow>
     (('p, 'w) machine \<times> 'p \<times> (diagnostic + bn_value)) outcome" where
  "serve env ops (Answer p r) st = Done (st, p, r)"
| "serve env ops (Ask q k) st =
     bind_outcome (answer_request env ops q st) (\<lambda>(st', a). serve env ops (k a) st')"

definition library_call ::
  "('p, 'w) machine_env \<Rightarrow> ('p, 'w) core_ops \<Rightarrow> str \<Rightarrow> str \<Rightarrow> bn_value list \<Rightarrow> span \<Rightarrow> ('p, 'w) machine \<Rightarrow>
     ('p, 'w, bn_value) execution" where
  "library_call env ops library member arguments sp st =
     (case map_of (x_libraries (i_libs st)) library of
        None \<Rightarrow> Done (st, Inl (LIBRARY_PROVIDER_UNAVAILABLE (library @ '' provider unavailable'')))
      | Some p \<Rightarrow>
          bind_outcome
            (serve env ops (v_provider_call env p member arguments sp)
              (on_rest (\<lambda>s. s\<lparr>x_libraries := AList.delete library (x_libraries s)\<rparr>) st))
            (\<lambda>(st', p', r). Done (on_rest (\<lambda>s. s\<lparr>x_libraries := AList.update library p' (x_libraries s)\<rparr>) st', r)))"

definition host_provider_call ::
  "('p, 'w) machine_env \<Rightarrow> ('p, 'w) core_ops \<Rightarrow> str \<Rightarrow> str \<Rightarrow> bn_value list \<Rightarrow> span \<Rightarrow> ('p, 'w) machine \<Rightarrow>
     ('p, 'w, bn_value) execution" where
  "host_provider_call env ops capability member arguments sp st =
     (case map_of (x_hosts (i_libs st)) capability of
        None \<Rightarrow> Done (st, Inl (host_unavailable capability))
      | Some p \<Rightarrow>
          bind_outcome
            (serve env ops (v_provider_call env p member arguments sp)
              (on_rest (\<lambda>s. s\<lparr>x_hosts := AList.delete capability (x_hosts s)\<rparr>) st))
            (\<lambda>(st', p', r). Done (on_rest (\<lambda>s. s\<lparr>x_hosts := AList.update capability p' (x_hosts s)\<rparr>) st', r)))"

end
