(* ===== verification/BN_Machine_Data.thy ===== *)
theory BN_Machine_Data
  imports BN_Machine
begin

text \<open>
  What an instruction does to data: the frame (\<open>crates/bn_interp/src/frame_storage.rs\<close> and
  \<open>helpers.rs\<close>), indexing and regions of \<open>executor/part10.rs\<close>, members, field paths, defaults
  and sizes of \<open>executor/part11.rs\<close>, and the reads of \<open>executor/ownership.rs\<close>. A store
  through a mutable reference returns the changed value and the changed machine; where
  it fails nothing has been written, so the machine is the one before.
\<close>

section \<open>The frame\<close>

text \<open>A slot of \<open>ValueSlots\<close> is empty until its instruction has run.\<close>

record frame =
  f_symbols :: "symbol_id \<Rightarrow> bn_value option"
  f_values :: "value_id \<Rightarrow> bn_value option"

definition undefined_value :: "value_id \<Rightarrow> diagnostic" where
  "undefined_value i = INVALID_IR (''value %'' @ show_nat i @ '' is undefined'')"

definition value_at :: "frame \<Rightarrow> value_id \<Rightarrow> diagnostic + bn_value" where
  "value_at fr i = (case f_values fr i of None \<Rightarrow> Inl (undefined_value i) | Some v \<Rightarrow> Inr v)"

definition set_value :: "value_id \<Rightarrow> bn_value \<Rightarrow> frame \<Rightarrow> frame" where
  "set_value i v fr = fr\<lparr>f_values := (f_values fr)(i \<mapsto> v)\<rparr>"

definition set_symbol :: "symbol_id \<Rightarrow> bn_value \<Rightarrow> frame \<Rightarrow> frame" where
  "set_symbol i v fr = fr\<lparr>f_symbols := (f_symbols fr)(i \<mapsto> v)\<rparr>"

text \<open>A write of the replaced content, where the instruction asks for it.\<close>

definition set_previous :: "value_id option \<Rightarrow> bn_value \<Rightarrow> frame \<Rightarrow> frame" where
  "set_previous previous v fr = (case previous of None \<Rightarrow> fr | Some i \<Rightarrow> set_value i v fr)"

definition values_at :: "frame \<Rightarrow> value_id list \<Rightarrow> diagnostic + bn_value list" where
  "values_at fr = collect_results (value_at fr)"

definition integers_at :: "frame \<Rightarrow> value_id list \<Rightarrow> diagnostic + int list" where
  "integers_at fr =
     collect_results (\<lambda>i. try_sum (value_at fr i) (\<lambda>v. try_sum (integer_of v) (\<lambda>(n, _). Inr n)))"

section \<open>Indexing\<close>

definition NULL_INDEX :: diagnostic where
  "NULL_INDEX = NULL_POINTER_ACCESS ''cannot index a NULL pointer''"

definition checked_index :: "int \<Rightarrow> nat \<Rightarrow> str \<Rightarrow> diagnostic + nat" where
  "checked_index index len context =
     (if usize_ok index \<and> nat index < len then Inr (nat index) else Inl (INDEX_OUT_OF_BOUNDS index len context))"

definition string_character :: "str \<Rightarrow> int \<Rightarrow> diagnostic + bn_value" where
  "string_character s index =
     (if list_all is_ascii s
      then try_sum (checked_index index (length s) ''string'') (\<lambda>k. Inr (VString [s ! k]))
      else if usize_ok index \<and> nat index < length (chars s) then Inr (VString (chars s ! nat index))
      else Inl (INDEX_OUT_OF_BOUNDS index (length (chars s)) ''string''))"

definition index_value :: "('p, 'w) machine_env \<Rightarrow> ('p, 'w) machine \<Rightarrow> bn_value \<Rightarrow> int \<Rightarrow> diagnostic + bn_value" where
  "index_value env st obj index =
     (case obj of
        VNull \<Rightarrow> Inl NULL_INDEX
      | VVector vs \<Rightarrow> try_sum (checked_index index (length vs) ''vector'') (\<lambda>k. Inr (vs ! k))
      | VPointer h _ \<Rightarrow>
          try_sum (heap_len (i_memory st) h) (\<lambda>len.
            try_sum (checked_index index len ''region'') (\<lambda>k. heap_get (i_memory st) h k))
      | VString s \<Rightarrow> string_character s index
      | VHostArgs \<Rightarrow>
          try_sum (checked_index index (length (v_arguments env)) ''HOST.Args'') (\<lambda>k. Inr (VString (v_arguments env ! k)))
      | _ \<Rightarrow> Inl (TYPE_MISMATCH ''indexable value'' ''non-indexable value'' ''index operation''))"

fun indexed_value :: "bn_value \<Rightarrow> int list \<Rightarrow> diagnostic + bn_value" where
  "indexed_value v [] = Inr v"
| "indexed_value v (index # remaining) =
     (case v of
        VVector vs \<Rightarrow>
          try_sum (checked_index index (length vs) ''vector'') (\<lambda>k. indexed_value (vs ! k) remaining)
      | _ \<Rightarrow> Inl (TYPE_MISMATCH ''indexable value'' ''non-indexable value'' ''nested index operation''))"

definition element_at ::
  "('p, 'w) machine_env \<Rightarrow> ('p, 'w) machine \<Rightarrow> bn_value \<Rightarrow> int list \<Rightarrow> diagnostic + bn_value" where
  "element_at env st target indices =
     (case (target, indices) of
        (VNull, _) \<Rightarrow> Inr VNull
      | (VPointer _ _, [index]) \<Rightarrow> index_value env st target index
      | _ \<Rightarrow> indexed_value target indices)"

fun set_index :: "bn_value \<Rightarrow> int list \<Rightarrow> bn_value \<Rightarrow> ('p, 'w) machine \<Rightarrow> diagnostic + bn_value \<times> ('p, 'w) machine" where
  "set_index target [] stored st = Inr (stored, st)"
| "set_index target (index # remaining) stored st =
     (case target of
        VNull \<Rightarrow> Inl NULL_INDEX
      | VPointer h _ \<Rightarrow>
          if remaining \<noteq> [] then Inl (INDEX_OUT_OF_BOUNDS (int (length remaining) + 1) 1 ''pointer indexing'')
          else
            try_sum (heap_len (i_memory st) h) (\<lambda>len.
            try_sum (checked_index index len ''region'') (\<lambda>k.
            try_sum (heap_write (i_memory st) h k stored) (\<lambda>memory. Inr (target, st\<lparr>i_memory := memory\<rparr>))))
      | VVector vs \<Rightarrow>
          try_sum (checked_index index (length vs) ''vector'') (\<lambda>k.
          try_sum (set_index (vs ! k) remaining stored st) (\<lambda>(v, st'). Inr (VVector (vs[k := v]), st')))
      | _ \<Rightarrow> Inl (TYPE_MISMATCH ''indexable value'' ''non-indexable value'' ''assignment index operation''))"

text \<open>\<open>isize::MAX\<close>, the bound of an allocation in bytes.\<close>

definition isize_max :: int where
  "isize_max = 9223372036854775807"

definition allocate_region ::
  "('p, 'w) machine_env \<Rightarrow> bn_type \<Rightarrow> value_id list \<Rightarrow> frame \<Rightarrow> span \<Rightarrow> ('p, 'w) machine \<Rightarrow> ('p, 'w, bn_value) execution" where
  "allocate_region env element arguments fr sp st =
     and_then
       (lift_sum
          (try_sum
             (case arguments of
                [] \<Rightarrow> Inr 1
              | a # _ \<Rightarrow>
                  try_sum (value_at fr a) (\<lambda>v. try_sum (integer_of v) (\<lambda>(count, _).
                    if count < 0 then Inl (ALLOCATION_SIZE_INVALID ''numeric NEW length cannot be negative'')
                    else if \<not> usize_ok count then Inl (ALLOCATION_SIZE_OVERFLOW ''allocation length does not fit the host'')
                    else Inr count)))
             (\<lambda>count.
                case pointer_element_size element of
                  None \<Rightarrow> Inl pointer_mismatch
                | Some element_size \<Rightarrow>
                    (case try_fit u64_ok (count * element_size) of
                       None \<Rightarrow> Inl (ALLOCATION_SIZE_OVERFLOW ''allocation byte size overflowed'')
                     | Some bytes \<Rightarrow>
                         if bytes > isize_max then Inl (ALLOCATION_TOO_LARGE ''allocation exceeds the host limit'')
                         else try_sum (pointer_element_default element) (\<lambda>initial. Inr (nat count, initial)))))
          st)
       (\<lambda>(count, initial) st.
          bind_outcome (register_allocation (display_element element) sp st) (\<lambda>(st1, h).
            bind_outcome (heap_insert (v_reserve env) (i_memory st1) h count initial) (\<lambda>r.
              case r of
                Inl e \<Rightarrow> Done (st1, Inl e)
              | Inr memory \<Rightarrow>
                  answer (VPointer h (case member_code element of Some c \<Rightarrow> c | None \<Rightarrow> 0))
                    (st1\<lparr>i_memory := memory\<rparr>))))"

section \<open>Fields\<close>

definition object_field :: "('p, 'w) machine \<Rightarrow> handle \<Rightarrow> nat \<Rightarrow> diagnostic \<Rightarrow> diagnostic + bn_value" where
  "object_field st h slot missing =
     try_sum (heap_get (i_objects st) h 0) (\<lambda>inst.
       if slot < length (inst_fields inst) then Inr (inst_fields inst ! slot) else Inl missing)"

definition write_object_field ::
  "('p, 'w) machine \<Rightarrow> handle \<Rightarrow> nat \<Rightarrow> bn_value \<Rightarrow> diagnostic \<Rightarrow> diagnostic + ('p, 'w) machine" where
  "write_object_field st h slot v missing =
     try_sum (heap_get (i_objects st) h 0) (\<lambda>inst.
       if slot < length (inst_fields inst)
       then try_sum (heap_write (i_objects st) h 0 (inst\<lparr>inst_fields := (inst_fields inst)[slot := v]\<rparr>))
              (\<lambda>objects. Inr (st\<lparr>i_objects := objects\<rparr>))
       else Inl missing)"

definition field_slot :: "field_ref option \<Rightarrow> diagnostic + nat" where
  "field_slot field =
     (case field of
        None \<Rightarrow> Inl (INVALID_IR ''record/object member lacks a resolved field slot'')
      | Some f \<Rightarrow> Inr (fr_slot f))"

definition record_field :: "record_value \<Rightarrow> nat \<Rightarrow> diagnostic \<Rightarrow> diagnostic + bn_value" where
  "record_field r slot missing = (case record_get r slot of None \<Rightarrow> Inl missing | Some v \<Rightarrow> Inr v)"

definition replace_field :: "record_value \<Rightarrow> nat \<Rightarrow> bn_value \<Rightarrow> diagnostic \<Rightarrow> diagnostic + record_value" where
  "replace_field r slot v missing =
     (case record_replace r slot v of (r', old) \<Rightarrow> (case old of None \<Rightarrow> Inl missing | Some _ \<Rightarrow> Inr r'))"

definition SLOT_ABSENT :: diagnostic where
  "SLOT_ABSENT = INVALID_IR ''record field slot is absent''"

text \<open>\<open>self.objects.get\<close> comes before the slot of the reference is asked for.\<close>

definition referenced_field :: "('p, 'w) machine \<Rightarrow> handle \<Rightarrow> field_ref option \<Rightarrow> diagnostic \<Rightarrow> diagnostic + bn_value" where
  "referenced_field st h field missing =
     try_sum (heap_get (i_objects st) h 0) (\<lambda>_.
     try_sum (field_slot field) (\<lambda>slot. object_field st h slot missing))"

definition member_of ::
  "('p, 'w) machine_env \<Rightarrow> ('p, 'w) machine \<Rightarrow> bn_value \<Rightarrow> str \<Rightarrow> field_ref option \<Rightarrow> diagnostic + bn_value" where
  "member_of env st obj name field =
     (case obj of
        VError code message detail \<Rightarrow>
          if name = ''Code'' then Inr (VInteger code Int32)
          else if name = ''Message'' then Inr (VString message)
          else if name = ''Operation'' \<or> name = ''Cause'' then Inr (VString (error_detail_field detail (name = ''Cause'')))
          else Inl (NAME_NOT_FOUND name ''member lookup'')
      | VRecord r \<Rightarrow>
          (case field of
             None \<Rightarrow> Inl (INVALID_IR ''record member lacks a field slot'')
           | Some f \<Rightarrow> record_field r (fr_slot f) (NAME_NOT_FOUND name ''record member''))
      | VObject h _ \<Rightarrow>
          try_sum (referenced_field st h field (NAME_NOT_FOUND name ''object member'')) (\<lambda>v.
            Inr (case field of
                   Some f \<Rightarrow> if field_is_weak (v_module env) f then weak_read st v else v
                 | None \<Rightarrow> v))
      | _ \<Rightarrow> Inl (NAME_NOT_FOUND name ''member lookup''))"

definition store_slot :: "field_ref option \<Rightarrow> diagnostic + nat" where
  "store_slot field =
     (case field of None \<Rightarrow> Inl (INVALID_IR ''record member store lacks a field slot'') | Some f \<Rightarrow> Inr (fr_slot f))"

definition set_member_value ::
  "frame \<Rightarrow> value_id \<Rightarrow> str \<Rightarrow> field_ref option \<Rightarrow> bn_value \<Rightarrow> ('p, 'w) machine \<Rightarrow> diagnostic + frame \<times> ('p, 'w) machine" where
  "set_member_value fr obj name field stored st =
     (case f_values fr obj of
        Some (VObject h _) \<Rightarrow>
          try_sum (referenced_field st h field (NAME_NOT_FOUND name ''object member'')) (\<lambda>_.
          try_sum (field_slot field) (\<lambda>slot.
          try_sum (write_object_field st h slot stored (NAME_NOT_FOUND name ''object member'')) (\<lambda>st'. Inr (fr, st'))))
      | Some (VRecord r) \<Rightarrow>
          try_sum (store_slot field) (\<lambda>slot.
          try_sum (replace_field r slot stored (NAME_NOT_FOUND name ''record member'')) (\<lambda>r'.
            Inr (set_value obj (VRecord r') fr, st)))
      | _ \<Rightarrow> Inl (NAME_NOT_FOUND name ''member assignment''))"

definition set_member_index_value ::
  "frame \<Rightarrow> value_id \<Rightarrow> str \<Rightarrow> field_ref option \<Rightarrow> int list \<Rightarrow> bn_value \<Rightarrow> ('p, 'w) machine \<Rightarrow>
     diagnostic + frame \<times> ('p, 'w) machine" where
  "set_member_index_value fr obj name field indices stored st =
     (case f_values fr obj of
        Some (VObject h _) \<Rightarrow>
          try_sum (referenced_field st h field (NAME_NOT_FOUND name ''object member'')) (\<lambda>target.
          try_sum (set_index target indices stored st) (\<lambda>(target', st').
          try_sum (field_slot field) (\<lambda>slot.
          try_sum (write_object_field st' h slot target' (NAME_NOT_FOUND name ''object member'')) (\<lambda>st''. Inr (fr, st'')))))
      | Some (VRecord r) \<Rightarrow>
          try_sum (store_slot field) (\<lambda>slot.
          try_sum (record_field r slot (NAME_NOT_FOUND name ''record member'')) (\<lambda>target.
          try_sum (set_index target indices stored st) (\<lambda>(target', st').
          try_sum (replace_field r slot target' SLOT_ABSENT) (\<lambda>r'. Inr (set_value obj (VRecord r') fr, st')))))
      | _ \<Rightarrow> Inl (NAME_NOT_FOUND name ''indexed member assignment''))"

text \<open>A store at the end of a field path: the record or object at the root holds the
  changed field, which is a changed copy of the nested record, or the same reference.\<close>

fun set_field_index_path ::
  "bn_value \<Rightarrow> str list \<Rightarrow> field_ref list \<Rightarrow> int list \<Rightarrow> bn_value \<Rightarrow> ('p, 'w) machine \<Rightarrow>
     diagnostic + bn_value \<times> ('p, 'w) machine" where
  "set_field_index_path target [] fs indices stored st = set_index target indices stored st"
| "set_field_index_path target (name # path) [] indices stored st = Inl (INVALID_IR ''field path lacks a resolved slot'')"
| "set_field_index_path target (name # path) (f # fs) indices stored st =
     (case target of
        VRecord r \<Rightarrow>
          try_sum (record_field r (fr_slot f) (NAME_NOT_FOUND name ''nested record member'')) (\<lambda>nested.
          try_sum (set_field_index_path nested path fs indices stored st) (\<lambda>(nested', st').
          try_sum (replace_field r (fr_slot f) nested' SLOT_ABSENT) (\<lambda>r'. Inr (VRecord r', st'))))
      | VObject h _ \<Rightarrow>
          try_sum (object_field st h (fr_slot f) (NAME_NOT_FOUND name ''nested object member'')) (\<lambda>nested.
          try_sum (set_field_index_path nested path fs indices stored st) (\<lambda>(nested', st').
          try_sum (write_object_field st' h (fr_slot f) nested' (NAME_NOT_FOUND name ''nested object member'')) (\<lambda>st''.
            Inr (target, st''))))
      | _ \<Rightarrow> Inl (TYPE_MISMATCH ''record or object'' ''value without fields'' ''field index assignment''))"

fun set_field_path ::
  "bn_value \<Rightarrow> str list \<Rightarrow> field_ref list \<Rightarrow> bn_value \<Rightarrow> ('p, 'w) machine \<Rightarrow> diagnostic + bn_value \<times> ('p, 'w) machine" where
  "set_field_path target [] fs stored st = Inr (stored, st)"
| "set_field_path target (name # path) [] stored st = Inl (INVALID_IR ''field path lacks a resolved slot'')"
| "set_field_path target (name # path) (f # fs) stored st =
     (case target of
        VRecord r \<Rightarrow>
          if path = [] then try_sum (replace_field r (fr_slot f) stored SLOT_ABSENT) (\<lambda>r'. Inr (VRecord r', st))
          else
            try_sum (record_field r (fr_slot f) (NAME_NOT_FOUND name ''nested record member'')) (\<lambda>nested.
            try_sum (set_field_path nested path fs stored st) (\<lambda>(nested', st').
            try_sum (replace_field r (fr_slot f) nested' SLOT_ABSENT) (\<lambda>r'. Inr (VRecord r', st'))))
      | VObject h _ \<Rightarrow>
          if path = [] then
            try_sum (write_object_field st h (fr_slot f) stored (NAME_NOT_FOUND name ''object member'')) (\<lambda>st'.
              Inr (target, st'))
          else
            try_sum (object_field st h (fr_slot f) (NAME_NOT_FOUND name ''nested object member'')) (\<lambda>nested.
            try_sum (set_field_path nested path fs stored st) (\<lambda>(nested', st').
            try_sum (write_object_field st' h (fr_slot f) nested' (NAME_NOT_FOUND name ''nested object member''))
              (\<lambda>st''. Inr (target, st''))))
      | _ \<Rightarrow> Inl (TYPE_MISMATCH ''record or object'' ''value without fields'' ''field assignment''))"

fun field_at :: "('p, 'w) machine \<Rightarrow> bn_value \<Rightarrow> field_ref list \<Rightarrow> diagnostic + bn_value" where
  "field_at st current [] = Inr current"
| "field_at st current (f # fs) =
     (let absent = INVALID_IR ''field path slot is absent''
      in try_sum
           (case current of
              VRecord r \<Rightarrow> record_field r (fr_slot f) absent
            | VObject h _ \<Rightarrow> object_field st h (fr_slot f) absent
            | _ \<Rightarrow> Inl absent)
           (\<lambda>v. field_at st v fs))"

section \<open>Types of stored values\<close>

definition coerce_to :: "('p, 'w) machine_env \<Rightarrow> ('p, 'w) machine \<Rightarrow> bn_value \<Rightarrow> bn_type \<Rightarrow> diagnostic + bn_value" where
  "coerce_to env st v ty =
     (if ty = TUnknown then Inr v
      else try_sum
        (case (v, ty) of
           (VPointer h element, TPointer target target_length) \<Rightarrow>
             if target = TNamed ''VOID'' then Inr ()
             else
               try_sum (heap_len (i_memory st) h) (\<lambda>len.
                 let to_len = (case target_length of LenFixed n \<Rightarrow> Some n | LenOne \<Rightarrow> Some 1 | LenDynamic \<Rightarrow> None)
                 in case check_restore element (int len) (case member_code target of Some c \<Rightarrow> c | None \<Rightarrow> 0) to_len of
                      RestoreOk \<Rightarrow> Inr ()
                    | TypeMismatch \<Rightarrow>
                        Inl (POINTER_TYPE_MISMATCH ''pointer element type does not match destination type'')
                    | LengthMismatch \<Rightarrow>
                        Inl (POINTER_LENGTH_MISMATCH (''pointer length '' @ show_nat len @ '' does not match '' @
                          show_int (case to_len of Some n \<Rightarrow> n | None \<Rightarrow> int len))))
         | _ \<Rightarrow> Inr ())
        (\<lambda>_. coerce (v_float env) v ty))"

section \<open>Defaults\<close>

definition empty_named_value :: "('p, 'w) machine_env \<Rightarrow> str \<Rightarrow> bn_value" where
  "empty_named_value env name =
     (if name \<in> {''DATE'', ''TIME'', ''TIMEZONE'', ''VOID'', ''Error''} then empty_named name
      else case find_layout (v_module env) name of
        None \<Rightarrow> empty_named name
      | Some layout \<Rightarrow> VRecord (RecordValue name (replicate (length (fl_fields layout)) VNull)))"

definition default_named ::
  "('p, 'w) machine_env \<Rightarrow> ('p, 'w) core_ops \<Rightarrow> str \<Rightarrow> span \<Rightarrow> ('p, 'w) machine \<Rightarrow> ('p, 'w, bn_value) execution" where
  "default_named env ops name sp st =
     (case function_of_kind (v_module env) KDefault name of
        Some f \<Rightarrow> o_call ops (fn_name f) [] sp st
      | None \<Rightarrow> answer (empty_named_value env name) st)"

text \<open>The dimensions of a vector: those of the instruction, or the declared ones. Lengths
  of 64 bits fit the index type of the hosts the code runs on.\<close>

definition vector_lengths :: "bn_type \<Rightarrow> int list \<Rightarrow> nat list \<Rightarrow> diagnostic + nat list" where
  "vector_lengths element declared dimensions =
     (let lengths = (if dimensions = [] then map nat declared else dimensions);
          element_size = (case static_size_of element of Some n \<Rightarrow> n | None \<Rightarrow> 1)
      in if lengths = [] then Inl (INVALID_IR ''vector default is missing its dimension'')
         else case checked_product element_size (map int lengths) of
           None \<Rightarrow> Inl (NUMERIC_OVERFLOW ''vector allocation size overflowed'')
         | Some n \<Rightarrow>
             if n > isize_max then Inl (NUMERIC_OVERFLOW ''vector allocation size overflowed'') else Inr lengths)"

definition nested_vector :: "nat list \<Rightarrow> bn_value \<Rightarrow> bn_value" where
  "nested_vector lengths v = fold (\<lambda>len v. VVector (replicate len v)) (rev lengths) v"

fun default_value ::
  "('p, 'w) machine_env \<Rightarrow> ('p, 'w) core_ops \<Rightarrow> bn_type \<Rightarrow> nat list \<Rightarrow> span \<Rightarrow> ('p, 'w) machine \<Rightarrow> ('p, 'w, bn_value) execution" where
  "default_value env ops TBoolean dims sp st = answer (VBoolean False) st"
| "default_value env ops (TInteger kind) dims sp st = answer (VInteger 0 kind) st"
| "default_value env ops (TFloat kind) dims sp st = answer (VFloat 0 kind) st"
| "default_value env ops TString dims sp st = answer (VString []) st"
| "default_value env ops (TVector element declared) dims sp st =
     and_then (lift_sum (vector_lengths element declared dims) st) (\<lambda>lengths st.
     and_then
       (case default_function_owner element of
          Some name \<Rightarrow> default_named env ops name sp st
        | None \<Rightarrow> default_value env ops element [] sp st)
       (\<lambda>v. answer (nested_vector lengths v)))"
| "default_value env ops (TAlternative types) dims sp st =
     (case types of
        [] \<Rightarrow> lift_sum (Inl (INVALID_IR ''empty alternative type'')) st
      | first # _ \<Rightarrow>
          if first = TNull then answer VNull st
          else if first = TNotAvailable then answer VNotAvailable st
          else if first = TEndOfFile then answer VEndOfFile st
          else default_value env ops first dims sp st)"
| "default_value env ops (TNamed name) dims sp st = answer (empty_named_value env name) st"
| "default_value env ops (TTypeName name) dims sp st = answer (empty_named_value env name) st"
| "default_value env ops (TImportedNamed i name) dims sp st =
     answer (empty_named_value env (''#'' @ show_int i @ ''.'' @ name)) st"
| "default_value env ops (TImportedTypeName i name) dims sp st =
     answer (empty_named_value env (''#'' @ show_int i @ ''.'' @ name)) st"
| "default_value env ops THostClock dims sp st = answer (VType ''HOST.Clock'') st"
| "default_value env ops THostRandom dims sp st = answer (VType ''HOST.Random'') st"
| "default_value env ops THostFileSystem dims sp st = answer (VType ''HOST.FileSystem'') st"
| "default_value env ops THostNet dims sp st = answer (VType ''HOST.Net'') st"
| "default_value env ops THostExec dims sp st = answer (VType ''HOST.Exec'') st"
| "default_value env ops THostEnv dims sp st = answer (VType ''HOST.Env'') st"
| "default_value env ops _ dims sp st = lift_sum (Inl (UNINITIALIZED_VALUE ''type has no default value'')) st"

section \<open>Sizes\<close>

fun size_of_value :: "bn_value \<Rightarrow> diagnostic + bn_value"
  and size_of_parts :: "int \<Rightarrow> bn_value list \<Rightarrow> diagnostic + int" where
  "size_of_value (VInteger _ kind) = integer_from_u64 (integer_byte_size kind)"
| "size_of_value (VFloat _ kind) = integer_from_u64 (case kind of Float32 \<Rightarrow> 4 | Float64 \<Rightarrow> 8)"
| "size_of_value (VDate _) = integer_from_u64 4"
| "size_of_value (VTime _) = integer_from_u64 4"
| "size_of_value (VBoolean _) = integer_from_u64 1"
| "size_of_value (VString s) = integer_from_u64 (int (length s))"
| "size_of_value (VVector vs) = try_sum (size_of_parts 0 vs) integer_from_u64"
| "size_of_value (VRecord (RecordValue _ vs)) = try_sum (size_of_parts 0 vs) integer_from_u64"
| "size_of_value _ = Inl (TYPE_MISMATCH ''sized value'' ''unsized value'' ''SIZE operation'')"
| "size_of_parts so_far [] = Inr so_far"
| "size_of_parts so_far (v # vs) =
     try_sum (size_of_value v) (\<lambda>n. try_sum (add_sizes so_far n) (\<lambda>so_far'. size_of_parts so_far' vs))"

end
