(* ===== verification/BN_Machine_Exec.thy ===== *)
theory BN_Machine_Exec
  imports BN_Machine_Data BN_IR_Validate
begin

text \<open>
  Execution: the instructions (\<open>crates/bn_interp/src/executor/part2.rs\<close>), functions, blocks
  and class initialisation (\<open>part1.rs\<close>), calls (\<open>part3.rs\<close>, \<open>part7.rs\<close>, dispatch of
  \<open>part10.rs\<close>) and the drivers of \<open>lib.rs\<close>. A part that calls the
  interpreter back takes \<open>core_ops\<close>; \<open>core\<close> ties the knot with fuel, which bounds the
  nesting of calls and the blocks of one activation. No answer, \<open>Panic\<close>, is a panic of the
  code or the end of the fuel; every other answer is one the code gives, and more fuel
  gives the same.
\<close>

section \<open>Streams\<close>

definition world_step ::
  "('w \<Rightarrow> 'w \<times> str option) \<Rightarrow> str \<Rightarrow> ('p, 'w) machine \<Rightarrow> ('p, 'w, unit) execution" where
  "world_step f message st =
     (case f (x_world (i_libs st)) of
        (w, failed) \<Rightarrow>
          Done (on_rest (\<lambda>s. s\<lparr>x_world := w\<rparr>) st,
            case failed of None \<Rightarrow> Inr () | Some e \<Rightarrow> Inl (OUTPUT_ERROR (message @ e))))"

definition write_text :: "('p, 'w) machine_env \<Rightarrow> str \<Rightarrow> ('p, 'w) machine \<Rightarrow> ('p, 'w, unit) execution" where
  "write_text env s = world_step (v_write env s) ''cannot write output: ''"

definition flush_output :: "('p, 'w) machine_env \<Rightarrow> ('p, 'w) machine \<Rightarrow> ('p, 'w, unit) execution" where
  "flush_output env = world_step (v_flush env) ''cannot flush output: ''"

definition require_console :: "bn_value \<Rightarrow> diagnostic + unit" where
  "require_console v =
     (case v of VHostConsole \<Rightarrow> Inr () | _ \<Rightarrow> Inl (TYPE_MISMATCH ''HOST.Console'' ''non-console value'' ''console operation''))"

section \<open>Instructions\<close>

text \<open>\<open>value(values, i, span)?\<close> and an owned copy of it.\<close>

definition with_value ::
  "frame \<Rightarrow> value_id \<Rightarrow> (bn_value \<Rightarrow> ('p, 'w) machine \<Rightarrow> ('p, 'w, 'a) execution) \<Rightarrow> ('p, 'w) machine \<Rightarrow> ('p, 'w, 'a) execution" where
  "with_value fr i f st = and_then (lift_sum (value_at fr i) st) f"

definition exec_retain ::
  "('p, 'w) machine_env \<Rightarrow> ('p, 'w) core_ops \<Rightarrow> span \<Rightarrow> value_id \<Rightarrow> value_id \<Rightarrow> frame \<Rightarrow> ('p, 'w) machine \<Rightarrow> ('p, 'w, frame) execution" where
  "exec_retain env ops sp d source fr =
     with_value fr source (\<lambda>v st.
       and_then (retain_owned_value (own_env env ops sp) sp v st) (\<lambda>_. answer (set_value d v fr)))"

definition exec_take :: "value_id \<Rightarrow> symbol_id \<Rightarrow> frame \<Rightarrow> ('p, 'w) machine \<Rightarrow> ('p, 'w, frame) execution" where
  "exec_take d i fr =
     answer (set_value d (case f_symbols fr i of None \<Rightarrow> VNull | Some v \<Rightarrow> v) (fr\<lparr>f_symbols := (f_symbols fr)(i := None)\<rparr>))"

definition exec_take_member ::
  "value_id \<Rightarrow> value_id \<Rightarrow> field_ref option \<Rightarrow> str \<Rightarrow> frame \<Rightarrow> ('p, 'w) machine \<Rightarrow> ('p, 'w, frame) execution" where
  "exec_take_member d obj field name fr =
     with_value fr obj (\<lambda>v st.
       case v of
         VObject h _ \<Rightarrow>
           and_then (lift_sum (field_slot field) st) (\<lambda>slot st.
           let missing = NAME_NOT_FOUND name ''object member''
           in and_then (lift_sum (object_field st h slot missing) st) (\<lambda>taken st.
              and_then (lift_sum (write_object_field st h slot VNull missing) st) (\<lambda>st' _.
                answer (set_value d taken fr) st')))
       | _ \<Rightarrow> lift_sum (Inl (INVALID_IR ''TakeMember needs an object'')) st)"

text \<open>The top ownership frame; an instruction outside a frame is a panic.\<close>

definition exec_end_binding :: "symbol_id \<Rightarrow> frame \<Rightarrow> ('p, 'w) machine \<Rightarrow> ('p, 'w, frame) execution" where
  "exec_end_binding i fr st =
     (case x_frames (i_libs st) of
        [] \<Rightarrow> Panic
      | f # fs \<Rightarrow>
          if i \<in> released_symbols f then lift_sum (Inl (DOUBLE_RELEASE ''binding was already released'')) st
          else answer fr (on_rest (\<lambda>s. s\<lparr>
              x_frames := f\<lparr>released_symbols := insert i (released_symbols f)\<rparr> # fs,
              x_captured :=
                (if x_call_depth s = 0 then map_option (\<lambda>captured. captured(i := None)) (x_captured s)
                 else x_captured s)\<rparr>) st))"

definition exec_constant ::
  "('p, 'w) machine_env \<Rightarrow> value_id \<Rightarrow> ir_constant \<Rightarrow> bn_type \<Rightarrow> frame \<Rightarrow> ('p, 'w) machine \<Rightarrow> ('p, 'w, frame) execution" where
  "exec_constant env d c ty fr st =
     (if f_values fr d \<noteq> None then answer fr st
      else and_then (lift_outcome (constant_value (v_float env) (v_parse_f64 env) c ty) st)
             (\<lambda>v. answer (set_value d v fr)))"

definition dynamic_dimension :: "frame \<Rightarrow> value_id \<Rightarrow> diagnostic + nat" where
  "dynamic_dimension fr i =
     (case f_values fr i of
        None \<Rightarrow> Inl (UNINITIALIZED_VALUE ''vector dimension is unavailable'')
      | Some v \<Rightarrow>
          try_sum (integer_of v) (\<lambda>(n, _).
            if usize_ok n then Inr (nat n)
            else if n < 0 then Inl (INVALID_VECTOR_DIMENSION ''vector dimension must be a non-negative size'')
            else Inl (NUMERIC_OVERFLOW ''vector dimension must be a non-negative size'')))"

definition exec_default ::
  "('p, 'w) machine_env \<Rightarrow> ('p, 'w) core_ops \<Rightarrow> span \<Rightarrow> value_id \<Rightarrow> bn_type \<Rightarrow> nat list \<Rightarrow> value_id list \<Rightarrow> frame \<Rightarrow>
     ('p, 'w) machine \<Rightarrow> ('p, 'w, frame) execution" where
  "exec_default env ops sp d ty dims dynamic fr st =
     and_then (lift_sum (collect_results (dynamic_dimension fr) dynamic) st) (\<lambda>evaluated st.
     and_then (default_value env ops ty (dims @ evaluated) sp st) (\<lambda>v. answer (set_value d v fr)))"

definition exec_load :: "value_id \<Rightarrow> symbol_id \<Rightarrow> frame \<Rightarrow> ('p, 'w) machine \<Rightarrow> ('p, 'w, frame) execution" where
  "exec_load d i fr st =
     (let (released, weak) =
            (case x_frames (i_libs st) of [] \<Rightarrow> (False, False) | f # _ \<Rightarrow> (is_released f i, is_weak f i))
      in if released then lift_sum (Inl (USE_AFTER_RELEASE ''binding was released'')) st
         else case f_symbols fr i of
           None \<Rightarrow> lift_sum (Inl (UNINITIALIZED_VALUE ''binding has no value'')) st
         | Some v \<Rightarrow> answer (set_value d (if weak then weak_read st v else v) fr) st)"

definition length_differs :: "bn_value option \<Rightarrow> bn_value \<Rightarrow> bool" where
  "length_differs previous stored \<longleftrightarrow>
     (case (previous, stored) of
        (Some (VVector a), VVector b) \<Rightarrow> length a \<noteq> length b
      | _ \<Rightarrow> False)"

definition exec_store ::
  "('p, 'w) machine_env \<Rightarrow> symbol_id \<Rightarrow> value_id \<Rightarrow> value_id option \<Rightarrow> bn_type \<Rightarrow> frame \<Rightarrow> ('p, 'w) machine \<Rightarrow>
     ('p, 'w, frame) execution" where
  "exec_store env i source previous ty fr st =
     (if i \<in> x_restored (i_libs st) then answer fr (on_rest (\<lambda>s. s\<lparr>x_restored := x_restored s - {i}\<rparr>) st)
      else with_value fr source (\<lambda>v st.
        and_then (lift_sum (coerce_to env st v ty) st) (\<lambda>stored st.
          if length_differs (f_symbols fr i) stored then
            lift_sum (Inl (VECTOR_LENGTH_MISMATCH ''assigned vector length differs from the declared length'')) st
          else
            (case x_frames (i_libs st) of
               [] \<Rightarrow> Panic
             | f # fs \<Rightarrow>
                 answer
                   (set_previous previous (case f_symbols fr i of None \<Rightarrow> VNull | Some old \<Rightarrow> old) (set_symbol i stored fr))
                   (on_rest (\<lambda>s. s\<lparr>
                      x_frames := f\<lparr>released_symbols := released_symbols f - {i}\<rparr> # fs,
                      x_captured :=
                        (if x_call_depth s = 0 then map_option (\<lambda>captured. captured(i \<mapsto> stored)) (x_captured s)
                         else x_captured s)\<rparr>) st)))) st)"

definition exec_copy ::
  "('p, 'w) machine_env \<Rightarrow> value_id \<Rightarrow> value_id \<Rightarrow> bn_type \<Rightarrow> frame \<Rightarrow> ('p, 'w) machine \<Rightarrow> ('p, 'w, frame) execution" where
  "exec_copy env d source ty fr =
     with_value fr source (\<lambda>v st. and_then (lift_sum (coerce_to env st v ty) st) (\<lambda>w. answer (set_value d w fr)))"

definition exec_unary ::
  "('p, 'w) machine_env \<Rightarrow> value_id \<Rightarrow> str \<Rightarrow> value_id \<Rightarrow> bn_type \<Rightarrow> frame \<Rightarrow> ('p, 'w) machine \<Rightarrow> ('p, 'w, frame) execution" where
  "exec_unary env d operator operand ty fr =
     with_value fr operand (\<lambda>v st.
       and_then (lift_sum (unary (v_float env) operator v ty) st) (\<lambda>w. answer (set_value d w fr)))"

definition exec_binary ::
  "('p, 'w) machine_env \<Rightarrow> value_id \<Rightarrow> str \<Rightarrow> value_id \<Rightarrow> value_id \<Rightarrow> bn_type \<Rightarrow> frame \<Rightarrow> ('p, 'w) machine \<Rightarrow>
     ('p, 'w, frame) execution" where
  "exec_binary env d operator left right ty fr =
     with_value fr left (\<lambda>l st.
     and_then
       (lift_sum (case l of VPointer h _ \<Rightarrow> map_sum id (\<lambda>n. Some (int n)) (heap_len (i_memory st) h) | _ \<Rightarrow> Inr None) st)
       (\<lambda>pointer_len. with_value fr right (\<lambda>r st.
          and_then (lift_sum (binary (v_float env) operator l r ty (m_class_model (v_module env)) pointer_len) st)
            (\<lambda>w. answer (set_value d w fr)))))"

definition exec_cast ::
  "('p, 'w) machine_env \<Rightarrow> value_id \<Rightarrow> value_id \<Rightarrow> bn_type \<Rightarrow> frame \<Rightarrow> ('p, 'w) machine \<Rightarrow> ('p, 'w, frame) execution" where
  "exec_cast env d source ty fr =
     with_value fr source (\<lambda>v st. and_then (lift_sum (cast (v_float env) v ty) st) (\<lambda>w. answer (set_value d w fr)))"

text \<open>An operand of an intrinsic; past the arguments it is a panic.\<close>

definition operand ::
  "frame \<Rightarrow> value_id list \<Rightarrow> nat \<Rightarrow> (bn_value \<Rightarrow> ('p, 'w) machine \<Rightarrow> ('p, 'w, 'a) execution) \<Rightarrow> ('p, 'w) machine \<Rightarrow> ('p, 'w, 'a) execution" where
  "operand fr arguments k f st = (if k < length arguments then with_value fr (arguments ! k) f st else Panic)"

definition borrowed_intrinsic ::
  "str \<Rightarrow> value_id list \<Rightarrow> frame \<Rightarrow> ('p, 'w) machine \<Rightarrow> ('p, 'w, bn_value) execution option" where
  "borrowed_intrinsic name arguments fr st =
     (if name = ''$for_condition'' then
        Some (operand fr arguments 0 (\<lambda>a. operand fr arguments 1 (\<lambda>b. operand fr arguments 2 (\<lambda>c st.
          lift_sum (for_condition a b c) st))) st)
      else if name = ''$for_fits'' then
        Some (operand fr arguments 0 (\<lambda>a. operand fr arguments 1 (\<lambda>b st. lift_sum (for_fits a b) st)) st)
      else None)"

definition exec_call ::
  "('p, 'w) machine_env \<Rightarrow> ('p, 'w) core_ops \<Rightarrow> span \<Rightarrow> value_id \<Rightarrow> value_id \<Rightarrow> value_id list \<Rightarrow> bn_type \<Rightarrow> frame \<Rightarrow>
     ('p, 'w) machine \<Rightarrow> ('p, 'w, frame) execution" where
  "exec_call env ops sp d callee arguments ty fr =
     with_value fr callee (\<lambda>v st.
       case v of
         VFunction name \<Rightarrow>
           and_then
             (case borrowed_intrinsic name arguments fr st of
                Some r \<Rightarrow> r
              | None \<Rightarrow> and_then (lift_sum (values_at fr arguments) st) (\<lambda>args. o_call ops name args sp))
             (\<lambda>w st.
                if x_stop_code (i_libs st) \<noteq> None then answer (set_value d w fr) st
                else and_then (lift_sum (coerce_to env st w ty) st) (\<lambda>w'. answer (set_value d w' fr)))
       | _ \<Rightarrow> lift_sum (Inl (TYPE_MISMATCH ''FUNCTION'' ''non-callable value'' ''function call'')) st)"

definition strip_line_end :: "str \<Rightarrow> str" where
  "strip_line_end s = rev (dropWhile (\<lambda>b. byte b = 10 \<or> byte b = 13) (rev s))"

definition exec_input ::
  "('p, 'w) machine_env \<Rightarrow> value_id \<Rightarrow> value_id option \<Rightarrow> bn_type \<Rightarrow> frame \<Rightarrow> ('p, 'w) machine \<Rightarrow> ('p, 'w, frame) execution" where
  "exec_input env d prompt ty fr st =
     and_then
       (case prompt of
          None \<Rightarrow> answer () st
        | Some p \<Rightarrow>
            with_value fr p (\<lambda>v st.
              and_then (write_text env (render (v_float env) v) st) (\<lambda>_. flush_output env)) st)
       (\<lambda>_ st.
          case v_read_line env (x_world (i_libs st)) of
            (w, r) \<Rightarrow>
              let st' = on_rest (\<lambda>s. s\<lparr>x_world := w\<rparr>) st
              in (case r of
                    Inl e \<Rightarrow> lift_sum (Inl (INPUT_ERROR (''cannot read input: '' @ e))) st'
                  | Inr line \<Rightarrow>
                      answer
                        (set_value d
                           (if line = [] then if ty = TString then VString [] else VEndOfFile
                            else VString (strip_line_end line)) fr) st'))"

definition exec_vector :: "value_id \<Rightarrow> value_id list \<Rightarrow> frame \<Rightarrow> ('p, 'w) machine \<Rightarrow> ('p, 'w, frame) execution" where
  "exec_vector d elements fr st =
     and_then (lift_sum (values_at fr elements) st) (\<lambda>vs. answer (set_value d (VVector vs) fr))"

definition exec_index ::
  "('p, 'w) machine_env \<Rightarrow> value_id \<Rightarrow> value_id \<Rightarrow> value_id \<Rightarrow> frame \<Rightarrow> ('p, 'w) machine \<Rightarrow> ('p, 'w, frame) execution" where
  "exec_index env d obj index fr =
     with_value fr index (\<lambda>i st.
     and_then (lift_sum (integer_of i) st) (\<lambda>(n, _).
     with_value fr obj (\<lambda>v st. and_then (lift_sum (index_value env st v n) st) (\<lambda>e. answer (set_value d e fr)))))"

definition exec_member ::
  "('p, 'w) machine_env \<Rightarrow> value_id \<Rightarrow> value_id \<Rightarrow> field_ref option \<Rightarrow> str \<Rightarrow> frame \<Rightarrow> ('p, 'w) machine \<Rightarrow>
     ('p, 'w, frame) execution" where
  "exec_member env d obj field name fr =
     with_value fr obj (\<lambda>v st. and_then (lift_sum (member_of env st v name field) st) (\<lambda>m. answer (set_value d m fr)))"

definition length_of_value ::
  "('p, 'w) machine_env \<Rightarrow> ('p, 'w) machine \<Rightarrow> bn_value \<Rightarrow> diagnostic + bn_value" where
  "length_of_value env st v =
     (case v of
        VVector vs \<Rightarrow> integer_from_count (length vs)
      | VString s \<Rightarrow> integer_from_count (length (chars s))
      | VHostArgs \<Rightarrow> integer_from_count (length (v_arguments env))
      | VPointer h _ \<Rightarrow> try_sum (heap_len (i_memory st) h) integer_from_count
      | VNull \<Rightarrow> Inl (NULL_POINTER_ACCESS ''cannot read the length of a NULL pointer'')
      | VInteger _ _ \<Rightarrow> Inr (VInteger 1 Int32)
      | VFloat _ _ \<Rightarrow> Inr (VInteger 1 Int32)
      | _ \<Rightarrow> Inl (TYPE_MISMATCH ''length-bearing value'' ''value without length'' ''LEN''))"

definition exec_length ::
  "('p, 'w) machine_env \<Rightarrow> value_id \<Rightarrow> value_id \<Rightarrow> frame \<Rightarrow> ('p, 'w) machine \<Rightarrow> ('p, 'w, frame) execution" where
  "exec_length env d vector fr =
     with_value fr vector (\<lambda>v st. and_then (lift_sum (length_of_value env st v) st) (\<lambda>n. answer (set_value d n fr)))"

definition exec_size_of :: "value_id \<Rightarrow> value_id \<Rightarrow> frame \<Rightarrow> ('p, 'w) machine \<Rightarrow> ('p, 'w, frame) execution" where
  "exec_size_of d source fr =
     with_value fr source (\<lambda>v st. and_then (lift_sum (size_of_value v) st) (\<lambda>n. answer (set_value d n fr)))"

fun print_values ::
  "('p, 'w) machine_env \<Rightarrow> bool \<Rightarrow> value_id list \<Rightarrow> frame \<Rightarrow> ('p, 'w) machine \<Rightarrow> ('p, 'w, unit) execution" where
  "print_values env first [] fr st = answer () st"
| "print_values env first (i # is) fr st =
     and_then (if first then answer () st else write_text env '' '' st) (\<lambda>_.
     with_value fr i (\<lambda>v st.
       and_then (write_text env (render (v_float env) v) st) (\<lambda>_. print_values env False is fr)))"

definition exec_print ::
  "('p, 'w) machine_env \<Rightarrow> value_id list \<Rightarrow> frame \<Rightarrow> ('p, 'w) machine \<Rightarrow> ('p, 'w, frame) execution" where
  "exec_print env printed fr st =
     and_then (print_values env True printed fr st) (\<lambda>_ st.
     and_then (write_text env [char_of (10 :: nat)] st) (\<lambda>_. answer fr))"

definition exec_console ::
  "('p, 'w) machine_env \<Rightarrow> str \<Rightarrow> value_id \<Rightarrow> frame \<Rightarrow> ('p, 'w) machine \<Rightarrow> ('p, 'w, frame) execution" where
  "exec_console env code console fr =
     with_value fr console (\<lambda>v st.
     and_then (lift_sum (require_console v) st) (\<lambda>_ st.
     and_then (write_text env code st) (\<lambda>_. answer fr)))"

definition exec_clear_screen ::
  "('p, 'w) machine_env \<Rightarrow> value_id \<Rightarrow> frame \<Rightarrow> ('p, 'w) machine \<Rightarrow> ('p, 'w, frame) execution" where
  "exec_clear_screen env =
     exec_console env ([char_of (27 :: nat)] @ ''[2J'' @ [char_of (27 :: nat)] @ ''[H'')"

definition exec_beep ::
  "('p, 'w) machine_env \<Rightarrow> value_id \<Rightarrow> frame \<Rightarrow> ('p, 'w) machine \<Rightarrow> ('p, 'w, frame) execution" where
  "exec_beep env = exec_console env [char_of (7 :: nat)]"

definition exec_allocate ::
  "('p, 'w) machine_env \<Rightarrow> ('p, 'w) core_ops \<Rightarrow> span \<Rightarrow> value_id \<Rightarrow> str \<Rightarrow> value_id list \<Rightarrow> bn_type \<Rightarrow> frame \<Rightarrow>
     ('p, 'w) machine \<Rightarrow> ('p, 'w, frame) execution" where
  "exec_allocate env ops sp d name arguments ty fr st =
     and_then
       (case ty of
          TPointer element _ \<Rightarrow> allocate_region env element arguments fr sp st
        | _ \<Rightarrow>
            if is_host_file_type name then host_allocate env ''FileSystem'' ''File'' sp st
            else (case library_allocate env name sp st of
                    (st', Some r) \<Rightarrow> lift_sum r st'
                  | (st', None) \<Rightarrow> allocate_object (own_env env ops sp) name sp st'))
       (\<lambda>v. answer (set_value d v fr))"

definition release_value ::
  "('p, 'w) machine_env \<Rightarrow> ('p, 'w) core_ops \<Rightarrow> span \<Rightarrow> bn_value \<Rightarrow> ('p, 'w) machine \<Rightarrow> ('p, 'w, unit) execution" where
  "release_value env ops sp target st =
     (case target of
        VFile _ \<Rightarrow> (case host_release env target sp (i_libs st) of (s, r) \<Rightarrow> Done (st\<lparr>i_libs := s\<rparr>, r))
      | _ \<Rightarrow>
          let native =
                (case target of
                   VObject _ cls \<Rightarrow> find_layout (v_module env) cls = None
                 | VPointer _ _ \<Rightarrow> False | VVector _ \<Rightarrow> False | VRecord _ \<Rightarrow> False
                 | _ \<Rightarrow> True);
              (s, released) = (if native then library_release env target sp (i_libs st) else (i_libs st, None))
          in (case released of
                Some r \<Rightarrow> Done (st\<lparr>i_libs := s\<rparr>, r)
              | None \<Rightarrow> release_owned_value (own_env env ops sp) sp target (st\<lparr>i_libs := s\<rparr>)))"

definition exec_release ::
  "('p, 'w) machine_env \<Rightarrow> ('p, 'w) core_ops \<Rightarrow> span \<Rightarrow> value_id \<Rightarrow> frame \<Rightarrow> ('p, 'w) machine \<Rightarrow> ('p, 'w, frame) execution" where
  "exec_release env ops sp released fr =
     with_value fr released (\<lambda>v st. and_then (release_value env ops sp v st) (\<lambda>_. answer fr))"

text \<open>A store reads what it replaces, where the instruction asks for it, before it writes.\<close>

definition replaced_by ::
  "value_id option \<Rightarrow> diagnostic + bn_value \<Rightarrow> ('p, 'w) machine \<Rightarrow> ('p, 'w, bn_value) execution" where
  "replaced_by previous r st = (case previous of None \<Rightarrow> answer VNull st | Some _ \<Rightarrow> lift_sum r st)"

text \<open>What a store without an error leaves; one with an error leaves the machine as it was.\<close>

definition lift_store :: "diagnostic + 'a \<times> ('p, 'w) machine \<Rightarrow> ('p, 'w) machine \<Rightarrow> ('p, 'w, 'a) execution" where
  "lift_store r st = (case r of Inl e \<Rightarrow> Done (st, Inl e) | Inr (x, st') \<Rightarrow> Done (st', Inr x))"

definition with_symbol ::
  "frame \<Rightarrow> symbol_id \<Rightarrow> (bn_value \<Rightarrow> ('p, 'w) machine \<Rightarrow> ('p, 'w, 'a) execution) \<Rightarrow> ('p, 'w) machine \<Rightarrow> ('p, 'w, 'a) execution" where
  "with_symbol fr i f st =
     (case f_symbols fr i of
        None \<Rightarrow> lift_sum (Inl (UNINITIALIZED_VALUE ''binding has no value'')) st
      | Some v \<Rightarrow> f v st)"

definition with_coerced ::
  "('p, 'w) machine_env \<Rightarrow> frame \<Rightarrow> value_id \<Rightarrow> bn_type \<Rightarrow> (bn_value \<Rightarrow> ('p, 'w) machine \<Rightarrow> ('p, 'w, 'a) execution) \<Rightarrow>
     ('p, 'w) machine \<Rightarrow> ('p, 'w, 'a) execution" where
  "with_coerced env fr source ty f = with_value fr source (\<lambda>v st. and_then (lift_sum (coerce_to env st v ty) st) f)"

definition exec_set_index ::
  "('p, 'w) machine_env \<Rightarrow> symbol_id \<Rightarrow> value_id list \<Rightarrow> value_id \<Rightarrow> value_id option \<Rightarrow> bn_type \<Rightarrow> frame \<Rightarrow>
     ('p, 'w) machine \<Rightarrow> ('p, 'w, frame) execution" where
  "exec_set_index env i indices source previous ty fr st =
     and_then (lift_sum (integers_at fr indices) st) (\<lambda>ns.
     with_coerced env fr source ty (\<lambda>stored. with_symbol fr i (\<lambda>target st.
     and_then (replaced_by previous (element_at env st target ns) st) (\<lambda>old st.
     and_then (lift_store (set_index target ns stored st) st) (\<lambda>target'.
       answer (set_previous previous old (set_symbol i target' fr)))))))"

definition exec_set_member_index ::
  "('p, 'w) machine_env \<Rightarrow> value_id \<Rightarrow> field_ref option \<Rightarrow> str \<Rightarrow> value_id list \<Rightarrow> value_id \<Rightarrow> value_id option \<Rightarrow> bn_type \<Rightarrow>
     frame \<Rightarrow> ('p, 'w) machine \<Rightarrow> ('p, 'w, frame) execution" where
  "exec_set_member_index env obj field name indices source previous ty fr st =
     and_then (lift_sum (integers_at fr indices) st) (\<lambda>ns.
     with_coerced env fr source ty (\<lambda>stored st.
     and_then (case previous of
         None \<Rightarrow> answer VNull st
       | Some _ \<Rightarrow>
           with_value fr obj (\<lambda>v st.
             and_then (lift_sum (member_of env st v name field) st) (\<lambda>m st. lift_sum (element_at env st m ns) st)) st)
       (\<lambda>old st.
     and_then (lift_store (set_member_index_value fr obj name field ns stored st) st) (\<lambda>fr'.
       answer (set_previous previous old fr')))))"

definition FIELDS_MISSING :: diagnostic where
  "FIELDS_MISSING = INVALID_IR ''field path store lacks resolved fields''"

definition exec_set_field_index ::
  "('p, 'w) machine_env \<Rightarrow> symbol_id \<Rightarrow> str list \<Rightarrow> field_ref list option \<Rightarrow> value_id list \<Rightarrow> value_id \<Rightarrow> value_id option \<Rightarrow>
     bn_type \<Rightarrow> frame \<Rightarrow> ('p, 'w) machine \<Rightarrow> ('p, 'w, frame) execution" where
  "exec_set_field_index env i path resolved indices source previous ty fr st =
     and_then (lift_sum (integers_at fr indices) st) (\<lambda>ns.
     with_coerced env fr source ty (\<lambda>stored st.
     case resolved of
       None \<Rightarrow> lift_sum (Inl FIELDS_MISSING) st
     | Some fs \<Rightarrow>
         with_symbol fr i (\<lambda>root st.
         and_then (replaced_by previous (try_sum (field_at st root fs) (\<lambda>v. element_at env st v ns)) st) (\<lambda>old st.
         and_then (lift_store (set_field_index_path root path fs ns stored st) st) (\<lambda>root'.
           answer (set_previous previous old (set_symbol i root' fr))))) st))"

definition exec_set_member ::
  "('p, 'w) machine_env \<Rightarrow> value_id \<Rightarrow> field_ref option \<Rightarrow> str \<Rightarrow> value_id \<Rightarrow> value_id option \<Rightarrow> bn_type \<Rightarrow> frame \<Rightarrow>
     ('p, 'w) machine \<Rightarrow> ('p, 'w, frame) execution" where
  "exec_set_member env obj field name source previous ty fr =
     with_coerced env fr source ty (\<lambda>stored st.
     and_then (case previous of
         None \<Rightarrow> answer VNull st
       | Some _ \<Rightarrow> with_value fr obj (\<lambda>v st. lift_sum (member_of env st v name field) st) st)
       (\<lambda>old st.
     and_then (lift_store (set_member_value fr obj name field stored st) st) (\<lambda>fr'.
       answer (set_previous previous old fr'))))"

definition exec_set_field ::
  "('p, 'w) machine_env \<Rightarrow> symbol_id \<Rightarrow> str list \<Rightarrow> field_ref list option \<Rightarrow> value_id \<Rightarrow> value_id option \<Rightarrow> bn_type \<Rightarrow>
     frame \<Rightarrow> ('p, 'w) machine \<Rightarrow> ('p, 'w, frame) execution" where
  "exec_set_field env i path resolved source previous ty fr =
     with_coerced env fr source ty (\<lambda>stored st.
     case resolved of
       None \<Rightarrow> lift_sum (Inl FIELDS_MISSING) st
     | Some fs \<Rightarrow>
         with_symbol fr i (\<lambda>root st.
         and_then (replaced_by previous (field_at st root fs) st) (\<lambda>old st.
         and_then (lift_store (set_field_path root path fs stored st) st) (\<lambda>root'.
           answer (set_previous previous old (set_symbol i root' fr))))) st)"

section \<open>Statics\<close>

definition no_static :: "str \<Rightarrow> str \<Rightarrow> diagnostic" where
  "no_static cls field = UNINITIALIZED_VALUE (''STATIC '' @ cls @ ''.'' @ field @ '' has no value'')"

definition static_of :: "str \<Rightarrow> str \<Rightarrow> ('p, 'w) machine \<Rightarrow> diagnostic + bn_value" where
  "static_of cls field st =
     (case map_of (x_statics (i_libs st)) (cls, field) of None \<Rightarrow> Inl (no_static cls field) | Some v \<Rightarrow> Inr v)"

definition put_static :: "str \<Rightarrow> str \<Rightarrow> bn_value \<Rightarrow> ('p, 'w) machine \<Rightarrow> ('p, 'w) machine" where
  "put_static cls field v = on_rest (\<lambda>s. s\<lparr>x_statics := AList.update (cls, field) v (x_statics s)\<rparr>)"

definition exec_load_static :: "value_id \<Rightarrow> str \<Rightarrow> str \<Rightarrow> frame \<Rightarrow> ('p, 'w) machine \<Rightarrow> ('p, 'w, frame) execution" where
  "exec_load_static d cls field fr st = and_then (lift_sum (static_of cls field st) st) (\<lambda>v. answer (set_value d v fr))"

definition exec_store_static ::
  "('p, 'w) machine_env \<Rightarrow> str \<Rightarrow> str \<Rightarrow> value_id \<Rightarrow> value_id option \<Rightarrow> bn_type \<Rightarrow> frame \<Rightarrow> ('p, 'w) machine \<Rightarrow>
     ('p, 'w, frame) execution" where
  "exec_store_static env cls field source previous ty fr =
     with_coerced env fr source ty (\<lambda>stored st.
       answer
         (set_previous previous (case map_of (x_statics (i_libs st)) (cls, field) of None \<Rightarrow> VNull | Some v \<Rightarrow> v) fr)
         (put_static cls field stored st))"

definition exec_set_static_index ::
  "('p, 'w) machine_env \<Rightarrow> str \<Rightarrow> str \<Rightarrow> value_id list \<Rightarrow> value_id \<Rightarrow> value_id option \<Rightarrow> bn_type \<Rightarrow> frame \<Rightarrow>
     ('p, 'w) machine \<Rightarrow> ('p, 'w, frame) execution" where
  "exec_set_static_index env cls field indices source previous ty fr st =
     and_then (lift_sum (integers_at fr indices) st) (\<lambda>ns.
     with_coerced env fr source ty (\<lambda>stored st.
     and_then (lift_sum (static_of cls field st) st) (\<lambda>target st.
     and_then (replaced_by previous (element_at env st target ns) st) (\<lambda>old st.
     and_then (lift_store (set_index target ns stored st) st) (\<lambda>target' st.
       answer (set_previous previous old fr) (put_static cls field target' st))))))"

definition ensure_class ::
  "('p, 'w) machine_env \<Rightarrow> ('p, 'w) core_ops \<Rightarrow> str \<Rightarrow> ('p, 'w) machine \<Rightarrow> ('p, 'w, unit) execution" where
  "ensure_class env ops cls st =
     (case x_class_init (i_libs st) cls of
        Some InitReady \<Rightarrow> answer () st
      | Some InitRunning \<Rightarrow>
          lift_sum (Inl (STATIC_INITIALIZATION_CYCLE (''STATIC initialization of '' @ cls @ '' reentered''))) st
      | None \<Rightarrow>
          and_then
            (let st1 = on_rest (\<lambda>s. s\<lparr>x_class_init := (x_class_init s)(cls \<mapsto> InitRunning)\<rparr>) st
             in case function_of_kind (v_module env) KInit cls of
                  None \<Rightarrow> answer () st1
                | Some f \<Rightarrow>
                    and_then (o_function ops f [] st1) (\<lambda>r st2.
                      case r of
                        FlowStop code \<Rightarrow> answer () (on_rest (\<lambda>s. s\<lparr>x_stop_code := Some code\<rparr>) st2)
                      | FlowReturn _ \<Rightarrow> answer () st2))
            (\<lambda>_ st3. answer () (on_rest (\<lambda>s. s\<lparr>x_class_init := (x_class_init s)(cls \<mapsto> InitReady)\<rparr>) st3)))"

section \<open>One instruction\<close>

text \<open>The two dispatch instructions are calls.\<close>

definition exec_instruction ::
  "('p, 'w) machine_env \<Rightarrow> ('p, 'w) core_ops \<Rightarrow> span \<Rightarrow> instruction \<Rightarrow> frame \<Rightarrow> ('p, 'w) machine \<Rightarrow> ('p, 'w, frame) execution" where
  "exec_instruction env ops sp i fr =
     (case i of
        IRetain d v _ \<Rightarrow> exec_retain env ops sp d v fr
      | ITake d s _ \<Rightarrow> exec_take d s fr
      | ITakeMember d obj field name _ _ \<Rightarrow> exec_take_member d obj field name fr
      | IEndBinding s \<Rightarrow> exec_end_binding s fr
      | IConstant d c ty \<Rightarrow> exec_constant env d c ty fr
      | IDefault d ty dims dynamic \<Rightarrow> exec_default env ops sp d ty dims dynamic fr
      | IPhi _ _ _ \<Rightarrow> lift_sum (Inl (INVALID_IR ''Phi must be resolved by the executor control-flow loop''))
      | ILoad d s _ \<Rightarrow> exec_load d s fr
      | IStore s v previous ty \<Rightarrow> exec_store env s v previous ty fr
      | ICopy d v ty \<Rightarrow> exec_copy env d v ty fr
      | IUnary d operator v ty \<Rightarrow> exec_unary env d operator v ty fr
      | IBinary d operator l r ty \<Rightarrow> exec_binary env d operator l r ty fr
      | ICast d v ty \<Rightarrow> exec_cast env d v ty fr
      | ICall d callee arguments ty \<Rightarrow> exec_call env ops sp d callee arguments ty fr
      | IDispatchSubmit d callee queue task arguments ty \<Rightarrow>
          exec_call env ops sp d callee (queue # task # arguments) ty fr
      | IDispatchAwait d callee ticket timeout ty \<Rightarrow> exec_call env ops sp d callee [ticket, timeout] ty fr
      | IInput d prompt ty \<Rightarrow> exec_input env d prompt ty fr
      | IVector d vs _ \<Rightarrow> exec_vector d vs fr
      | IIndex d obj index _ \<Rightarrow> exec_index env d obj index fr
      | IMember d obj field name _ _ \<Rightarrow> exec_member env d obj field name fr
      | ISetIndex s indices v previous ty \<Rightarrow> exec_set_index env s indices v previous ty fr
      | ISetMemberIndex obj field name _ indices v previous ty \<Rightarrow>
          exec_set_member_index env obj field name indices v previous ty fr
      | ISetFieldIndex s _ path resolved indices v previous ty \<Rightarrow>
          exec_set_field_index env s path resolved indices v previous ty fr
      | ISetStaticIndex cls field indices v previous ty \<Rightarrow> exec_set_static_index env cls field indices v previous ty fr
      | ILength d v \<Rightarrow> exec_length env d v fr
      | ISizeOf d v \<Rightarrow> exec_size_of d v fr
      | IPrint vs \<Rightarrow> exec_print env vs fr
      | IClearScreen c \<Rightarrow> exec_clear_screen env c fr
      | IBeep c \<Rightarrow> exec_beep env c fr
      | IAllocate d name arguments ty \<Rightarrow> exec_allocate env ops sp d name arguments ty fr
      | IRelease v _ \<Rightarrow> exec_release env ops sp v fr
      | ISetMember obj field name _ v previous ty \<Rightarrow> exec_set_member env obj field name v previous ty fr
      | ISetField s _ path resolved v previous ty \<Rightarrow> exec_set_field env s path resolved v previous ty fr
      | IEnsureClass cls \<Rightarrow> (\<lambda>st. and_then (ensure_class env ops cls st) (\<lambda>_. answer fr))
      | ILoadStatic d cls field _ \<Rightarrow> exec_load_static d cls field fr
      | IStoreStatic cls field v previous ty \<Rightarrow> exec_store_static env cls field v previous ty fr)"

section \<open>Blocks and functions\<close>

definition find_block :: "ir_function \<Rightarrow> block_id \<Rightarrow> diagnostic + basic_block" where
  "find_block f b =
     (if b < length (fn_blocks f) \<and> bb_id (fn_blocks f ! b) = b then Inr (fn_blocks f ! b)
      else Inl (INVALID_IR ''basic block does not exist''))"

definition is_stop_check :: "instruction \<Rightarrow> bool" where
  "is_stop_check i \<longleftrightarrow> (case i of IConstant _ (CFunction name) _ \<Rightarrow> name = ''$stopping'' | _ \<Rightarrow> False)"

definition exec_phi ::
  "value_id \<Rightarrow> (block_id \<times> value_id) list \<Rightarrow> block_id option \<Rightarrow> frame \<Rightarrow> ('p, 'w) machine \<Rightarrow> ('p, 'w, frame) execution" where
  "exec_phi d incoming previous fr =
     (case previous of
        None \<Rightarrow> lift_sum (Inl (INVALID_IR ''Phi cannot execute in the function entry block''))
      | Some predecessor \<Rightarrow>
          (case map_of incoming predecessor of
             None \<Rightarrow> lift_sum (Inl (INVALID_IR ''Phi has no incoming value for the predecessor block''))
           | Some source \<Rightarrow> with_value fr source (\<lambda>v. answer (set_value d v fr))))"

definition exec_one ::
  "('p, 'w) machine_env \<Rightarrow> ('p, 'w) core_ops \<Rightarrow> block_id option \<Rightarrow> span \<Rightarrow> instruction \<Rightarrow> frame \<Rightarrow> ('p, 'w) machine \<Rightarrow>
     ('p, 'w, frame) execution" where
  "exec_one env ops previous sp i fr =
     (case i of IPhi d incoming _ \<Rightarrow> exec_phi d incoming previous fr | _ \<Rightarrow> exec_instruction env ops sp i fr)"

text \<open>A STOP of the instruction just run, unless the code checks for it itself.\<close>

definition stops_here :: "instruction \<Rightarrow> instruction list \<Rightarrow> ('p, 'w) machine \<Rightarrow> int option" where
  "stops_here i following st =
     (if is_stop_check i \<or> (case following of [] \<Rightarrow> False | j # _ \<Rightarrow> is_stop_check j) then None
      else x_stop_code (i_libs st))"

fun run_instructions ::
  "('p, 'w) machine_env \<Rightarrow> ('p, 'w) core_ops \<Rightarrow> ir_function \<Rightarrow> block_id \<Rightarrow> block_id option \<Rightarrow> nat \<Rightarrow> instruction list \<Rightarrow>
     frame \<Rightarrow> ('p, 'w) machine \<Rightarrow> ('p, 'w, frame + int) execution" where
  "run_instructions env ops f b previous k [] fr st = answer (Inl fr) st"
| "run_instructions env ops f b previous k (i # is) fr st =
     and_then (exec_one env ops previous (v_span env (fn_name f) b k) i fr st) (\<lambda>fr' st'.
       case stops_here i is st' of
         Some code \<Rightarrow> answer (Inr code) (on_rest (\<lambda>s. s\<lparr>x_stop_code := None\<rparr>) st')
       | None \<Rightarrow> run_instructions env ops f b previous (Suc k) is fr' st')"

definition pop_frame :: "('p, 'w) machine \<Rightarrow> ('p, 'w) machine" where
  "pop_frame = on_rest (\<lambda>s. s\<lparr>x_frames := tl (x_frames s)\<rparr>)"

text \<open>A return pops the ownership frame; at the top of a session the bindings are kept.\<close>

definition run_return :: "value_id option \<Rightarrow> frame \<Rightarrow> ('p, 'w) machine \<Rightarrow> ('p, 'w, flow) execution" where
  "run_return result fr st =
     and_then
       (case result of
          None \<Rightarrow> answer None st
        | Some i \<Rightarrow> with_value fr i (\<lambda>v. answer (Some v)) st)
       (\<lambda>returned st.
          answer (FlowReturn returned)
            (on_rest (\<lambda>s. s\<lparr>x_captured :=
                 (if x_call_depth s = 0 then map_option (\<lambda>captured. captured ++ f_symbols fr) (x_captured s)
                  else x_captured s)\<rparr>) (pop_frame st)))"

definition run_stop :: "value_id \<Rightarrow> frame \<Rightarrow> ('p, 'w) machine \<Rightarrow> ('p, 'w, flow) execution" where
  "run_stop i fr =
     with_value fr i (\<lambda>v st. and_then (lift_sum (integer_of v) st) (\<lambda>(code, _) st. answer (FlowStop code) (pop_frame st)))"

text \<open>The loop over blocks, with fuel for the blocks left.\<close>

primrec run_blocks ::
  "('p, 'w) machine_env \<Rightarrow> ('p, 'w) core_ops \<Rightarrow> ir_function \<Rightarrow> nat \<Rightarrow> block_id \<Rightarrow> block_id option \<Rightarrow> frame \<Rightarrow>
     ('p, 'w) machine \<Rightarrow> ('p, 'w, flow) execution" where
  "run_blocks env ops f 0 b previous fr st = Panic"
| "run_blocks env ops f (Suc n) b previous fr st =
     and_then (lift_sum (find_block f b) st) (\<lambda>current st.
     and_then (run_instructions env ops f b previous 0 (bb_instructions current) fr st) (\<lambda>progress st.
       case progress of
         Inr code \<Rightarrow> answer (FlowStop code) st
       | Inl fr' \<Rightarrow>
           (case bb_terminator current of
              TermJump target \<Rightarrow> run_blocks env ops f n target (Some b) fr' st
            | TermBranch condition then_block else_block \<Rightarrow>
                with_value fr' condition (\<lambda>v st.
                and_then (lift_sum (boolean_of v) st) (\<lambda>c st.
                  run_blocks env ops f n (if c then then_block else else_block) (Some b) fr' st)) st
            | TermReturn result \<Rightarrow> run_return result fr' st
            | TermStop code \<Rightarrow> run_stop code fr' st)))"

definition new_frame :: "ir_function \<Rightarrow> bn_value list \<Rightarrow> (symbol_id \<Rightarrow> bn_value option) \<Rightarrow> frame" where
  "new_frame f arguments bindings =
     \<lparr>f_symbols = map_of (rev (zip (fn_parameters f) arguments)) ++ bindings, f_values = Map.empty\<rparr>"

definition enter_function :: "ir_function \<Rightarrow> ('p, 'w) machine \<Rightarrow> ('p, 'w) machine" where
  "enter_function f = on_rest (\<lambda>s. s\<lparr>
     x_bindings := (if x_call_depth s = 0 then Map.empty else x_bindings s),
     x_frames := ownership_frame_new (fn_weak_symbols f) # x_frames s\<rparr>)"

definition run_function ::
  "('p, 'w) machine_env \<Rightarrow> ('p, 'w) core_ops \<Rightarrow> nat \<Rightarrow> ir_function \<Rightarrow> bn_value list \<Rightarrow> ('p, 'w) machine \<Rightarrow> ('p, 'w, flow) execution" where
  "run_function env ops fuel f arguments st =
     (if length arguments \<noteq> length (fn_parameters f) then
        lift_sum (Inl (TYPE_MISMATCH (show_nat (length (fn_parameters f)) @ '' argument(s)'')
          (show_nat (length arguments) @ '' argument(s)'') (''FUNCTION '' @ fn_name f))) st
      else
        run_blocks env ops f fuel (fn_entry f) None
          (new_frame f arguments (if x_call_depth (i_libs st) = 0 then x_bindings (i_libs st) else Map.empty))
          (enter_function f st))"

section \<open>Calls\<close>

definition find_function :: "ir_module \<Rightarrow> str \<Rightarrow> ir_function option" where
  "find_function m name = find (\<lambda>f. fn_name f = name) (m_functions m)"

definition dispatch_name :: "ir_module \<Rightarrow> (handle \<times> str) list \<Rightarrow> str \<Rightarrow> bn_value list \<Rightarrow> str" where
  "dispatch_name m pinned name arguments =
     (if kind_of m name \<in> {Some KFieldInit, Some KConstructor, Some KDestructor, Some KReleaseFields} then name
      else case arguments of
        VObject h cls # _ \<Rightarrow>
          let runtime_class = (case find (\<lambda>(p, _). p = h) pinned of Some (_, c) \<Rightarrow> c | None \<Rightarrow> cls)
          in (case resolve_method m runtime_class (last_part name) of Some resolved \<Rightarrow> resolved | None \<Rightarrow> name)
      | _ \<Rightarrow> name)"

definition lifecycle_dispatch :: "ir_function \<Rightarrow> bn_value list \<Rightarrow> (handle \<times> str) option" where
  "lifecycle_dispatch f arguments =
     (if fn_kind f \<notin> {KConstructor, KDestructor, KFieldInit} then None
      else case arguments of VObject h _ # _ \<Rightarrow> map_option (Pair h) (fn_owner f) | _ \<Rightarrow> None)"

definition host_call :: "('p, 'w) machine_env \<Rightarrow> str \<Rightarrow> bn_value list \<Rightarrow> diagnostic + bn_value" where
  "host_call env name arguments =
     (let cat = catalogue (v_float env); procs = cat ''modules'' ''capability.num_procs''
      in if name = procs then
           try_sum (require_arity name arguments 0) (\<lambda>_.
             Inr (case v_processors env of
                    Inr count \<Rightarrow>
                      if i32_ok (int count) then VInteger (int count) Int32
                      else error_report 1 procs ''available processor count exceeds INTEGER range''
                             (cat ''frontend'' ''msg.integer_overflow_cause'')
                  | Inl e \<Rightarrow> error_report 1 procs (''available processor count is unavailable: '' @ e) e))
         else Inl (HOST_CAPABILITY_UNAVAILABLE (''host function '' @ [CHR 0x27] @ name @ [CHR 0x27] @ '' is not available'')))"

text \<open>A call of a function of the module: dispatch, the stack check, the pinned receiver
  of a life-cycle function and the call depth around the body.\<close>

definition enter_call :: "(handle \<times> str) option \<Rightarrow> ('p, 'w) machine \<Rightarrow> ('p, 'w) machine" where
  "enter_call pinned = on_rest (\<lambda>s. s\<lparr>
     x_pinned := (case pinned of None \<Rightarrow> x_pinned s | Some p \<Rightarrow> p # x_pinned s), x_call_depth := x_call_depth s + 1\<rparr>)"

definition leave_call :: "(handle \<times> str) option \<Rightarrow> ('p, 'w) machine \<Rightarrow> ('p, 'w) machine" where
  "leave_call pinned = on_rest (\<lambda>s. s\<lparr>
     x_pinned := (case pinned of None \<Rightarrow> x_pinned s | Some _ \<Rightarrow> tl (x_pinned s)), x_call_depth := x_call_depth s - 1\<rparr>)"

definition call_function ::
  "('p, 'w) machine_env \<Rightarrow> ('p, 'w) core_ops \<Rightarrow> str \<Rightarrow> bn_value list \<Rightarrow> ('p, 'w) machine \<Rightarrow> ('p, 'w, bn_value) execution" where
  "call_function env ops name arguments st =
     (let resolved =
            (case strip_prefix ''@super:'' name of
               Some base \<Rightarrow> base
             | None \<Rightarrow> dispatch_name (v_module env) (x_pinned (i_libs st)) name arguments)
      in case find_function (v_module env) resolved of
           None \<Rightarrow> lift_sum (Inl (NAME_NOT_FOUND resolved ''function dispatch'')) st
         | Some callee \<Rightarrow>
             if v_stack_full env st then lift_sum (Inl (STACK_OVERFLOW (fn_name callee))) st
             else
               let pinned = lifecycle_dispatch callee arguments
               in bind_outcome (o_function ops callee arguments (enter_call pinned st)) (\<lambda>(st1, r).
                    let st2 = leave_call pinned st1
                    in case r of
                         Inl e \<Rightarrow> Done (st2, Inl e)
                       | Inr (FlowReturn v) \<Rightarrow> answer (case v of None \<Rightarrow> VNull | Some w \<Rightarrow> w) st2
                       | Inr (FlowStop code) \<Rightarrow> answer VNull (on_rest (\<lambda>s. s\<lparr>x_stop_code := Some code\<rparr>) st2)))"

text \<open>The two intrinsics of an unwinding STOP.\<close>

definition call_stopping :: "('p, 'w) machine \<Rightarrow> ('p, 'w, bn_value) execution" where
  "call_stopping st =
     answer (VBoolean (x_stop_code (i_libs st) \<noteq> None))
       (on_rest (\<lambda>s. s\<lparr>x_stop_code := None, x_unwinding := x_stop_code s\<rparr>) st)"

definition call_stop_code :: "('p, 'w) machine \<Rightarrow> ('p, 'w, bn_value) execution" where
  "call_stop_code st =
     answer (VInteger (case x_unwinding (i_libs st) of Some code \<Rightarrow> code | None \<Rightarrow> 0) Int32)
       (on_rest (\<lambda>s. s\<lparr>x_unwinding := None\<rparr>) st)"

definition call_host ::
  "('p, 'w) machine_env \<Rightarrow> ('p, 'w) core_ops \<Rightarrow> str \<Rightarrow> str \<Rightarrow> bn_value list \<Rightarrow> span \<Rightarrow> ('p, 'w) machine \<Rightarrow>
     ('p, 'w, bn_value) execution" where
  "call_host env ops name tail arguments sp st =
     (case split_once (CHR ''.'') tail of
        Some (capability, member) \<Rightarrow>
          if map_of (x_hosts (i_libs st)) capability \<noteq> None
          then host_provider_call env ops capability member arguments sp st
          else lift_sum (host_call env name arguments) st
      | None \<Rightarrow> lift_sum (host_call env name arguments) st)"

definition call_named ::
  "('p, 'w) machine_env \<Rightarrow> ('p, 'w) core_ops \<Rightarrow> str \<Rightarrow> bn_value list \<Rightarrow> span \<Rightarrow> ('p, 'w) machine \<Rightarrow> ('p, 'w, bn_value) execution" where
  "call_named env ops name arguments sp st =
     (if name = ''$stopping'' then call_stopping st
      else if name = ''$stop_code'' then call_stop_code st
      else if name \<in> {''ASC'', ''CHAR'', ''TOLOWER'', ''TOUPPER'', ''$for_condition'', ''$for_fits''} then
        lift_outcome (builtin (v_float env) (v_lower env) (v_upper env) name arguments) st
      else case strip_prefix ''HOST.'' name of
        Some tail \<Rightarrow> call_host env ops name tail arguments sp st
      | None \<Rightarrow>
          if is_host_file_method name then
            host_provider_call env ops ''FileSystem'' (''File.'' @ last_part name) arguments sp st
          else case (library_callee env name, find_function (v_module env) name) of
            (Some (library, member), None) \<Rightarrow> library_call env ops library member arguments sp st
          | _ \<Rightarrow>
              if is_temporal_builtin name then lift_outcome (temporal_call (catalogue (v_float env)) name arguments) st
              else call_function env ops name arguments st)"

section \<open>The knot\<close>

primrec core :: "('p, 'w) machine_env \<Rightarrow> nat \<Rightarrow> ('p, 'w) core_ops" where
  "core env 0 = \<lparr>o_call = (\<lambda>_ _ _ _. Panic), o_library_call = (\<lambda>_ _ _ _ _. Panic), o_function = (\<lambda>_ _ _. Panic)\<rparr>"
| "core env (Suc n) =
     \<lparr>o_call = call_named env (core env n), o_library_call = library_call env (core env n),
      o_function = run_function env (core env n) n\<rparr>"

section \<open>Programs\<close>

definition machine_new :: "bool \<Rightarrow> (str \<times> 'p) list \<Rightarrow> (str \<times> 'p) list \<Rightarrow> 'w \<Rightarrow> ('p, 'w) machine" where
  "machine_new tracing libraries hosts w =
     \<lparr>i_arc = set_trace tracing arc_new, i_objects = heap_default, i_memory = heap_default,
      i_libs = \<lparr>x_libraries = libraries, x_hosts = hosts, x_world = w, x_stop_code = None, x_unwinding = None,
        x_statics = [], x_class_init = Map.empty, x_pinned = [], x_call_depth = 0, x_frames = [],
        x_bindings = Map.empty, x_restored = {}, x_captured = None\<rparr>\<rparr>"

definition exit_of :: "flow \<Rightarrow> diagnostic + int" where
  "exit_of r =
     (case r of
        FlowStop code \<Rightarrow> exit_code code
      | FlowReturn None \<Rightarrow> Inr 0
      | FlowReturn (Some v) \<Rightarrow>
          (case v of
             VNull \<Rightarrow> Inr 0
           | VInteger code _ \<Rightarrow> exit_code code
           | VError code message _ \<Rightarrow> Inl (DISPATCH_FAILURE (show_int code @ '': '' @ message))
           | _ \<Rightarrow> Inl (INVALID_START ''FUNCTION Start must return VOID or INTEGER'')))"

definition FILESYSTEM_REFUSED :: diagnostic where
  "FILESYSTEM_REFUSED = HOST_CAPABILITY_UNAVAILABLE ''HOST.FileSystem is not provided by this host''"

definition execute_inner :: "('p, 'w) machine_env \<Rightarrow> nat \<Rightarrow> ('p, 'w) machine \<Rightarrow> ('p, 'w, int) execution" where
  "execute_inner env fuel st =
     (if v_filesystem_refused env then lift_sum (Inl FILESYSTEM_REFUSED) st
      else case entry_function (v_module env) of
        None \<Rightarrow> lift_sum (Inl (START_NOT_FOUND ''executable module requires FUNCTION Start'')) st
      | Some start \<Rightarrow>
          if fn_parameters start \<noteq> [] then
            lift_sum (Inl (INVALID_START ''FUNCTION Start cannot declare parameters'')) st
          else
            and_then (run_function env (core env fuel) fuel start [] st) (\<lambda>r st.
            and_then
              (if v_debug_assertions env
               then lift_sum (verify_arc (own_env env (core env fuel) \<lparr>start_line = 1, start_column = 1\<rparr>) st
                      (map snd (x_statics (i_libs st)))) st
               else answer () st)
              (\<lambda>_. lift_sum (exit_of r))))"

text \<open>A program is validated first. A rejected module is the error of the validator.\<close>

definition execute_with_host ::
  "('p, 'w) machine_env \<Rightarrow> nat \<Rightarrow> ('p, 'w) machine \<Rightarrow> (str + ('p, 'w) machine \<times> (diagnostic + int)) outcome" where
  "execute_with_host env fuel st =
     (case validate (v_module env) of
        None \<Rightarrow> Panic
      | Some (Inl e) \<Rightarrow> Done (Inl e)
      | Some (Inr _) \<Rightarrow> bind_outcome (execute_inner env fuel st) (\<lambda>r. Done (Inr r)))"

text \<open>A named function for a dispatch worker.\<close>

definition execute_named_inner ::
  "('p, 'w) machine_env \<Rightarrow> nat \<Rightarrow> str \<Rightarrow> bn_value list \<Rightarrow> ('p, 'w) machine \<Rightarrow> ('p, 'w, bn_value) execution" where
  "execute_named_inner env fuel name arguments st =
     (case find_function (v_module env) name of
        None \<Rightarrow> lift_sum (Inl (FUNCTION_NOT_FOUND (''function '' @ [CHR 0x27] @ name @ [CHR 0x27] @ '' was not found''))) st
      | Some f \<Rightarrow>
          and_then (run_function env (core env fuel) fuel f arguments st) (\<lambda>r.
            answer (case r of
                FlowReturn (Some v) \<Rightarrow> v
              | FlowReturn None \<Rightarrow> VNull
              | FlowStop code \<Rightarrow> VInteger code Int32)))"

definition execute_named ::
  "('p, 'w) machine_env \<Rightarrow> nat \<Rightarrow> str \<Rightarrow> bn_value list \<Rightarrow> ('p, 'w) machine \<Rightarrow>
     (str + ('p, 'w) machine \<times> (diagnostic + bn_value)) outcome" where
  "execute_named env fuel name arguments st =
     (case validate (v_module env) of
        None \<Rightarrow> Panic
      | Some (Inl e) \<Rightarrow> Done (Inl e)
      | Some (Inr _) \<Rightarrow> bind_outcome (execute_named_inner env fuel name arguments st) (\<lambda>r. Done (Inr r)))"

end
