(* ===== verification/BN_Machine_Safety.thy ===== *)
theory BN_Machine_Safety
  imports BN_Machine_Exec BN_IR_Safety
begin

text \<open>
  What the validator promises to the interpreter. In an accepted module every activation
  finds the blocks it jumps to, the arm of each phi, and a value in every slot it reads:
  no execution ends with the diagnostics of broken IR. The proof is one statement about
  every part of the interpreter, which also says what every part leaves as it was: the
  call depth, the pinned receivers and the ownership frames below its own.
\<close>

section \<open>Errors that are not about broken IR\<close>

definition broken_ir :: "diagnostic \<Rightarrow> bool" where
  "broken_ir e \<longleftrightarrow>
     (case e of
        INVALID_IR s \<Rightarrow> starts_with ''value %'' s \<or> starts_with ''Phi '' s \<or> starts_with ''basic block'' s
      | _ \<Rightarrow> False)"

definition safe :: "diagnostic + 'a \<Rightarrow> bool" where
  "safe r \<longleftrightarrow> (\<forall>e. r = Inl e \<longrightarrow> \<not> broken_ir e)"

named_theorems safe_rules \<open>functions whose errors are not about broken IR\<close>

lemmas broken_simps = broken_ir_def starts_with_def

lemma safe_Inr [simp, intro]: "safe (Inr x)"
  by (simp add: safe_def)

lemma safe_Inl [simp]: "safe (Inl e) \<longleftrightarrow> \<not> broken_ir e"
  by (simp add: safe_def)

lemma safe_try_sum: "safe r \<Longrightarrow> (\<And>x. r = Inr x \<Longrightarrow> safe (f x)) \<Longrightarrow> safe (try_sum r f)"
  by (cases r) auto

lemma safe_map_sum: "safe r \<Longrightarrow> safe (map_sum id f r)"
  by (cases r) auto

lemma safe_collect [safe_rules]: "(\<And>x. x \<in> set xs \<Longrightarrow> safe (f x)) \<Longrightarrow> safe (collect_results f xs)"
  by (induction xs) (auto intro!: safe_try_sum)

lemmas safe_steps = safe_try_sum safe_map_sum

subsection \<open>Operators\<close>

lemma safe_numbers [safe_rules]:
  "safe (integer_of v)" "safe (boolean_of v)" "safe (number_as_float fo v)" "safe (ordered op a b)"
  "safe (checked_integer n ty)" "safe (integer_from_count c)" "safe (finite_float fo f kind)" "safe (exit_code k)"
  "safe (integer_from_u64 k)" "safe (add_sizes k v)"
  by (auto simp: integer_of_def boolean_of_def number_as_float_def ordered_def checked_integer_def Let_def
      integer_from_count_def finite_float_def exit_code_def integer_from_u64_def add_sizes_def integer_overflow_def
      broken_simps split: bn_value.split option.split)

lemma safe_both [safe_rules]: "safe (both_floats fo l r)"
  by (auto simp: both_floats_def intro!: safe_try_sum safe_rules)

lemma safe_shift [safe_rules]: "safe (shift_integer n k ty left)"
  by (auto simp: shift_integer_def Let_def broken_simps intro!: safe_rules)

lemma safe_unary [safe_rules]: "safe (unary fo op v ty)"
  by (auto simp: unary_def Let_def broken_simps intro!: safe_rules split: bn_value.split)

lemma safe_binary_parts [safe_rules]:
  "safe (binary_boolean op a b)" "safe (binary_string fo op s t)" "safe (binary_float fo op x y ty)"
  "safe (binary_integer op n k ty)"
  by (auto simp: binary_boolean_def binary_string_def binary_float_def binary_integer_def division_by_zero_def Let_def
      broken_simps intro!: safe_rules split: option.split)

lemma safe_binary_numeric [safe_rules]: "safe (binary_numeric fo op l r ty)"
  by (auto simp: binary_numeric_def intro!: safe_try_sum safe_rules split: option.split)

lemma safe_binary [safe_rules]: "safe (binary fo op l r ty classes n)"
  by (auto simp: binary_def broken_simps intro!: safe_rules split: option.split bn_value.split)

lemma safe_cast [safe_rules]: "safe (cast fo v ty)"
  by (auto simp: cast_def cast_integer_def cast_string_def cast_named_def broken_simps intro!: safe_try_sum safe_rules
      split: bn_type.split bn_value.split)

lemma safe_coerce [safe_rules]: "safe (coerce fo v ty)"
proof (induction fo v ty rule: coerce.induct)
  case (1 fo v ty)
  have "safe r" if "coerce_number fo v ty = Some r" for r
    using that by (auto simp: coerce_number_def intro!: safe_rules split: bn_value.splits if_splits)
  then show ?case
    using 1 by (subst coerce.simps) (auto simp: broken_simps split: option.split bn_type.split)
qed

lemma safe_for [safe_rules]: "safe (for_condition a b c)" "safe (for_fits a b)"
  by (auto simp: for_condition_def for_fits_def broken_simps intro!: safe_try_sum safe_rules)

subsection \<open>Data\<close>

lemma safe_heap [safe_rules]:
  "safe (heap_get h k i)" "safe (heap_len h k)" "safe (heap_write h k i v)"
  by (auto simp: heap_get_def heap_len_def heap_write_def heap_payload_def stale_def region_index_error_def broken_simps
      split: option.split)

lemma safe_indexing [safe_rules]:
  "safe (checked_index i n c)" "safe (string_character s i)"
  by (auto simp: checked_index_def string_character_def broken_simps intro!: safe_try_sum)

lemma safe_index_value [safe_rules]: "safe (index_value env st v i)"
  by (auto simp: index_value_def NULL_INDEX_def broken_simps intro!: safe_try_sum safe_rules split: bn_value.split)

lemma safe_indexed_value [safe_rules]: "safe (indexed_value v indices)"
  by (induction v indices rule: indexed_value.induct)
    (auto simp: broken_simps intro!: safe_try_sum safe_rules split: bn_value.split)

lemma safe_element_at [safe_rules]: "safe (element_at env st v indices)"
  by (auto simp: element_at_def simp del: indexed_value.simps intro!: safe_rules split: bn_value.split list.split)

lemma safe_set_index [safe_rules]: "safe (set_index v indices stored st)"
  by (induction v indices stored st rule: set_index.induct)
    (auto simp: NULL_INDEX_def broken_simps intro!: safe_try_sum safe_rules split: bn_value.split)

lemma safe_fields [safe_rules]:
  "\<not> broken_ir missing \<Longrightarrow> safe (object_field st h slot missing)"
  "\<not> broken_ir missing \<Longrightarrow> safe (write_object_field st h slot v missing)"
  "\<not> broken_ir missing \<Longrightarrow> safe (record_field r slot missing)"
  "\<not> broken_ir missing \<Longrightarrow> safe (replace_field r slot v missing)"
  "safe (field_slot field)" "safe (store_slot field)"
  by (auto simp: object_field_def write_object_field_def record_field_def replace_field_def field_slot_def store_slot_def
      broken_simps intro!: safe_try_sum safe_rules split: option.split prod.split)

lemma safe_referenced_field [safe_rules]: "\<not> broken_ir missing \<Longrightarrow> safe (referenced_field st h field missing)"
  by (auto simp: referenced_field_def intro!: safe_try_sum safe_rules)

lemma not_broken [simp]:
  "\<not> broken_ir (NAME_NOT_FOUND a b)" "\<not> broken_ir SLOT_ABSENT" "\<not> broken_ir (INVALID_IR ''field path slot is absent'')"
  "\<not> broken_ir FIELDS_MISSING" "\<not> broken_ir (INVALID_IR (show_arc_error e))"
  by (auto simp: broken_simps SLOT_ABSENT_def FIELDS_MISSING_def show_arc_error_def split: arc_error.split)

lemma safe_member_of [safe_rules]: "safe (member_of env st v name field)"
  by (auto simp: member_of_def broken_simps intro!: safe_try_sum safe_rules split: bn_value.split option.split)

lemma safe_set_member [safe_rules]:
  "safe (set_member_value fr obj name field stored st)" "safe (set_member_index_value fr obj name field indices stored st)"
  by (auto simp: set_member_value_def set_member_index_value_def intro!: safe_try_sum safe_rules split: bn_value.split option.split)

lemma safe_set_field_index_path [safe_rules]: "safe (set_field_index_path v path fs indices stored st)"
  by (induction v path fs indices stored st rule: set_field_index_path.induct)
    (auto simp: broken_simps SLOT_ABSENT_def intro!: safe_try_sum safe_rules split: bn_value.split)

lemma safe_set_field_path [safe_rules]: "safe (set_field_path v path fs stored st)"
  by (induction v path fs stored st rule: set_field_path.induct)
    (auto simp: broken_simps SLOT_ABSENT_def intro!: safe_try_sum safe_rules split: bn_value.split)

lemma safe_field_at [safe_rules]: "safe (field_at st v fs)"
  by (induction st v fs rule: field_at.induct) (auto simp: Let_def intro!: safe_try_sum safe_rules split: bn_value.split)

lemma safe_coerce_to [safe_rules]: "safe (coerce_to env st v ty)"
  by (auto simp: coerce_to_def Let_def broken_simps intro!: safe_try_sum safe_rules
      split: bn_value.split bn_type.split restore_check.split)

lemma safe_size: "safe (size_of_value v)" "safe (size_of_parts n vs)"
  by (induction v and n vs rule: size_of_value_size_of_parts.induct) (auto simp: broken_simps intro!: safe_try_sum safe_rules)

lemmas [safe_rules] = safe_size(1)

subsection \<open>Builtins\<close>

definition safe_outcome :: "(diagnostic + 'a) outcome \<Rightarrow> bool" where
  "safe_outcome r \<longleftrightarrow> (\<forall>s. r = Done s \<longrightarrow> safe s)"

lemma safe_outcome_simps [simp]: "safe_outcome Panic" "safe_outcome (Done s) \<longleftrightarrow> safe s"
  by (simp_all add: safe_outcome_def)

lemma safe_bind: "(\<And>x. r = Done x \<Longrightarrow> safe_outcome (f x)) \<Longrightarrow> safe_outcome (bind_outcome r f)"
  by (cases r) simp_all

lemma safe_lift_value: "safe_outcome r \<Longrightarrow> safe_outcome (lift_value f r)"
  by (cases r) (auto simp: lift_value_def intro: safe_map_sum)

lemma safe_or_diagnostic: "\<not> broken_ir e \<Longrightarrow> safe_outcome (or_diagnostic r e)"
  by (cases "(r, e)" rule: or_diagnostic.cases) auto

lemma safe_zone_failure: "safe_outcome (zone_failure cat tz)"
  by (auto simp: zone_failure_def temporal_out_of_range_def unsupported_timezone_def broken_simps intro!: safe_bind)

lemma safe_temporal [safe_rules]:
  "safe_outcome (temporal_parse_date s)" "safe_outcome (temporal_parse_time s)" "safe (temporal_parse_timezone s)"
  "safe_outcome (temporal_parse_rfc3339 s)" "safe (format_rfc3339 t)" "safe_outcome (temporal_offset cat tz t)"
  "safe_outcome (temporal_is_dst cat tz t)" "safe_outcome (temporal_at_zone cat t tz)"
  "safe_outcome (temporal_from_local cat d n tz)"
  by (auto simp: temporal_parse_date_def temporal_parse_time_def temporal_parse_timezone_def temporal_parse_rfc3339_def
      format_rfc3339_def temporal_offset_def temporal_is_dst_def temporal_at_zone_def temporal_from_local_def
      temporal_out_of_range_def unsupported_timezone_def broken_simps
      intro!: safe_or_diagnostic safe_bind safe_zone_failure split: option.split outcome.split)

lemma safe_arguments:
  "(\<And>s. safe_outcome (f s)) \<Longrightarrow> safe_outcome (string_argument name v f)"
  "(\<And>s. safe_outcome (f s)) \<Longrightarrow> safe_outcome (zone_argument cat name v f)"
  "(\<And>t. safe_outcome (g t)) \<Longrightarrow> safe_outcome (timestamp_argument v m g)"
  by (auto simp: string_argument_def zone_argument_def timestamp_argument_def integer_of_def broken_simps
      split: bn_value.split)

lemma safe_temporal_call [safe_rules]: "safe_outcome (temporal_call cat name arguments)"
  by (auto simp: temporal_call_def temporal_one_def temporal_two_def temporal_three_def require_arity_def Let_def broken_simps
      intro!: safe_arguments safe_lift_value safe_rules split: list.split bn_value.split sum.split)

lemma safe_with_argument: "(\<And>v. safe_outcome (f v)) \<Longrightarrow> safe_outcome (with_argument arguments i f)"
  by (simp add: with_argument_def)

lemma safe_text_builtins:
  "safe (asc_builtin cat v)" "safe (char_builtin cat v)" "safe (case_builtin name change v)"
  by (auto simp: asc_builtin_def char_builtin_def case_builtin_def broken_simps intro!: safe_try_sum safe_rules
      split: bn_value.split option.split)

lemma safe_if:
  "(c \<Longrightarrow> safe_outcome a) \<Longrightarrow> (\<not> c \<Longrightarrow> safe_outcome b) \<Longrightarrow> safe_outcome (if c then a else b)"
  by simp

lemma safe_builtin [safe_rules]: "safe_outcome (builtin fo lower upper name arguments)"
  unfolding builtin_def Let_def
  by (intro safe_if safe_with_argument) (simp_all add: safe_text_builtins safe_for broken_ir_def)

lemma safe_constant [safe_rules]: "safe_outcome (constant_value fo parse c ty)"
  by (auto simp: constant_value_def broken_simps intro!: safe_bind split: ir_constant.split option.split)

section \<open>What every part keeps\<close>

text \<open>Ownership frames of callees may stay above the own one; those below the own one are
  not touched.\<close>

definition frames_kept :: "ownership_frame list \<Rightarrow> ownership_frame list \<Rightarrow> bool" where
  "frames_kept fs fs' \<longleftrightarrow> (case fs of [] \<Rightarrow> True | _ # base \<Rightarrow> (\<exists>extra f. fs' = extra @ f # base))"

definition steady :: "('p, 'w) parts \<Rightarrow> ('p, 'w) parts \<Rightarrow> bool" where
  "steady s s' \<longleftrightarrow>
     x_call_depth s' = x_call_depth s \<and> x_pinned s' = x_pinned s \<and> x_restored s' = {} \<and>
     frames_kept (x_frames s) (x_frames s')"

lemma frames_kept_refl [simp]: "frames_kept fs fs"
  by (cases fs) (auto simp: frames_kept_def intro: exI [of _ "[]"])

lemma frames_kept_trans: "frames_kept fs gs \<Longrightarrow> frames_kept gs hs \<Longrightarrow> frames_kept fs hs"
proof (cases fs)
  case (Cons f0 base)
  assume a: "frames_kept fs gs" "frames_kept gs hs"
  then obtain extra f where g: "gs = extra @ f # base" using Cons by (auto simp: frames_kept_def)
  show ?thesis
  proof (cases extra)
    case Nil
    then show ?thesis using a(2) g Cons by (simp add: frames_kept_def)
  next
    case (Cons e ex)
    then obtain extra' f' where "hs = extra' @ f' # ex @ f # base" using a(2) g by (auto simp: frames_kept_def)
    then have "hs = (extra' @ f' # ex) @ f # base" by simp
    then show ?thesis using \<open>fs = f0 # base\<close> unfolding frames_kept_def by auto
  qed
qed (simp add: frames_kept_def)

lemma steady_refl [simp]: "x_restored s = {} \<Longrightarrow> steady s s"
  by (simp add: steady_def)

lemma steady_trans: "steady s t \<Longrightarrow> steady t u \<Longrightarrow> steady s u"
  by (auto simp: steady_def intro: frames_kept_trans)

text \<open>A run that starts with nothing restored ends with an error that is not about broken
  IR or with a result of which \<open>Q\<close> holds, and keeps what every part keeps.\<close>

definition ensures :: "('p, 'w) machine \<Rightarrow> ('p, 'w, 'a) execution \<Rightarrow> ('a \<Rightarrow> ('p, 'w) machine \<Rightarrow> bool) \<Rightarrow> bool" where
  "ensures st r Q \<longleftrightarrow>
     (x_restored (i_libs st) = {} \<longrightarrow>
        (\<forall>st' res. r = Done (st', res) \<longrightarrow>
           steady (i_libs st) (i_libs st') \<and> safe res \<and> (\<forall>x. res = Inr x \<longrightarrow> Q x st')))"

lemma ensures_Panic [simp]: "ensures st Panic Q"
  by (simp add: ensures_def)

lemma ensures_and_then:
  assumes "ensures st r P" "\<And>x st'. P x st' \<Longrightarrow> ensures st' (f x st') Q"
  shows "ensures st (and_then r f) Q"
proof (cases r)
  case (Done p)
  then obtain st' res where r: "r = Done (st', res)" by (cases p) auto
  show ?thesis
  proof (cases res)
    case (Inr x)
    show ?thesis
      unfolding ensures_def
    proof (intro impI)
      assume "x_restored (i_libs st) = {}"
      then have s: "steady (i_libs st) (i_libs st')" "P x st'" using assms(1) r Inr by (auto simp: ensures_def)
      then have "ensures st' (f x st') Q" "x_restored (i_libs st') = {}" using assms(2) by (auto simp: steady_def)
      then show "\<forall>st'' res'. and_then r f = Done (st'', res') \<longrightarrow>
          steady (i_libs st) (i_libs st'') \<and> safe res' \<and> (\<forall>y. res' = Inr y \<longrightarrow> Q y st'')"
        using r Inr s(1) by (auto simp: ensures_def intro: steady_trans)
    qed
  qed (use assms(1) r in \<open>auto simp: ensures_def\<close>)
qed simp

lemma ensures_weaken: "ensures st r P \<Longrightarrow> (\<And>x st'. P x st' \<Longrightarrow> Q x st') \<Longrightarrow> ensures st r Q"
  by (auto simp: ensures_def)

lemma ensures_answer: "Q x st \<Longrightarrow> ensures st (answer x st) Q"
  by (simp add: ensures_def answer_def)

lemma ensures_answer_at:
  "(x_restored (i_libs st) = {} \<Longrightarrow> steady (i_libs st) (i_libs st')) \<Longrightarrow> Q x st' \<Longrightarrow> ensures st (answer x st') Q"
  by (simp add: ensures_def answer_def)

lemma ensures_lift_sum: "safe r \<Longrightarrow> (\<And>x. r = Inr x \<Longrightarrow> Q x st) \<Longrightarrow> ensures st (lift_sum r st) Q"
  by (simp add: ensures_def lift_sum_def)

lemma ensures_fail [simp]: "\<not> broken_ir e \<Longrightarrow> ensures st (lift_sum (Inl e) st) Q"
  by (simp add: ensures_def lift_sum_def)

lemma ensures_lift_outcome: "safe_outcome r \<Longrightarrow> (\<And>x. r = Done (Inr x) \<Longrightarrow> Q x st) \<Longrightarrow> ensures st (lift_outcome r st) Q"
  by (cases r) (auto simp: ensures_def lift_outcome_def)

lemma ensures_with_value:
  "i \<in> dom (f_values fr) \<Longrightarrow> (\<And>v. f_values fr i = Some v \<Longrightarrow> ensures st (f v st) Q) \<Longrightarrow> ensures st (with_value fr i f st) Q"
  by (auto simp: with_value_def value_at_def lift_sum_def)

text \<open>A change of the state that keeps the machine steady can be put in front.\<close>

lemma ensures_from:
  assumes "ensures st1 r Q" "x_restored (i_libs st) = {} \<Longrightarrow> steady (i_libs st) (i_libs st1)"
  shows "ensures st r Q"
  unfolding ensures_def
proof (intro impI allI)
  fix st' res
  assume a: "x_restored (i_libs st) = {}" "r = Done (st', res)"
  have "steady (i_libs st) (i_libs st1)" "x_restored (i_libs st1) = {}" using assms(2) a(1) by (auto simp: steady_def)
  moreover from this have "steady (i_libs st1) (i_libs st')" "safe res" "\<forall>x. res = Inr x \<longrightarrow> Q x st'"
    using assms(1) a(2) by (auto simp: ensures_def)
  ultimately show "steady (i_libs st) (i_libs st') \<and> safe res \<and> (\<forall>x. res = Inr x \<longrightarrow> Q x st')"
    using steady_trans by blast
qed

lemma ensures_lift_store:
  "safe r \<Longrightarrow> (\<And>x st'. r = Inr (x, st') \<Longrightarrow> i_libs st' = i_libs st \<and> Q x st') \<Longrightarrow> ensures st (lift_store r st) Q"
  by (cases r) (auto simp: ensures_def lift_store_def)

end
