(* ===== verification/BN_Machine_Sound.thy ===== *)
theory BN_Machine_Sound
  imports BN_Machine_Safety
begin

text \<open>
  Execution of an accepted module. The rules below carry the promise \<open>ensures\<close> through
  the interpreter: providers that answer without errors about broken IR, ownership,
  every instruction, blocks, functions and calls.
\<close>

section \<open>Sequences\<close>

lemma ensures_sum_then:
  assumes "safe r" "\<And>x. r = Inr x \<Longrightarrow> ensures st (f x st) Q"
  shows "ensures st (and_then (lift_sum r st) f) Q"
  using assms by (cases r) (simp_all add: lift_sum_def ensures_def)

lemma and_then_lift [simp]: "and_then (lift_sum (Inr x) st) f = f x st"
  by (simp add: lift_sum_def)

lemma ensures_outcome_then:
  assumes "safe_outcome r" "\<And>x. r = Done (Inr x) \<Longrightarrow> ensures st (f x st) Q"
  shows "ensures st (and_then (lift_outcome r st) f) Q"
proof (cases r)
  case (Done s)
  then show ?thesis using assms by (cases s) (simp_all add: lift_outcome_def ensures_def)
qed (simp add: lift_outcome_def)

lemma ensures_answer_then: "ensures st' (f x st') Q \<Longrightarrow> ensures st' (and_then (answer x st') f) Q"
  by (simp add: answer_def)

lemma ensures_true_then:
  "ensures st r (\<lambda>_ _. True) \<Longrightarrow> (\<And>x st'. ensures st' (f x st') Q) \<Longrightarrow> ensures st (and_then r f) Q"
  by (rule ensures_and_then)

lemma ensures_with_symbol:
  "(\<And>v. f_symbols fr i = Some v \<Longrightarrow> ensures st (f v st) Q) \<Longrightarrow> ensures st (with_symbol fr i f st) Q"
  by (auto simp: with_symbol_def broken_simps intro!: ensures_fail split: option.split)

lemma ensures_with_coerced:
  "i \<in> dom (f_values fr) \<Longrightarrow> (\<And>v. ensures st (f v st) Q) \<Longrightarrow> ensures st (with_coerced env fr i ty f st) Q"
  by (auto simp: with_coerced_def intro!: ensures_with_value ensures_sum_then safe_rules)

lemma ensures_store_then:
  assumes "safe r" "\<And>x st'. r = Inr (x, st') \<Longrightarrow> i_libs st' = i_libs st" "\<And>x st'. ensures st' (f x st') Q"
  shows "ensures st (and_then (lift_store r st) f) Q"
  by (rule ensures_true_then [OF ensures_lift_store]) (use assms in auto)

lemma ensures_replaced: "safe r \<Longrightarrow> ensures st (replaced_by previous r st) (\<lambda>_ _. True)"
  by (auto simp: replaced_by_def intro!: ensures_answer ensures_lift_sum split: option.split)

lemma ensures_bind:
  assumes "ensures st r (\<lambda>_ _. True)" "\<And>st' x. ensures st' (f (st', x)) Q"
  shows "ensures st (bind_outcome r f) Q"
proof (cases r)
  case (Done p)
  then obtain st' x where p: "r = Done (st', x)" by (cases p) auto
  show ?thesis unfolding p bind_outcome.simps
    by (rule ensures_from [OF assms(2)]) (use assms(1) p in \<open>auto simp: ensures_def\<close>)
qed simp

lemma ensures_at:
  assumes "ensures st1 r Q" "i_libs st1 = i_libs st"
  shows "ensures st r Q"
  using ensures_from [OF assms(1), of st] assms(2) by simp

lemma ensures_Done:
  assumes "x_restored (i_libs st) = {} \<Longrightarrow> steady (i_libs st) (i_libs st')" "safe r" "\<And>x. r = Inr x \<Longrightarrow> Q x st'"
  shows "ensures st (Done (st', r)) Q"
  using assms by (simp add: ensures_def)

lemma steady_simps [simp]:
  "x_restored s = {} \<Longrightarrow> steady s (s\<lparr>x_world := w\<rparr>)" "x_restored s = {} \<Longrightarrow> steady s (s\<lparr>x_libraries := ps\<rparr>)"
  "x_restored s = {} \<Longrightarrow> steady s (s\<lparr>x_hosts := ps\<rparr>)" "x_restored s = {} \<Longrightarrow> steady s (s\<lparr>x_statics := vs\<rparr>)"
  "x_restored s = {} \<Longrightarrow> steady s (s\<lparr>x_class_init := ci\<rparr>)" "x_restored s = {} \<Longrightarrow> steady s (s\<lparr>x_stop_code := sc\<rparr>)"
  "x_restored s = {} \<Longrightarrow> steady s (s\<lparr>x_unwinding := u\<rparr>)" "x_restored s = {} \<Longrightarrow> steady s (s\<lparr>x_stop_code := sc, x_unwinding := u\<rparr>)"
  by (simp_all add: steady_def)

lemma on_rest_simps [simp]:
  "i_libs (on_rest f st) = f (i_libs st)" "i_memory (on_rest f st) = i_memory st"
  "i_objects (on_rest f st) = i_objects st" "i_arc (on_rest f st) = i_arc st"
  by (simp_all add: on_rest_def)

section \<open>Stores keep the rest\<close>

lemma set_index_libs: "set_index v ns w st = Inr (v', st') \<Longrightarrow> i_libs st' = i_libs st"
  by (induction v ns w st arbitrary: v' rule: set_index.induct)
    (auto simp: try_sum_Inr split: bn_value.splits if_splits prod.splits)

lemma write_object_field_libs: "write_object_field st h slot v missing = Inr st' \<Longrightarrow> i_libs st' = i_libs st"
  by (auto simp: write_object_field_def try_sum_Inr split: if_splits)

lemma set_field_path_libs: "set_field_path v path fs w st = Inr (v', st') \<Longrightarrow> i_libs st' = i_libs st"
  by (induction v path fs w st arbitrary: v' st' rule: set_field_path.induct)
    (auto simp: try_sum_Inr split: bn_value.splits if_splits prod.splits dest!: write_object_field_libs)

lemma set_field_index_path_libs: "set_field_index_path v path fs ns w st = Inr (v', st') \<Longrightarrow> i_libs st' = i_libs st"
  by (induction v path fs ns w st arbitrary: v' st' rule: set_field_index_path.induct)
    (auto simp: try_sum_Inr split: bn_value.splits if_splits prod.splits dest!: write_object_field_libs set_index_libs)

lemma set_member_libs:
  "set_member_value fr obj name field w st = Inr (fr', st') \<Longrightarrow> i_libs st' = i_libs st"
  "set_member_index_value fr obj name field ns w st = Inr (fr', st') \<Longrightarrow> i_libs st' = i_libs st"
  by (auto simp: set_member_value_def set_member_index_value_def try_sum_Inr
      split: option.splits bn_value.splits prod.splits dest!: write_object_field_libs set_index_libs)

text \<open>A store only adds values to the frame.\<close>

definition grown :: "instruction \<Rightarrow> frame \<Rightarrow> frame \<Rightarrow> bool" where
  "grown i fr fr' \<longleftrightarrow> dom (f_values fr) \<union> defined_by [i] \<subseteq> dom (f_values fr')"

lemma dom_values [simp]:
  "f_values (set_value d v fr) = (f_values fr)(d \<mapsto> v)" "f_values (set_symbol s v fr) = f_values fr"
  "f_values (set_previous p v fr) = (case p of None \<Rightarrow> f_values fr | Some d \<Rightarrow> (f_values fr)(d \<mapsto> v))"
  by (simp_all add: set_value_def set_symbol_def set_previous_def split: option.split)

lemma set_member_grows:
  "set_member_value fr obj name field w st = Inr (fr', st') \<Longrightarrow> dom (f_values fr) \<subseteq> dom (f_values fr')"
  "set_member_index_value fr obj name field ns w st = Inr (fr', st') \<Longrightarrow> dom (f_values fr) \<subseteq> dom (f_values fr')"
  by (auto simp: set_member_value_def set_member_index_value_def try_sum_Inr set_value_def
      split: option.splits bn_value.splits prod.splits)

lemma safe_values_at:
  "set is \<subseteq> dom (f_values fr) \<Longrightarrow> safe (values_at fr is)" "set is \<subseteq> dom (f_values fr) \<Longrightarrow> safe (integers_at fr is)"
  by (auto simp: values_at_def integers_at_def value_at_def dom_def subset_iff
      intro!: safe_collect safe_try_sum safe_rules split: option.splits)

section \<open>Providers and ownership\<close>

text \<open>A provider is fine when it invents no error about broken IR: every dialogue ends without
  one if the replies on the way were without one.\<close>

definition fine_option :: "(diagnostic + 'a) option \<Rightarrow> bool" where
  "fine_option r \<longleftrightarrow> (case r of None \<Rightarrow> True | Some s \<Rightarrow> safe s)"

lemma fine_option_simps [simp]: "fine_option None" "fine_option (Some r) \<longleftrightarrow> safe r"
  by (simp_all add: fine_option_def)

definition fine_reply :: "('p, 'w) reply \<Rightarrow> bool" where
  "fine_reply a \<longleftrightarrow>
     (case a of GotValue r \<Rightarrow> safe r | GotOptional r \<Rightarrow> fine_option r | GotRelease r \<Rightarrow> fine_option r | _ \<Rightarrow> True)"

primrec fine :: "('p, 'w) dialogue \<Rightarrow> bool" where
  "fine (Answer p r) \<longleftrightarrow> safe r"
| "fine (Ask q k) \<longleftrightarrow> (\<forall>a. fine_reply a \<longrightarrow> fine (k a))"

definition providers_fine :: "('p, 'w) machine_env \<Rightarrow> bool" where
  "providers_fine env \<longleftrightarrow>
     (\<forall>p member arguments sp. fine (v_provider_call env p member arguments sp)) \<and>
     (\<forall>p cls sp. fine_option (snd (v_provider_allocate env p cls sp))) \<and>
     (\<forall>p v sp. fine_option (snd (v_provider_release env p v sp)) \<and> fine_option (snd (v_provider_retain env p v sp)))"

definition ops_good :: "('p, 'w) machine_env \<Rightarrow> ('p, 'w) core_ops \<Rightarrow> bool" where
  "ops_good env ops \<longleftrightarrow>
     (\<forall>name arguments sp st. ensures st (o_call ops name arguments sp st) (\<lambda>_ _. True)) \<and>
     (\<forall>library member arguments sp st. ensures st (o_library_call ops library member arguments sp st) (\<lambda>_ _. True)) \<and>
     (\<forall>f \<in> set (m_functions (v_module env)). \<forall>arguments st. ensures st (o_function ops f arguments st) (\<lambda>_ _. True))"

lemma ops_goodD:
  assumes "ops_good env ops"
  shows "ensures st (o_call ops name arguments sp st) (\<lambda>_ _. True)"
    "ensures st (o_library_call ops library member arguments sp st) (\<lambda>_ _. True)"
    "f \<in> set (m_functions (v_module env)) \<Longrightarrow> ensures st (o_function ops f arguments st) (\<lambda>_ _. True)"
  using assms by (auto simp: ops_good_def)

lemma fine_offer:
  assumes "\<And>p. fine_option (snd (f p))"
  shows "fine_option (snd (offer f ks ps))"
proof (induction ks arbitrary: ps)
  case (Cons k ks)
  show ?case
  proof (cases "map_of ps k")
    case (Some p)
    obtain p' r where f: "f p = (p', r)" by (cases "f p")
    then have "fine_option r" using assms [of p] by simp
    with f Some show ?thesis by (cases r) (simp_all add: Cons.IH)
  qed (simp add: Cons.IH)
qed (simp add: fine_option_def)

lemma fine_allocate_in:
  "providers_fine env \<Longrightarrow> fine_option (snd (allocate_in env name cls sp ps))"
  by (auto simp: allocate_in_def providers_fine_def fine_option_def split: option.split prod.split) (metis option.simps(5) snd_conv)+

lemma not_broken_hosts [simp]: "\<not> broken_ir (host_unavailable c)" "\<not> broken_ir (no_host_owner env)"
  by (simp_all add: host_unavailable_def no_host_owner_def broken_simps)

lemma host_offer_good:
  assumes "\<And>p. fine_option (snd (f p))" "host_offer env f s = (s', r)" "x_restored s = {}"
  shows "steady s s'" "safe r"
  using fine_offer [of f "map fst (x_hosts s)" "x_hosts s", OF assms(1)] assms(2,3)
  by (auto simp: host_offer_def fine_option_def split: prod.splits option.splits)

lemma library_offer_good:
  assumes "\<And>p. fine_option (snd (f p))" "library_offer f s = (s', r)" "x_restored s = {}"
  shows "steady s s'" "fine_option r"
  using fine_offer [of f "map fst (x_libraries s)" "x_libraries s", OF assms(1)] assms(2,3)
  by (auto simp: library_offer_def split: prod.splits)

lemma providers_offer:
  assumes "providers_fine env" "x_restored s = {}"
  shows "host_retain env v sp s = (s', r) \<Longrightarrow> steady s s' \<and> safe r"
    "host_release env v sp s = (s', r) \<Longrightarrow> steady s s' \<and> safe r"
    "library_retain env v sp s = (s', q) \<Longrightarrow> steady s s' \<and> fine_option q"
    "library_release env v sp s = (s', q) \<Longrightarrow> steady s s' \<and> fine_option q"
proof -
  have fine: "fine_option (snd (v_provider_release env p v sp))" "fine_option (snd (v_provider_retain env p v sp))" for p
    using assms(1) by (auto simp: providers_fine_def)
  show "host_retain env v sp s = (s', r) \<Longrightarrow> steady s s' \<and> safe r"
    "host_release env v sp s = (s', r) \<Longrightarrow> steady s s' \<and> safe r"
    unfolding host_retain_def host_release_def using host_offer_good fine assms(2) by metis+
  show "library_retain env v sp s = (s', q) \<Longrightarrow> steady s s' \<and> fine_option q"
    "library_release env v sp s = (s', q) \<Longrightarrow> steady s s' \<and> fine_option q"
    unfolding library_retain_def library_release_def using library_offer_good fine assms(2) by metis+
qed

lemma try_step_then: "try_step r f = and_then r (\<lambda>_. f)"
  by (cases "(r, f)" rule: try_step.cases) auto

lemma arc_diag_fine [simp]: "\<not> broken_ir (arc_diag e)"
  by (simp add: arc_diag_def)

lemma ensures_outcome_bind:
  "(\<And>x. r = Done x \<Longrightarrow> ensures st (f x) Q) \<Longrightarrow> ensures st (bind_outcome r f) Q"
  by (cases r) simp_all

lemma ensures_here: "safe r \<Longrightarrow> i_libs st' = i_libs st \<Longrightarrow> ensures st (Done (st', r)) (\<lambda>_ _. True)"
  by (simp add: ensures_def)

lemma ensures_retain_handle: "ensures st (retain_handle h sp st) (\<lambda>_ _. True)"
  by (auto simp: retain_handle_def intro!: ensures_outcome_bind ensures_here split: sum.split)

lemma ensures_retain_provider:
  assumes "providers_fine env"
  shows "ensures st (retain_provider (own_env env ops sp') v st) (\<lambda>_ _. True)"
proof -
  have "ensures st (case host_retain env w sp' (i_libs st) of (l, r) \<Rightarrow> Done (st\<lparr>i_libs := l\<rparr>, r)) (\<lambda>_ _. True)" for w
    using providers_offer(1) [OF assms] by (auto simp: ensures_def split: prod.split)
  moreover have "ensures st (case library_retain env w sp' (i_libs st) of (l, r) \<Rightarrow>
      Done (st\<lparr>i_libs := l\<rparr>, case r of None \<Rightarrow> Inr () | Some r' \<Rightarrow> r')) (\<lambda>_ _. True)" for w
    using providers_offer(3) [OF assms] by (fastforce simp: ensures_def fine_option_def split: prod.split option.split)
  ultimately show ?thesis
    by (auto simp: retain_provider_def own_env_def split: bn_value.split)
qed

lemma ensures_retain:
  assumes "providers_fine env"
  shows "ensures st (retain_owned_value (own_env env ops sp') sp v st) (\<lambda>_ _. True)"
    "ensures st (retain_owned_values (own_env env ops sp') sp vs st) (\<lambda>_ _. True)"
proof (induction "own_env env ops sp'" sp v st and "own_env env ops sp'" sp vs st
    rule: retain_owned_value_retain_owned_values.induct)
qed (simp_all add: ensures_retain_handle ensures_retain_provider [OF assms] try_step_then ensures_here ensures_true_then)

text \<open>Destruction runs the program.\<close>

lemma ensures_call_of_kind:
  assumes "ops_good env ops"
  shows "ensures st (call_of_kind (own_env env ops sp) kind h cls st) (\<lambda>_ _. True)"
  by (auto simp: call_of_kind_def own_env_def intro!: ensures_here ensures_true_then [OF ops_goodD(1) [OF assms]] ensures_answer
      split: option.split)

lemma ensures_destroy:
  assumes "ops_good env ops"
  shows "ensures st (destroy_object (own_env env ops sp) h cls st) (\<lambda>_ _. True)"
proof -
  have bind: "ensures st (bind_outcome (call_of_kind (own_env env ops sp) kind h cls st) f) (\<lambda>_ _. True)"
    if "\<And>st' r. safe r \<Longrightarrow> ensures st' (f (st', r)) (\<lambda>_ _. True)" for kind f and st :: "('a, 'b) machine"
  proof (cases "x_restored (i_libs st) = {}")
    case True
    show ?thesis
    proof (rule ensures_outcome_bind)
      fix x assume x: "call_of_kind (own_env env ops sp) kind h cls st = Done x"
      obtain st' r where [simp]: "x = (st', r)" by (cases x)
      have "steady (i_libs st) (i_libs st')" "safe r"
        using ensures_call_of_kind [OF assms, of st sp kind h cls] x True by (auto simp: ensures_def)
      then show "ensures st (f x) (\<lambda>_ _. True)" using that by (auto intro: ensures_from)
    qed
  qed (simp add: ensures_def)
  show ?thesis
    unfolding destroy_object_def Let_def
  proof (rule bind, unfold prod.case, rule ensures_from)
    fix st1 :: "('a, 'b) machine" and r1 :: "diagnostic + unit"
    assume r1: "safe r1"
    let ?st2 = "st1\<lparr>i_libs := e_object_destroyed (own_env env ops sp) h (i_libs st1)\<rparr>"
    show "x_restored (i_libs st1) = {} \<Longrightarrow> steady (i_libs st1) (i_libs ?st2)"
      by (simp add: own_env_def notify_object_destroyed_def)
    show "ensures ?st2 (bind_outcome (call_of_kind (own_env env ops sp) ReleaseFields h cls ?st2) (\<lambda>(st3, r2).
        case finish_destroy (i_arc (st3\<lparr>i_objects := fst (heap_remove (i_objects st3) h)\<rparr>)) (id_of h) of
          Inl e \<Rightarrow> Done (st3\<lparr>i_objects := fst (heap_remove (i_objects st3) h)\<rparr>, Inl (arc_diag e))
        | Inr k \<Rightarrow> Done (st3\<lparr>i_objects := fst (heap_remove (i_objects st3) h), i_arc := k\<rparr>,
            case r1 of Inl e \<Rightarrow> Inl e | Inr _ \<Rightarrow> r2))) (\<lambda>_ _. True)"
      by (rule bind) (use r1 in \<open>auto intro!: ensures_here split: sum.split\<close>)
  qed
qed

lemma ensures_release_parts:
  assumes "ops_good env ops"
  shows "ensures st (release_object (own_env env ops sp') sp h cls st) (\<lambda>_ _. True)"
    "ensures st (release_region sp h st) (\<lambda>_ _. True)"
  by (auto simp: release_object_def release_region_def Let_def
      intro!: ensures_outcome_bind ensures_here ensures_at [OF ensures_destroy [OF assms]] split: sum.split)

lemma ensures_release:
  assumes "ops_good env ops"
  shows "ensures st (release_owned_value (own_env env ops sp') sp v st) (\<lambda>_ _. True)"
    "ensures st (release_elements (own_env env ops sp') sp vs st) (\<lambda>_ _. True)"
    "ensures st (release_fields (own_env env ops sp') sp vs st) (\<lambda>_ _. True)"
proof (induction "own_env env ops sp'" sp v st and "own_env env ops sp'" sp vs st and "own_env env ops sp'" sp vs st
    rule: release_owned_value_release_elements_release_fields.induct)
qed (simp_all add: ensures_release_parts [OF assms] try_step_then ensures_here ensures_true_then)

lemma ensures_registered:
  assumes "\<And>st1 h. i_libs st1 = i_libs st \<Longrightarrow> ensures st (f (st1, h)) Q"
  shows "ensures st (bind_outcome (register_allocation cls sp st) f) Q"
  by (cases "arc_register (i_arc st) cls 0 (site_of sp)") (auto simp: register_allocation_def assms split: prod.split)

lemma ensures_inserted:
  assumes "\<And>r. safe r \<Longrightarrow> ensures st (f r) Q"
  shows "ensures st (bind_outcome (heap_insert reserve h k n x) f) Q"
  using assms by (auto simp: heap_insert_def allocation_payload_def Let_def broken_simps intro!: ensures_outcome_bind
      split: if_splits)

lemma ensures_allocate_object: "ensures st (allocate_object (own_env env ops sp) cls sp' st) (\<lambda>_ _. True)"
  unfolding allocate_object_def Let_def
  by (auto intro!: ensures_registered ensures_inserted ensures_here split: sum.split)

text \<open>A run whose answer is a pair of a provider and a result.\<close>

lemma ensures_reply:
  assumes "ensures st r (\<lambda>_ _. True)" "x_restored (i_libs st) = {}" "r = Done (st', x)"
  shows "steady (i_libs st) (i_libs st')" "safe x"
  using assms by (auto simp: ensures_def)

lemma library_allocate_in_good:
  assumes "providers_fine env" "library_allocate_in env library cls sp st = (st', r)"
  shows "x_restored (i_libs st) = {} \<Longrightarrow> steady (i_libs st) (i_libs st')" "fine_option r"
  using assms(2) fine_allocate_in [OF assms(1), of library cls sp "x_libraries (i_libs st)"]
  by (auto simp: library_allocate_in_def split: prod.splits)

lemma answer_request_good:
  assumes "providers_fine env" "ops_good env ops" "x_restored (i_libs st) = {}" "answer_request env ops q st = Done (st', a)"
  shows "steady (i_libs st) (i_libs st') \<and> fine_reply a"
proof -
  note call = ensures_reply [OF ops_goodD(1) [OF assms(2)] assms(3)]
  note lib = ensures_reply [OF ops_goodD(2) [OF assms(2)] assms(3)]
  note alloc = ensures_reply [OF ensures_allocate_object assms(3)]
  note liballoc = library_allocate_in_good [OF assms(1)]
  note release = providers_offer(4) [OF assms(1,3)]
  have bound: "steady (i_libs st) (i_libs st') \<and> fine_reply a"
    if "bind_outcome run (\<lambda>(st', r). Done (st', GotValue r)) = Done (st', a)"
      "\<And>st' r. run = Done (st', r) \<Longrightarrow> steady (i_libs st) (i_libs st') \<and> safe r" for run
    using that by (cases run) (auto simp: fine_reply_def split: prod.splits)
  show ?thesis
  proof (cases q)
    case (AskCall name arguments sp)
    then show ?thesis using assms(4) call by (intro bound [of "o_call ops name arguments sp st"]) (auto simp: answer_request_def)
  next
    case (AskLibraryCall library member arguments sp)
    then show ?thesis using assms(4) lib
      by (intro bound [of "o_library_call ops library member arguments sp st"]) (auto simp: answer_request_def)
  next
    case (AskAllocateObject cls sp)
    then show ?thesis using assms(4) alloc
      by (intro bound [of "allocate_object (own_env env ops sp) cls sp st"]) (auto simp: answer_request_def)
  next
    case (AskLibraryAllocate library cls sp)
    then show ?thesis using assms(3,4) liballoc by (auto simp: answer_request_def fine_reply_def split: prod.splits)
  next
    case (AskLibraryRelease v sp)
    then show ?thesis using assms(4) release by (auto simp: answer_request_def fine_reply_def split: prod.splits)
  qed (use assms(3,4) in \<open>auto simp: answer_request_def fine_reply_def\<close>)
qed

lemma serve_good:
  assumes "providers_fine env" "ops_good env ops"
  shows "fine d \<Longrightarrow> x_restored (i_libs st) = {} \<Longrightarrow> serve env ops d st = Done (st', p, r) \<Longrightarrow>
    steady (i_libs st) (i_libs st') \<and> safe r"
proof (induction d arbitrary: st)
  case (Ask q k)
  obtain st1 a where a: "answer_request env ops q st = Done (st1, a)"
    using Ask.prems(3) by (cases "answer_request env ops q st") auto
  have s: "steady (i_libs st) (i_libs st1)" "fine_reply a" using answer_request_good [OF assms Ask.prems(2) a] by auto
  have "steady (i_libs st1) (i_libs st') \<and> safe r"
    using Ask.prems s a by (intro Ask.IH [of "k a"]) (auto simp: steady_def)
  with s show ?case by (blast intro: steady_trans)
qed (simp add: steady_def)

lemma ensures_serve:
  assumes "providers_fine env" "ops_good env ops" "x_restored (i_libs st) = {} \<Longrightarrow> steady (i_libs st) (i_libs st1)"
    "\<And>p s. x_restored s = {} \<Longrightarrow> steady s (g p s)"
  shows "ensures st (bind_outcome (serve env ops (v_provider_call env p0 member arguments sp) st1)
    (\<lambda>(st', p', r). Done (on_rest (g p') st', r))) (\<lambda>_ _. True)"
proof (cases "serve env ops (v_provider_call env p0 member arguments sp) st1")
  case (Done x)
  obtain st' p' r where [simp]: "x = (st', p', r)" by (cases x)
  have "fine (v_provider_call env p0 member arguments sp)" using assms(1) by (simp add: providers_fine_def)
  from serve_good [OF assms(1,2) this] Done
  have s: "x_restored (i_libs st1) = {} \<Longrightarrow> steady (i_libs st1) (i_libs st') \<and> safe r" by simp
  show ?thesis
    unfolding Done bind_outcome.simps ensures_def
  proof (intro impI allI)
    fix st2 res
    assume a: "x_restored (i_libs st) = {}" "(case x of (st', p', r) \<Rightarrow> Done (on_rest (g p') st', r)) = Done (st2, res)"
    then have 1: "steady (i_libs st) (i_libs st1)" "x_restored (i_libs st1) = {}"
      using assms(3) by (auto simp: steady_def)
    then have 2: "steady (i_libs st1) (i_libs st')" "safe r" "x_restored (i_libs st') = {}"
      using s by (auto simp: steady_def)
    then have "steady (i_libs st') (g p' (i_libs st'))" using assms(4) by blast
    then show "steady (i_libs st) (i_libs st2) \<and> safe res \<and> (\<forall>x. res = Inr x \<longrightarrow> True)"
      using a(2) 1 2 by (auto intro: steady_trans)
  qed
qed simp

lemma ensures_library_call:
  assumes "providers_fine env" "ops_good env ops"
  shows "ensures st (library_call env ops library member arguments sp st) (\<lambda>_ _. True)"
  by (auto simp: library_call_def broken_simps intro!: ensures_here ensures_serve assms split: option.split)

lemma ensures_host_provider_call:
  assumes "providers_fine env" "ops_good env ops"
  shows "ensures st (host_provider_call env ops capability member arguments sp st) (\<lambda>_ _. True)"
  by (auto simp: host_provider_call_def intro!: ensures_here ensures_serve assms split: option.split)

section \<open>Instructions\<close>

lemma ensures_world_step: "\<not> broken_ir (OUTPUT_ERROR message) \<Longrightarrow> ensures st (world_step f message' st) (\<lambda>_ _. True)"
  by (auto simp: world_step_def broken_simps intro!: ensures_Done split: option.split prod.split)

lemma ensures_streams:
  "ensures st (write_text env s st) (\<lambda>_ _. True)" "ensures st (flush_output env st) (\<lambda>_ _. True)"
  by (simp_all add: write_text_def flush_output_def ensures_world_step [of "[]"] broken_simps)

lemma ensures_defaults:
  assumes "ops_good env ops"
  shows "ensures st (default_named env ops name sp st) (\<lambda>_ _. True)"
    "ensures st (default_value env ops ty dims sp st) (\<lambda>_ _. True)"
proof -
  have lengths: "safe (vector_lengths element declared dims)" for element declared dims
    by (auto simp: vector_lengths_def Let_def broken_simps split: option.split)
  show named: "ensures st (default_named env ops name sp st) (\<lambda>_ _. True)" for name st
    by (auto simp: default_named_def intro!: ensures_answer ops_goodD [OF assms] split: option.split)
  show "ensures st (default_value env ops ty dims sp st) (\<lambda>_ _. True)"
  proof (induction ty arbitrary: dims st)
    case (TVector element declared)
    then show ?case
      by (auto intro!: ensures_lift_sum lengths ensures_true_then named ensures_answer split: option.split)
  next
    case (TAlternative types)
    then show ?case by (auto simp: broken_simps intro!: ensures_answer split: list.split)
  qed (auto simp: broken_simps intro!: ensures_answer)
qed

lemma grown_simps [simp]:
  "grown i fr fr' \<longleftrightarrow> dom (f_values fr) \<union> (case instruction_defines i of None \<Rightarrow> {} | Some d \<Rightarrow> {d}) \<subseteq> dom (f_values fr')"
  by (simp add: grown_def defined_by_Cons split: option.split)

lemmas ensures_rules = ensures_with_value ensures_with_coerced ensures_with_symbol ensures_sum_then ensures_outcome_then
  ensures_answer

lemma ensures_grown:
  assumes "dom (f_values fr) \<union> (case instruction_defines i of None \<Rightarrow> {} | Some d \<Rightarrow> {d}) \<subseteq> dom (f_values fr')"
  shows "ensures st (answer fr' st) (\<lambda>fr' _. grown i fr fr')"
  using assms by (intro ensures_answer) simp

lemma ensures_pure_instruction:
  assumes "set (instruction_uses i) \<subseteq> dom (f_values fr)"
    "case i of IConstant _ _ _ \<Rightarrow> True | ITake _ _ _ \<Rightarrow> True | ICopy _ _ _ \<Rightarrow> True | IUnary _ _ _ _ \<Rightarrow> True
       | IBinary _ _ _ _ _ \<Rightarrow> True | ICast _ _ _ \<Rightarrow> True | IVector _ _ _ \<Rightarrow> True | IIndex _ _ _ _ \<Rightarrow> True
       | IMember _ _ _ _ _ _ \<Rightarrow> True | ILength _ _ \<Rightarrow> True | ISizeOf _ _ \<Rightarrow> True | ILoadStatic _ _ _ _ \<Rightarrow> True
       | ILoad _ _ _ \<Rightarrow> True | _ \<Rightarrow> False"
  shows "ensures st (exec_instruction env ops sp i fr st) (\<lambda>fr' _. grown i fr fr')"
proof -
  have len: "safe (length_of_value env st v)" for v
    by (auto simp: length_of_value_def broken_simps intro!: safe_try_sum safe_rules split: bn_value.split)
  have static: "safe (static_of cls field st)" for cls field
    by (auto simp: static_of_def no_static_def broken_simps split: option.split)
  have bounds: "safe (case l of VPointer h _ \<Rightarrow> map_sum id (\<lambda>n. Some (int n)) (heap_len (i_memory st) h) | _ \<Rightarrow> Inr None)" for l
    by (auto intro!: safe_map_sum safe_rules split: bn_value.split)
  show ?thesis
    using assms
    by (cases i)
      (auto simp: exec_instruction_def instruction_uses_def instruction_defines_def exec_constant_def exec_take_def
        exec_copy_def exec_unary_def exec_binary_def exec_cast_def exec_vector_def exec_index_def exec_member_def
        exec_length_def exec_size_of_def exec_load_static_def exec_load_def Let_def broken_simps safe_values_at
        intro!: ensures_rules len static bounds safe_rules split: option.split list.split if_splits)
qed

text \<open>The other instructions change the machine, or call the program.\<close>

lemma ensures_then_grown:
  "ensures st r (\<lambda>_ _. True) \<Longrightarrow> (\<And>x st'. ensures st' (f x st') (\<lambda>fr' _. grown i fr fr')) \<Longrightarrow>
   ensures st (and_then r f) (\<lambda>fr' _. grown i fr fr')"
  by (rule ensures_true_then)

lemma ensures_take_member:
  assumes "obj \<in> dom (f_values fr)"
  shows "ensures st (exec_take_member d obj field name fr st) (\<lambda>fr' _. dom (f_values fr') = insert d (dom (f_values fr)))"
  using assms
  by (auto simp: exec_take_member_def Let_def broken_simps
      intro!: ensures_with_value ensures_sum_then safe_rules ensures_answer_at split: bn_value.split
      dest!: write_object_field_libs)

lemma ensures_end_binding: "ensures st (exec_end_binding s fr st) (\<lambda>fr' _. fr' = fr)"
  by (auto simp: exec_end_binding_def broken_simps steady_def frames_kept_def intro!: ensures_answer_at split: list.split)

lemma ensures_store:
  assumes "v \<in> dom (f_values fr)" "x_restored (i_libs st) = {}"
  shows "ensures st (exec_store env s v previous ty fr st)
    (\<lambda>fr' _. dom (f_values fr') = (case previous of None \<Rightarrow> {} | Some d \<Rightarrow> {d}) \<union> dom (f_values fr))"
proof -
  have "frames_kept (f # fs) (f' # fs)" for f f' and fs :: "ownership_frame list"
    by (auto simp: frames_kept_def intro: exI [of _ "[]"])
  then show ?thesis
    using assms
    by (auto simp: exec_store_def broken_simps steady_def intro!: ensures_with_value ensures_sum_then safe_rules ensures_answer_at
        split: list.split option.split)
qed

lemma safe_dynamic: "safe (dynamic_dimension fr k)"
  by (auto simp: dynamic_dimension_def broken_simps intro!: safe_try_sum safe_rules split: option.split)

lemma ensures_print: "set is \<subseteq> dom (f_values fr) \<Longrightarrow> ensures st (print_values env first is fr st) (\<lambda>_ _. True)"
  by (induction "is" arbitrary: st first)
    (auto intro!: ensures_answer ensures_true_then ensures_streams ensures_with_value)

lemma ensures_console:
  assumes "c \<in> dom (f_values fr)"
  shows "ensures st (exec_console env code c fr st) (\<lambda>fr' _. fr' = fr)"
  using assms by (auto simp: exec_console_def require_console_def broken_simps
      intro!: ensures_with_value ensures_sum_then ensures_true_then [OF ensures_streams(1)] ensures_answer split: bn_value.split)

lemma ensures_operand: "set is \<subseteq> dom (f_values fr) \<Longrightarrow> (\<And>v. ensures st (f v st) Q) \<Longrightarrow> ensures st (operand fr is k f st) Q"
  by (auto simp: operand_def intro!: ensures_with_value) (meson nth_mem subsetD domD)

lemma ensures_borrowed:
  "set is \<subseteq> dom (f_values fr) \<Longrightarrow> borrowed_intrinsic name is fr st = Some r \<Longrightarrow> ensures st r (\<lambda>_ _. True)"
  by (auto simp: borrowed_intrinsic_def intro!: ensures_operand ensures_lift_sum safe_rules split: if_splits)

lemma ensures_call_instruction:
  assumes "ops_good env ops" "set (callee # arguments) \<subseteq> dom (f_values fr)"
  shows "ensures st (exec_call env ops sp d callee arguments ty fr st) (\<lambda>fr' _. insert d (dom (f_values fr)) \<subseteq> dom (f_values fr'))"
proof -
  have made: "ensures st' (case borrowed_intrinsic name arguments fr st' of Some r \<Rightarrow> r
      | None \<Rightarrow> and_then (lift_sum (values_at fr arguments) st') (\<lambda>args. o_call ops name args sp)) (\<lambda>_ _. True)" for name st'
    using assms
    by (cases "borrowed_intrinsic name arguments fr st'")
      (auto intro!: ensures_sum_then safe_values_at ops_goodD intro: ensures_borrowed)
  show ?thesis
    using assms(2)
    by (auto simp: exec_call_def broken_simps
        intro!: ensures_with_value ensures_true_then [OF made] ensures_sum_then safe_rules ensures_answer split: bn_value.split)
qed

lemma ensures_input:
  assumes "case prompt of None \<Rightarrow> True | Some p \<Rightarrow> p \<in> dom (f_values fr)"
  shows "ensures st (exec_input env d prompt ty fr st) (\<lambda>fr' _. insert d (dom (f_values fr)) \<subseteq> dom (f_values fr'))"
proof -
  have "ensures st (case prompt of None \<Rightarrow> answer () st | Some p \<Rightarrow> with_value fr p (\<lambda>v st.
      and_then (write_text env (render (v_float env) v) st) (\<lambda>_. flush_output env)) st) (\<lambda>_ _. True)"
    using assms by (auto intro!: ensures_answer ensures_with_value ensures_true_then [OF ensures_streams(1)] ensures_streams
        split: option.splits)
  then show ?thesis
    unfolding exec_input_def
  proof (rule ensures_true_then)
    fix st' :: "('a, 'b) machine"
    obtain w r where r: "v_read_line env (x_world (i_libs st')) = (w, r)" by (cases "v_read_line env (x_world (i_libs st'))")
    show "ensures st' (case v_read_line env (x_world (i_libs st')) of (w, r) \<Rightarrow>
        let st' = on_rest (\<lambda>s. s\<lparr>x_world := w\<rparr>) st' in case r of
          Inl e \<Rightarrow> lift_sum (Inl (INPUT_ERROR (''cannot read input: '' @ e))) st'
        | Inr line \<Rightarrow> answer (set_value d (if line = [] then if ty = TString then VString [] else VEndOfFile
            else VString (strip_line_end line)) fr) st')
        (\<lambda>fr' _. insert d (dom (f_values fr)) \<subseteq> dom (f_values fr'))"
      unfolding r prod.case Let_def
      by (rule ensures_from [of "on_rest (\<lambda>s. s\<lparr>x_world := w\<rparr>) st'"])
        (auto simp: broken_simps intro!: ensures_answer split: sum.split)
  qed
qed

lemma ensures_given: "(x_restored (i_libs st) = {} \<Longrightarrow> ensures st r Q) \<Longrightarrow> ensures st r Q"
  by (auto simp: ensures_def)

lemma ensures_lift_default:
  assumes "ops_good env ops"
  shows "ensures st (exec_default env ops sp d ty dims dynamic fr st) (\<lambda>fr' _. insert d (dom (f_values fr)) \<subseteq> dom (f_values fr'))"
  by (auto simp: exec_default_def
      intro!: ensures_sum_then safe_collect safe_dynamic ensures_true_then [OF ensures_defaults(2) [OF assms]] ensures_answer)

lemma ensures_allocate_region:
  assumes "set arguments \<subseteq> dom (f_values fr)"
  shows "ensures st (allocate_region env element arguments fr sp st) (\<lambda>_ _. True)"
proof -
  have count: "safe (case arguments of [] \<Rightarrow> Inr 1 | a # _ \<Rightarrow>
      try_sum (value_at fr a) (\<lambda>v. try_sum (integer_of v) (\<lambda>(count, _).
        if count < 0 then Inl (ALLOCATION_SIZE_INVALID ''numeric NEW length cannot be negative'')
        else if \<not> usize_ok count then Inl (ALLOCATION_SIZE_OVERFLOW ''allocation length does not fit the host'')
        else Inr count)))"
    using assms by (auto simp: value_at_def broken_simps intro!: safe_try_sum safe_rules split: list.split option.split)
  have initial: "safe (pointer_element_default element)"
    by (auto simp: pointer_element_default_def pointer_mismatch_def broken_simps split: bn_type.split)
  show ?thesis
    unfolding allocate_region_def
    by (auto simp: pointer_mismatch_def broken_simps intro!: ensures_sum_then safe_try_sum [OF count] safe_try_sum [OF initial]
        ensures_registered ensures_inserted ensures_here ensures_answer_at split: option.split sum.split)
qed

lemma ensures_allocate:
  assumes "providers_fine env" "ops_good env ops" "set arguments \<subseteq> dom (f_values fr)"
  shows "ensures st (exec_allocate env ops sp d name arguments ty fr st)
    (\<lambda>fr' _. insert d (dom (f_values fr)) \<subseteq> dom (f_values fr'))"
proof -
  have host: "ensures st (host_allocate env capability cls sp st) (\<lambda>_ _. True)" for capability cls
    using fine_allocate_in [OF assms(1), of capability cls sp "x_hosts (i_libs st)"]
    by (auto simp: host_allocate_def fine_option_def intro!: ensures_Done split: prod.splits option.splits)
  have native: "ensures st (case library_allocate env name sp st of
      (st', Some r) \<Rightarrow> lift_sum r st' | (st', None) \<Rightarrow> allocate_object (own_env env ops sp) name sp st') (\<lambda>_ _. True)"
  proof -
    obtain st' r where r: "library_allocate env name sp st = (st', r)" by (cases "library_allocate env name sp st")
    then have "x_restored (i_libs st) = {} \<Longrightarrow> steady (i_libs st) (i_libs st')" "fine_option r"
      using library_allocate_in_good [OF assms(1)] by (auto simp: library_allocate_def split: option.splits)
    then show ?thesis
      unfolding r by (cases r) (auto simp: lift_sum_def intro: ensures_Done ensures_from [OF ensures_allocate_object])
  qed
  have "ensures st (case ty of TPointer element _ \<Rightarrow> allocate_region env element arguments fr sp st
      | _ \<Rightarrow> if is_host_file_type name then host_allocate env ''FileSystem'' ''File'' sp st
             else (case library_allocate env name sp st of
                (st', Some r) \<Rightarrow> lift_sum r st' | (st', None) \<Rightarrow> allocate_object (own_env env ops sp) name sp st'))
      (\<lambda>_ _. True)"
    using host native ensures_allocate_region [OF assms(3)] by (auto split: bn_type.split)
  then show ?thesis unfolding exec_allocate_def by (rule ensures_true_then) (auto intro!: ensures_answer)
qed

lemma ensures_release_value:
  assumes "providers_fine env" "ops_good env ops"
  shows "ensures st (release_value env ops sp v st) (\<lambda>_ _. True)"
proof -
  have host: "ensures st (case host_release env v sp (i_libs st) of (s, r) \<Rightarrow> Done (st\<lparr>i_libs := s\<rparr>, r)) (\<lambda>_ _. True)"
    using providers_offer(2) [OF assms(1)] by (auto simp: ensures_def split: prod.split)
  have other: "ensures st (let (s, released) = (if native then library_release env v sp (i_libs st) else (i_libs st, None))
      in case released of Some r \<Rightarrow> Done (st\<lparr>i_libs := s\<rparr>, r)
         | None \<Rightarrow> release_owned_value (own_env env ops sp) sp v (st\<lparr>i_libs := s\<rparr>)) (\<lambda>_ _. True)" for native
  proof (rule ensures_given)
    assume restored: "x_restored (i_libs st) = {}"
    obtain s q where q: "(if native then library_release env v sp (i_libs st) else (i_libs st, None)) = (s, q)"
      by (metis surj_pair)
    then have "steady (i_libs st) s" "fine_option q"
      using providers_offer(4) [OF assms(1) restored] restored by (auto simp: fine_option_def split: if_splits)
    then show "?thesis"
      unfolding q Let_def prod.case
      by (cases q) (auto simp: fine_option_def intro: ensures_Done ensures_from [OF ensures_release(1) [OF assms(2)]])
  qed
  show ?thesis
  proof (cases v)
    case (VObject h cls)
    show ?thesis
      using other [of "find_layout (v_module env) cls = None"] unfolding release_value_def VObject bn_value.case Let_def .
  qed (use host other [of True] other [of False] in \<open>simp_all only: release_value_def bn_value.case Let_def\<close>)
qed

lemma ensures_class:
  assumes "ops_good env ops"
  shows "ensures st (ensure_class env ops cls st) (\<lambda>_ _. True)"
proof -
  let ?st1 = "on_rest (\<lambda>s. s\<lparr>x_class_init := (x_class_init s)(cls \<mapsto> InitRunning)\<rparr>) st"
  have init: "ensures st (case function_of_kind (v_module env) KInit cls of
      None \<Rightarrow> answer () ?st1
    | Some f \<Rightarrow> and_then (o_function ops f [] ?st1) (\<lambda>r st2.
        case r of FlowStop code \<Rightarrow> answer () (on_rest (\<lambda>s. s\<lparr>x_stop_code := Some code\<rparr>) st2) | FlowReturn _ \<Rightarrow> answer () st2))
      (\<lambda>_ _. True)"
  proof (rule ensures_from [of ?st1])
    have "f \<in> set (m_functions (v_module env))" if "function_of_kind (v_module env) KInit cls = Some f" for f
      using that by (auto simp: function_of_kind_def find_Some_iff)
    then show "ensures ?st1 (case function_of_kind (v_module env) KInit cls of
        None \<Rightarrow> answer () ?st1
      | Some f \<Rightarrow> and_then (o_function ops f [] ?st1) (\<lambda>r st2.
          case r of FlowStop code \<Rightarrow> answer () (on_rest (\<lambda>s. s\<lparr>x_stop_code := Some code\<rparr>) st2) | FlowReturn _ \<Rightarrow> answer () st2))
        (\<lambda>_ _. True)"
      by (auto intro!: ensures_answer ensures_answer_at ensures_true_then [OF ops_goodD(3) [OF assms]] split: option.split flow.split)
  qed simp
  show ?thesis
  proof (cases "x_class_init (i_libs st) cls")
    case None
    show ?thesis
      unfolding ensure_class_def Let_def None option.case
      by (rule ensures_true_then [OF init]) (auto intro!: ensures_answer_at)
  next
    case (Some ci)
    then show ?thesis by (cases ci) (auto simp: ensure_class_def broken_simps intro!: ensures_answer)
  qed
qed

text \<open>Stores: what is replaced, then the write.\<close>

lemma ensures_member_before:
  assumes "obj \<in> dom (f_values fr)" "\<And>m. safe (f st m)"
  shows "ensures st (case previous of None \<Rightarrow> answer VNull st
      | Some _ \<Rightarrow> with_value fr obj (\<lambda>v st. and_then (lift_sum (member_of env st v name field) st) (\<lambda>m st. lift_sum (f st m) st)) st)
    (\<lambda>_ _. True)"
  using assms by (auto intro!: ensures_answer ensures_with_value ensures_sum_then ensures_lift_sum safe_rules split: option.split)

lemma ensures_member_store:
  assumes "safe r" "\<And>fr' st'. r = Inr (fr', st') \<Longrightarrow> i_libs st' = i_libs st \<and> dom (f_values fr) \<subseteq> dom (f_values fr')"
    "instruction_defines i = previous"
  shows "ensures st (and_then (lift_store r st) (\<lambda>fr'. answer (set_previous previous old fr'))) (\<lambda>fr' _. grown i fr fr')"
proof (rule ensures_and_then [OF ensures_lift_store [of r st "\<lambda>fr' _. dom (f_values fr) \<subseteq> dom (f_values fr')"]])
  show "ensures st' (answer (set_previous previous old fr') st') (\<lambda>fr' _. grown i fr fr')"
    if "dom (f_values fr) \<subseteq> dom (f_values fr')" for fr' and st' :: "('a, 'b) machine"
    using that assms(3) by (auto intro!: ensures_answer split: option.split)
qed (use assms in auto)

lemma ensures_set_instruction:
  assumes "set (instruction_uses i) \<subseteq> dom (f_values fr)"
    "case i of ISetIndex _ _ _ _ _ \<Rightarrow> True | ISetMemberIndex _ _ _ _ _ _ _ _ \<Rightarrow> True | ISetFieldIndex _ _ _ _ _ _ _ _ \<Rightarrow> True
       | ISetStaticIndex _ _ _ _ _ _ \<Rightarrow> True | ISetMember _ _ _ _ _ _ _ \<Rightarrow> True | ISetField _ _ _ _ _ _ _ \<Rightarrow> True
       | IStoreStatic _ _ _ _ _ \<Rightarrow> True | _ \<Rightarrow> False"
  shows "ensures st (exec_instruction env ops sp i fr st) (\<lambda>fr' _. grown i fr fr')"
proof -
  have static: "safe (static_of cls field st)" for cls field st
    by (auto simp: static_of_def no_static_def broken_simps split: option.split)
  have path: "safe (try_sum (field_at st root fs) (\<lambda>v. element_at env st v ns))" for root fs ns st
    by (auto intro!: safe_try_sum safe_rules)
  have member: "ensures st (case previous of None \<Rightarrow> answer VNull st
      | Some _ \<Rightarrow> with_value fr obj (\<lambda>v st. lift_sum (member_of env st v name field) st) st) (\<lambda>_ _. True)"
    if "obj \<in> dom (f_values fr)" for previous obj name field st
    using that by (auto intro!: ensures_answer ensures_with_value ensures_lift_sum safe_rules split: option.split)
  show ?thesis
    using assms
  proof (cases i)
    case (ISetIndex s indices v previous ty)
    with assms(1) show ?thesis
      by (auto simp: exec_instruction_def instruction_uses_def instruction_defines_def exec_set_index_def
          intro!: ensures_sum_then ensures_with_coerced ensures_with_symbol ensures_true_then [OF ensures_replaced]
            ensures_store_then safe_values_at safe_rules ensures_answer dest: set_index_libs split: option.split)
  next
    case (ISetMemberIndex obj field name x indices v previous ty)
    show ?thesis
      unfolding exec_instruction_def ISetMemberIndex instruction.case exec_set_member_index_def
      by (intro ensures_sum_then ensures_with_coerced ensures_true_then [OF ensures_member_before] ensures_member_store conjI
          safe_values_at safe_rules)
        (use assms(1) ISetMemberIndex in \<open>auto simp: instruction_uses_def instruction_defines_def
          dest: set_member_libs set_member_grows\<close>)
  next
    case (ISetFieldIndex s x path resolved indices v previous ty)
    with assms(1) show ?thesis
      by (auto simp: exec_instruction_def instruction_uses_def instruction_defines_def exec_set_field_index_def path
          intro!: ensures_sum_then ensures_with_coerced ensures_with_symbol ensures_true_then [OF ensures_replaced]
            ensures_store_then safe_values_at safe_rules ensures_answer dest: set_field_index_path_libs split: option.split)
  next
    case (ISetStaticIndex cls field indices v previous ty)
    with assms(1) show ?thesis
      by (auto simp: exec_instruction_def instruction_uses_def instruction_defines_def exec_set_static_index_def static put_static_def
          intro!: ensures_sum_then ensures_with_coerced ensures_true_then [OF ensures_replaced]
            ensures_store_then safe_values_at safe_rules ensures_answer_at dest: set_index_libs split: option.split)
  next
    case (ISetMember obj field name x v previous ty)
    show ?thesis
      unfolding exec_instruction_def ISetMember instruction.case exec_set_member_def
      by (intro ensures_with_coerced ensures_true_then [OF member] ensures_member_store conjI safe_rules)
        (use assms(1) ISetMember in \<open>auto simp: instruction_uses_def instruction_defines_def
          dest: set_member_libs set_member_grows\<close>)
  next
    case (ISetField s x path resolved v previous ty)
    with assms(1) show ?thesis
      by (auto simp: exec_instruction_def instruction_uses_def instruction_defines_def exec_set_field_def
          intro!: ensures_sum_then ensures_with_coerced ensures_with_symbol ensures_true_then [OF ensures_replaced]
            ensures_store_then safe_rules ensures_answer dest: set_field_path_libs split: option.split)
  next
    case (IStoreStatic cls field v previous ty)
    with assms(1) show ?thesis
      by (auto simp: exec_instruction_def instruction_uses_def instruction_defines_def exec_store_static_def put_static_def
          intro!: ensures_with_coerced ensures_answer_at split: option.split)
  qed simp_all
qed

lemma ensures_instruction:
  assumes "providers_fine env" "ops_good env ops" "\<not> is_phi i" "set (instruction_uses i) \<subseteq> dom (f_values fr)"
  shows "ensures st (exec_instruction env ops sp i fr st) (\<lambda>fr' _. grown i fr fr')"
proof -
  note uses = assms(4) [unfolded instruction_uses_def]
  note pure = ensures_pure_instruction [OF assms(4), where st = st and env = env and ops = ops and sp = sp]
    and stores = ensures_set_instruction [OF assms(4), where st = st and env = env and ops = ops and sp = sp]
  note exec = exec_instruction_def instruction_defines_def
  show ?thesis
  proof (cases i)
    case (IPhi d arms ty)
    then show ?thesis using assms(3) by (simp add: is_phi_def)
  next
    case (IRetain d v x)
    then show ?thesis using uses
      by (auto simp: exec exec_retain_def intro!: ensures_with_value ensures_true_then [OF ensures_retain(1) [OF assms(1)]] ensures_answer)
  next
    case (ITakeMember d obj field name x y)
    then have "obj \<in> dom (f_values fr)" using uses by simp
    then show ?thesis unfolding ITakeMember exec instruction.case
      by (rule ensures_weaken [OF ensures_take_member]) (simp add: exec)
  next
    case (IEndBinding s)
    then show ?thesis using ensures_weaken [OF ensures_end_binding] by (fastforce simp: exec)
  next
    case (IDefault d ty dims dynamic)
    then show ?thesis using ensures_lift_default [OF assms(2)] by (simp add: exec insert_subset)
  next
    case (IStore s v previous ty)
    then have v: "v \<in> dom (f_values fr)" using uses by simp
    show ?thesis
      unfolding IStore exec instruction.case
      by (rule ensures_given) (rule ensures_weaken [OF ensures_store [OF v]], auto simp: exec)
  next
    case (ICall d callee arguments ty)
    then show ?thesis using ensures_call_instruction [OF assms(2), of callee arguments fr st sp d ty] uses by (simp add: exec)
  next
    case (IDispatchSubmit d callee queue task arguments ty)
    then show ?thesis using ensures_call_instruction [OF assms(2), of callee "queue # task # arguments" fr st sp d ty] uses
      by (simp add: exec)
  next
    case (IDispatchAwait d callee ticket timeout ty)
    then show ?thesis using ensures_call_instruction [OF assms(2), of callee "[ticket, timeout]" fr st sp d ty] uses
      by (simp add: exec)
  next
    case (IInput d prompt ty)
    then show ?thesis using ensures_input [of fr prompt st env d ty] uses by (cases prompt) (simp_all add: exec)
  next
    case (IPrint vs)
    then show ?thesis using uses
      by (auto simp: exec exec_print_def intro!: ensures_true_then [OF ensures_print] ensures_true_then [OF ensures_streams(1)]
          ensures_answer)
  next
    case (IClearScreen c)
    then show ?thesis using uses
      by (auto simp: exec exec_clear_screen_def intro: ensures_weaken [OF ensures_console])
  next
    case (IBeep c)
    then show ?thesis using uses by (auto simp: exec exec_beep_def intro: ensures_weaken [OF ensures_console])
  next
    case (IAllocate d name arguments ty)
    then show ?thesis using ensures_allocate [OF assms(1,2), of arguments fr st sp d name ty] uses by (simp add: exec)
  next
    case (IRelease v x)
    then show ?thesis using uses
      by (auto simp: exec exec_release_def intro!: ensures_with_value ensures_true_then [OF ensures_release_value [OF assms(1,2)]]
          ensures_answer)
  next
    case (IEnsureClass cls)
    then show ?thesis
      by (auto simp: exec intro!: ensures_true_then [OF ensures_class [OF assms(2)]] ensures_answer)
  qed (use pure stores in \<open>simp_all only: instruction.case True_implies_equals\<close>)
qed

section \<open>Blocks\<close>

text \<open>A function in the shape lowering gives: no instruction but a phi reads the value it
  defines, and no phi stands in the entry block. The validator checks neither.\<close>

definition well_shaped :: "ir_function \<Rightarrow> bool" where
  "well_shaped f \<longleftrightarrow>
     list_all (\<lambda>b. list_all (\<lambda>i. is_phi i \<or>
       (case instruction_defines i of None \<Rightarrow> True | Some d \<Rightarrow> d \<notin> set (instruction_uses i))) (bb_instructions b)) (fn_blocks f) \<and>
     list_all (\<lambda>i. \<not> is_phi i) (bb_instructions (fn_blocks f ! fn_entry f))"

definition accepted :: "('p, 'w) machine_env \<Rightarrow> bool" where
  "accepted env \<longleftrightarrow> validate (v_module env) = Some (Inr ()) \<and> list_all well_shaped (m_functions (v_module env))"

definition last_of :: "nat list \<Rightarrow> nat option" where
  "last_of p = (if p = [] then None else Some (last p))"

lemma last_of_simps [simp]: "last_of [] = None" "last_of (p @ [b]) = Some b"
  by (simp_all add: last_of_def)

lemma walk_first: "walk f p b \<Longrightarrow> p = [] \<Longrightarrow> b = fn_entry f"
  by (induction rule: walk.induct) simp_all

lemma ensures_phi:
  assumes "accepted env" "f \<in> set (m_functions (v_module env))" "walk f p b" "i = IPhi d arms ty"
    "bb_instructions (fn_blocks f ! b) = before @ i # after" "defined_on f p \<subseteq> dom (f_values fr)"
  shows "ensures st (exec_phi d arms (last_of p) fr st) (\<lambda>fr' _. grown i fr fr')"
proof (cases p rule: rev_cases)
  case Nil
  then have "b = fn_entry f" "well_shaped f" using walk_first assms(1-3) by (auto simp: accepted_def list_all_iff)
  then show ?thesis using assms(4,5) by (auto simp: well_shaped_def is_phi_def)
next
  case (snoc q a)
  have wf: "well_formed (v_module env) f" using assms(1,2) accepted_function by (simp add: accepted_def)
  then have "instruction_spec (v_module env) f b before i"
    using assms(3,5) unfolding well_formed_def block_spec_def Let_def by blast
  then have spec: "phi_spec f b arms ty" using assms(4) by (simp add: instruction_spec_def)
  then have "a \<in> fst ` set arms" using assms(3) snoc by (auto simp: phi_spec_def)
  then obtain v where v: "map_of arms a = Some v" by (metis map_of_eq_None_iff option.exhaust)
  then have "v \<in> defined_on f p" using spec assms(3) snoc map_of_SomeD [OF v] unfolding phi_spec_def by blast
  then have "v \<in> dom (f_values fr)" using assms(6) by blast
  then show ?thesis using v assms(4)
    by (auto simp: exec_phi_def snoc instruction_defines_def intro!: ensures_with_value ensures_answer)
qed

lemma ensures_one:
  assumes "providers_fine env" "ops_good env ops" "accepted env" "f \<in> set (m_functions (v_module env))" "walk f p b"
    "bb_instructions (fn_blocks f ! b) = before @ i # after" "b < length (fn_blocks f)"
    "defined_on f p \<union> defined_by before \<subseteq> dom (f_values fr)"
  shows "ensures st (exec_one env ops (last_of p) sp i fr st) (\<lambda>fr' _. grown i fr fr')"
proof (cases "is_phi i")
  case True
  then obtain d arms ty where i: "i = IPhi d arms ty" by (cases i) (auto simp: is_phi_def)
  show ?thesis
    using ensures_phi [OF assms(3-5) i assms(6), of fr st] assms(8) by (simp add: exec_one_def i)
next
  case False
  have "well_shaped f" using assms(3,4) by (auto simp: accepted_def list_all_iff)
  moreover have "i \<in> set (bb_instructions (fn_blocks f ! b))" "fn_blocks f ! b \<in> set (fn_blocks f)"
    using assms(6,7) by simp_all
  ultimately have "case instruction_defines i of None \<Rightarrow> True | Some d \<Rightarrow> d \<notin> set (instruction_uses i)"
    using False unfolding well_shaped_def list_all_iff by blast
  then have own: "instruction_defines i \<noteq> Some v" if "v \<in> set (instruction_uses i)" for v
    using that by auto
  have "validate (v_module env) = Some (Inr ())" using assms(3) by (simp add: accepted_def)
  from read_available [OF this assms(4-6) False] own assms(5,8)
  have "set (instruction_uses i) \<subseteq> dom (f_values fr)" unfolding available_def by blast
  from ensures_instruction [OF assms(1,2) False this]
  have "ensures st (exec_instruction env ops sp i fr st) (\<lambda>fr' _. grown i fr fr')" .
  then show ?thesis using False by (cases i) (simp_all add: exec_one_def is_phi_def)
qed

lemma ensures_run_instructions:
  assumes "providers_fine env" "ops_good env ops" "accepted env" "f \<in> set (m_functions (v_module env))" "walk f p b"
    "b < length (fn_blocks f)"
  shows "bb_instructions (fn_blocks f ! b) = before @ is \<Longrightarrow> defined_on f p \<union> defined_by before \<subseteq> dom (f_values fr) \<Longrightarrow>
    ensures st (run_instructions env ops f b (last_of p) k is fr st)
      (\<lambda>progress _. case progress of
         Inl fr' \<Rightarrow> defined_on f p \<union> defined_by (bb_instructions (fn_blocks f ! b)) \<subseteq> dom (f_values fr') | Inr _ \<Rightarrow> True)"
proof (induction "is" arbitrary: before k fr st)
  case Nil
  then show ?case by (auto intro!: ensures_answer)
next
  case (Cons i rest)
  have "ensures st' (case stops_here i rest st' of
        Some code \<Rightarrow> answer (Inr code) (on_rest (\<lambda>s. s\<lparr>x_stop_code := None\<rparr>) st')
      | None \<Rightarrow> run_instructions env ops f b (last_of p) (Suc k) rest fr' st')
      (\<lambda>progress _. case progress of
         Inl fr' \<Rightarrow> defined_on f p \<union> defined_by (bb_instructions (fn_blocks f ! b)) \<subseteq> dom (f_values fr') | Inr _ \<Rightarrow> True)"
    if "grown i fr fr'" for fr' st'
  proof -
    have "defined_on f p \<union> defined_by (before @ [i]) \<subseteq> dom (f_values fr')"
      using that Cons.prems(2) unfolding grown_def defined_by_append by blast
    from Cons.IH [OF _ this] Cons.prems(1) show ?thesis
      by (auto intro!: ensures_answer_at split: option.split)
  qed
  then show ?case
    unfolding run_instructions.simps
    by (rule ensures_and_then [OF ensures_one [OF assms(1-5) Cons.prems(1) assms(6) Cons.prems(2)]])
qed

section \<open>Functions\<close>

text \<open>The body of a function may leave ownership frames of its callees, and its own after an
  error or a STOP, above those of its caller.\<close>

definition topped :: "ownership_frame list \<Rightarrow> ownership_frame list \<Rightarrow> bool" where
  "topped base fs \<longleftrightarrow> (\<exists>extra f. fs = extra @ f # base)"

definition ends :: "ownership_frame list \<Rightarrow> ('p, 'w) machine \<Rightarrow> ('p, 'w, 'a) execution \<Rightarrow> bool" where
  "ends base st r \<longleftrightarrow>
     (x_restored (i_libs st) = {} \<and> topped base (x_frames (i_libs st)) \<longrightarrow>
        (\<forall>st' res. r = Done (st', res) \<longrightarrow>
           x_call_depth (i_libs st') = x_call_depth (i_libs st) \<and> x_pinned (i_libs st') = x_pinned (i_libs st) \<and>
           x_restored (i_libs st') = {} \<and> (\<exists>extra. x_frames (i_libs st') = extra @ base) \<and> safe res))"

lemma endsD:
  assumes "ends base st r" "x_restored (i_libs st) = {}" "topped base (x_frames (i_libs st))" "r = Done (st', res)"
  shows "x_call_depth (i_libs st') = x_call_depth (i_libs st)" "x_pinned (i_libs st') = x_pinned (i_libs st)"
    "x_restored (i_libs st') = {}" "\<exists>extra. x_frames (i_libs st') = extra @ base" "safe res"
  using assms unfolding ends_def by blast+

lemma topped_kept: "topped base fs \<Longrightarrow> frames_kept fs fs' \<Longrightarrow> topped base fs'"
proof -
  assume a: "topped base fs" "frames_kept fs fs'"
  then obtain extra f where fs: "fs = extra @ f # base" by (auto simp: topped_def)
  show "topped base fs'"
  proof (cases extra)
    case Nil
    then show ?thesis using a(2) fs by (auto simp: frames_kept_def topped_def)
  next
    case (Cons e es)
    then obtain extra' f' where "fs' = (extra' @ f' # es) @ f # base" using a(2) fs by (auto simp: frames_kept_def)
    then show ?thesis unfolding topped_def by blast
  qed
qed

lemma topped_tl: "topped base fs \<Longrightarrow> \<exists>extra. tl fs = extra @ base"
  unfolding topped_def by (auto simp: tl_append split: list.split)

lemma ends_and_then:
  assumes "ensures st r P" "\<And>x st'. P x st' \<Longrightarrow> ends base st' (f x st')"
  shows "ends base st (and_then r f)"
proof (cases r)
  case (Done q)
  then obtain st' res where r: "r = Done (st', res)" by (cases q) auto
  show ?thesis
    unfolding ends_def
  proof (intro impI)
    assume a: "x_restored (i_libs st) = {} \<and> topped base (x_frames (i_libs st))"
    then have s: "steady (i_libs st) (i_libs st')" "safe res" "\<And>x. res = Inr x \<Longrightarrow> P x st'"
      using assms(1) r by (auto simp: ensures_def)
    have t: "topped base (x_frames (i_libs st'))" using a s(1) topped_kept by (auto simp: steady_def)
    then have above: "\<exists>extra. x_frames (i_libs st') = extra @ base" by (auto simp: topped_def intro: exI [of _ "xs @ [y]" for xs y])
    show "\<forall>st'' res'. and_then r f = Done (st'', res') \<longrightarrow>
        x_call_depth (i_libs st'') = x_call_depth (i_libs st) \<and> x_pinned (i_libs st'') = x_pinned (i_libs st) \<and>
        x_restored (i_libs st'') = {} \<and> (\<exists>extra. x_frames (i_libs st'') = extra @ base) \<and> safe res'"
    proof (cases res)
      case (Inl e)
      then show ?thesis using r s above by (auto simp: steady_def)
    next
      case (Inr x)
      then have "ends base st' (f x st')" using s(3) assms(2) by blast
      then show ?thesis using r s(1) Inr t by (auto simp: ends_def steady_def)
    qed
  qed
qed (simp add: ends_def)

lemma ends_answer:
  assumes "x_restored (i_libs st) = {} \<Longrightarrow> topped base (x_frames (i_libs st)) \<Longrightarrow>
    x_call_depth (i_libs st') = x_call_depth (i_libs st) \<and> x_pinned (i_libs st') = x_pinned (i_libs st) \<and>
    x_restored (i_libs st') = {} \<and> (\<exists>extra. x_frames (i_libs st') = extra @ base)"
  shows "ends base st (answer x st')"
  using assms by (simp add: ends_def answer_def)

lemma topped_above: "topped base fs \<Longrightarrow> \<exists>extra. fs = extra @ base"
  by (auto simp: topped_def intro: exI [of _ "xs @ [y]" for xs y])

lemma ensures_value_read:
  "v \<in> dom (f_values fr) \<Longrightarrow> ensures st (lift_sum (value_at fr v) st) (\<lambda>_ _. True)"
  by (auto simp: value_at_def intro!: ensures_lift_sum)

lemma ends_with_value:
  "v \<in> dom (f_values fr) \<Longrightarrow> (\<And>x st'. ends base st' (f x st')) \<Longrightarrow> ends base st (with_value fr v f st)"
  unfolding with_value_def by (rule ends_and_then [OF ensures_value_read])

lemma ends_return:
  assumes "case r of None \<Rightarrow> True | Some v \<Rightarrow> v \<in> dom (f_values fr)"
  shows "ends base st (run_return r fr st)"
proof -
  have "ensures st (case r of None \<Rightarrow> answer None st | Some i \<Rightarrow> with_value fr i (\<lambda>v. answer (Some v)) st) (\<lambda>_ _. True)"
    using assms by (auto intro!: ensures_answer ensures_with_value split: option.splits)
  then show ?thesis
    unfolding run_return_def by (rule ends_and_then) (auto simp: pop_frame_def intro!: ends_answer topped_tl)
qed

lemma ends_stop: "v \<in> dom (f_values fr) \<Longrightarrow> ends base st (run_stop v fr st)"
  unfolding run_stop_def
  by (auto simp: pop_frame_def intro!: ends_with_value ends_and_then [OF ensures_lift_sum, where P = "\<lambda>_ _. True"] safe_rules
      ends_answer topped_tl)

lemma ends_run_blocks:
  assumes "providers_fine env" "ops_good env ops" "accepted env" "f \<in> set (m_functions (v_module env))"
  shows "walk f p b \<Longrightarrow> defined_on f p \<subseteq> dom (f_values fr) \<Longrightarrow> ends base st (run_blocks env ops f n b (last_of p) fr st)"
proof (induction n arbitrary: p b fr st)
  case 0
  then show ?case by (simp add: ends_def)
next
  case (Suc n)
  let ?block = "fn_blocks f ! b"
  have wf: "well_formed (v_module env) f" using assms(3,4) accepted_function by (simp add: accepted_def)
  then have b: "b < length (fn_blocks f)" using Suc.prems(1) walk_in_range by (auto simp: well_formed_def)
  then have found: "find_block f b = Inr ?block" using wf by (simp add: find_block_def well_formed_def dense_def)
  have leaves: "check_terminator (v_module env) f (types_of f) (available f b (bb_instructions ?block)) (bb_terminator ?block) = Inr ()"
    using wf Suc.prems(1) unfolding well_formed_def block_spec_def Let_def by blast
  have body: "ensures st (run_instructions env ops f b (last_of p) 0 (bb_instructions ?block) fr st)
      (\<lambda>progress _. case progress of
         Inl fr' \<Rightarrow> defined_on f p \<union> defined_by (bb_instructions ?block) \<subseteq> dom (f_values fr') | Inr _ \<Rightarrow> True)"
    by (rule ensures_run_instructions [OF assms Suc.prems(1) b, of "[]"]) (use Suc.prems(2) in simp_all)
  have following: "ends base st' (run_blocks env ops f n c (Some b) fr' st')"
    if "c \<in> set (block_successors (bb_terminator ?block))"
      "defined_on f p \<union> defined_by (bb_instructions ?block) \<subseteq> dom (f_values fr')" for c fr' st'
    using Suc.IH [OF walk_step [OF Suc.prems(1) that(1)], of fr' st'] that(2) by simp
  have in_frame: "v \<in> dom (f_values fr')" if "v \<in> available f b (bb_instructions ?block)"
      "defined_on f p \<union> defined_by (bb_instructions ?block) \<subseteq> dom (f_values fr')" for v fr'
    using that Suc.prems(1) by (auto simp: available_def)
  have ending: "ends base st' (case bb_terminator ?block of
        TermJump target \<Rightarrow> run_blocks env ops f n target (Some b) fr' st'
      | TermBranch condition then_block else_block \<Rightarrow>
          with_value fr' condition (\<lambda>v st.
          and_then (lift_sum (boolean_of v) st) (\<lambda>c st.
            run_blocks env ops f n (if c then then_block else else_block) (Some b) fr' st)) st'
      | TermReturn result \<Rightarrow> run_return result fr' st'
      | TermStop code \<Rightarrow> run_stop code fr' st')"
    if dom: "defined_on f p \<union> defined_by (bb_instructions ?block) \<subseteq> dom (f_values fr')" for fr' st'
  proof (cases "bb_terminator ?block")
    case (TermJump target)
    then show ?thesis using following [OF _ dom, of target] by (simp add: block_successors_def)
  next
    case (TermBranch condition then_block else_block)
    then have "condition \<in> dom (f_values fr')"
      using leaves in_frame [OF _ dom] by (auto simp: check_terminator_def split: if_splits)
    then show ?thesis
      using following [OF _ dom, of "if c then then_block else else_block" for c] TermBranch
      by (auto simp: block_successors_def
          intro!: ends_with_value ends_and_then [OF ensures_lift_sum, where P = "\<lambda>_ _. True"] safe_rules)
  next
    case (TermReturn result)
    then have "case result of None \<Rightarrow> True | Some v \<Rightarrow> v \<in> dom (f_values fr')"
      using leaves in_frame [OF _ dom] by (auto simp: check_terminator_def split: if_splits option.splits)
    then show ?thesis using TermReturn by (simp add: ends_return)
  next
    case (TermStop code)
    then have "code \<in> dom (f_values fr')"
      using leaves in_frame [OF _ dom] by (auto simp: check_terminator_def split: if_splits)
    then show ?thesis using TermStop by (simp add: ends_stop)
  qed
  show ?case
    unfolding run_blocks.simps found and_then_lift
    by (rule ends_and_then [OF body]) (use ending in \<open>auto intro!: ends_answer topped_above split: sum.split\<close>)
qed

lemma frames_above: "fs' = extra @ fs \<Longrightarrow> frames_kept fs fs'"
  by (cases fs) (auto simp: frames_kept_def)

lemma ensures_run_function:
  assumes "providers_fine env" "ops_good env ops" "accepted env" "f \<in> set (m_functions (v_module env))"
  shows "ensures st (run_function env ops n f arguments st) (\<lambda>_ _. True)"
proof (cases "length arguments = length (fn_parameters f)")
  case True
  let ?fr = "new_frame f arguments (if x_call_depth (i_libs st) = 0 then x_bindings (i_libs st) else Map.empty)"
  have e: "ends (x_frames (i_libs st)) (enter_function f st) (run_blocks env ops f n (fn_entry f) (last_of []) ?fr (enter_function f st))"
    by (rule ends_run_blocks [OF assms walk_entry]) simp
  have top: "topped (x_frames (i_libs st)) (x_frames (i_libs (enter_function f st)))"
    unfolding topped_def enter_function_def on_rest_simps by (rule exI [of _ "[]"]) simp
  have kept: "x_call_depth (i_libs (enter_function f st)) = x_call_depth (i_libs st)"
    "x_pinned (i_libs (enter_function f st)) = x_pinned (i_libs st)"
    "x_restored (i_libs (enter_function f st)) = x_restored (i_libs st)"
    by (simp_all add: enter_function_def)
  have run: "run_function env ops n f arguments st =
      run_blocks env ops f n (fn_entry f) (last_of []) ?fr (enter_function f st)"
    using True by (simp add: run_function_def)
  show ?thesis
    unfolding run ensures_def
  proof (intro impI allI)
    fix st' res
    assume a: "x_restored (i_libs st) = {}"
      "run_blocks env ops f n (fn_entry f) (last_of []) ?fr (enter_function f st) = Done (st', res)"
    note d = endsD [OF e _ top a(2), unfolded kept, OF a(1)]
    show "steady (i_libs st) (i_libs st') \<and> safe res \<and> (\<forall>x. res = Inr x \<longrightarrow> True)"
      using d frames_above unfolding steady_def by blast
  qed
qed (simp add: run_function_def broken_simps)

section \<open>Calls\<close>

lemma ensures_if:
  "(c \<Longrightarrow> ensures st a Q) \<Longrightarrow> (\<not> c \<Longrightarrow> ensures st b Q) \<Longrightarrow> ensures st (if c then a else b) Q"
  by simp

lemma ensures_around:
  assumes "ensures st1 r (\<lambda>_ _. True)" "st1 = enter_call pinned st"
    "\<And>x st2. ensures st2 (g x st2) (\<lambda>_ _. True)"
  shows "ensures st (bind_outcome r (\<lambda>(st', res). case res of Inl e \<Rightarrow> Done (leave_call pinned st', Inl e)
    | Inr x \<Rightarrow> g x (leave_call pinned st'))) (\<lambda>_ _. True)"
proof (cases r)
  case (Done q)
  then obtain st' res where r: "r = Done (st', res)" by (cases q) auto
  have left: "steady (i_libs st) (i_libs (leave_call pinned st')) \<and> safe res" if "x_restored (i_libs st) = {}"
    using assms(1,2) r that
    by (cases pinned) (auto simp: ensures_def steady_def enter_call_def leave_call_def)
  show ?thesis
  proof (cases res)
    case (Inl e)
    then show ?thesis using r left by (auto simp: ensures_def)
  next
    case (Inr x)
    then show ?thesis using r left by (auto intro!: ensures_from [OF assms(3)])
  qed
qed simp

lemma ensures_call_function:
  assumes "ops_good env ops"
  shows "ensures st (call_function env ops name arguments st) (\<lambda>_ _. True)"
proof -
  let ?resolved = "case strip_prefix ''@super:'' name of Some base \<Rightarrow> base
      | None \<Rightarrow> dispatch_name (v_module env) (x_pinned (i_libs st)) name arguments"
  show ?thesis
  proof (cases "find_function (v_module env) ?resolved")
    case None
    then show ?thesis by (simp add: call_function_def)
  next
    case (Some callee)
    let ?entered = "enter_call (lifecycle_dispatch callee arguments) st"
    have "callee \<in> set (m_functions (v_module env))" using Some by (auto simp: find_function_def find_Some_iff)
    then have "ensures ?entered (o_function ops callee arguments ?entered) (\<lambda>_ _. True)" by (rule ops_goodD(3) [OF assms])
    from ensures_around [OF this refl, where g = "\<lambda>x st2. case x of FlowReturn v \<Rightarrow> answer (case v of None \<Rightarrow> VNull | Some w \<Rightarrow> w) st2
          | FlowStop code \<Rightarrow> answer VNull (on_rest (\<lambda>s. s\<lparr>x_stop_code := Some code\<rparr>) st2)"]
    have "ensures st (bind_outcome (o_function ops callee arguments (enter_call (lifecycle_dispatch callee arguments) st))
        (\<lambda>(st', res). case res of Inl e \<Rightarrow> Done (leave_call (lifecycle_dispatch callee arguments) st', Inl e)
           | Inr x \<Rightarrow> (case x of FlowReturn v \<Rightarrow> answer (case v of None \<Rightarrow> VNull | Some w \<Rightarrow> w)
                  (leave_call (lifecycle_dispatch callee arguments) st')
               | FlowStop code \<Rightarrow> answer VNull (on_rest (\<lambda>s. s\<lparr>x_stop_code := Some code\<rparr>)
                  (leave_call (lifecycle_dispatch callee arguments) st'))))) (\<lambda>_ _. True)"
      by (simp add: ensures_answer ensures_answer_at split: flow.split)
    then show ?thesis
      using Some by (simp add: call_function_def broken_simps Let_def cong: option.case_cong)
  qed
qed

lemma safe_host_call: "safe (host_call env name arguments)"
  by (auto simp: host_call_def Let_def require_arity_def broken_simps intro!: safe_try_sum)

lemma ensures_call_named:
  assumes "providers_fine env" "ops_good env ops"
  shows "ensures st (call_named env ops name arguments sp st) (\<lambda>_ _. True)"
proof -
  have host: "ensures st (call_host env ops name tail arguments sp st) (\<lambda>_ _. True)" for tail
    by (auto simp: call_host_def intro!: ensures_lift_sum safe_host_call ensures_host_provider_call [OF assms]
        split: option.split prod.split)
  show ?thesis
    unfolding call_named_def
  proof (intro ensures_if)
    show "ensures st (call_stopping st) (\<lambda>_ _. True)" "ensures st (call_stop_code st) (\<lambda>_ _. True)"
      by (auto simp: call_stopping_def call_stop_code_def intro!: ensures_answer_at)
    show "ensures st (lift_outcome (builtin (v_float env) (v_lower env) (v_upper env) name arguments) st) (\<lambda>_ _. True)"
      by (intro ensures_lift_outcome safe_rules TrueI)
    have program: "ensures st (lift_outcome (temporal_call (catalogue (v_float env)) name arguments) st) (\<lambda>_ _. True)"
      "ensures st (call_function env ops name arguments st) (\<lambda>_ _. True)"
      by (intro ensures_lift_outcome safe_rules TrueI ensures_call_function [OF assms(2)])+
    show "ensures st (case strip_prefix ''HOST.'' name of
        Some tail \<Rightarrow> call_host env ops name tail arguments sp st
      | None \<Rightarrow>
          if is_host_file_method name then host_provider_call env ops ''FileSystem'' (''File.'' @ last_part name) arguments sp st
          else case (library_callee env name, find_function (v_module env) name) of
            (Some (library, member), None) \<Rightarrow> library_call env ops library member arguments sp st
          | _ \<Rightarrow>
              if is_temporal_builtin name then lift_outcome (temporal_call (catalogue (v_float env)) name arguments) st
              else call_function env ops name arguments st) (\<lambda>_ _. True)"
      using host program ensures_host_provider_call [OF assms] ensures_library_call [OF assms]
      by (simp split: option.split prod.split)
  qed
qed

text \<open>The knot keeps the promise whatever the fuel.\<close>

lemma core_good:
  assumes "providers_fine env" "accepted env"
  shows "ops_good env (core env n)"
proof (induction n)
  case (Suc n)
  show ?case
    using ensures_call_named [OF assms(1) Suc] ensures_library_call [OF assms(1) Suc]
      ensures_run_function [OF assms(1) Suc assms(2)]
    by (simp add: ops_good_def)
qed (simp add: ops_good_def)

lemma ensures_execute:
  assumes "providers_fine env" "accepted env"
  shows "ensures st (execute_inner env n st) (\<lambda>_ _. True)"
    "ensures st (execute_named_inner env n name arguments st) (\<lambda>_ _. True)"
proof -
  note run = ensures_run_function [OF assms(1) core_good [OF assms] assms(2)]
  have exit: "safe (exit_of r)" for r
    by (auto simp: exit_of_def broken_simps intro!: safe_rules split: flow.split option.split bn_value.split)
  have arc: "safe (verify_arc e s vs)" for e :: "('a, 'b) parts env" and s vs
    by (auto simp: verify_arc_def Let_def broken_simps split: list.split)
  have start: "f \<in> set (m_functions (v_module env))" if "entry_function (v_module env) = Some f" for f
    using that by (auto simp: entry_function_def find_Some_iff)
  show "ensures st (execute_inner env n st) (\<lambda>_ _. True)"
    by (auto simp: execute_inner_def FILESYSTEM_REFUSED_def broken_simps intro!: ensures_true_then [OF run] start exit arc
        ensures_answer_then ensures_lift_sum ensures_answer ensures_true_then [OF ensures_lift_sum] split: option.split)
  have named: "f \<in> set (m_functions (v_module env))" if "find_function (v_module env) name = Some f" for f
    using that by (auto simp: find_function_def find_Some_iff)
  show "ensures st (execute_named_inner env n name arguments st) (\<lambda>_ _. True)"
    by (auto simp: execute_named_inner_def broken_simps intro!: ensures_true_then [OF run] named ensures_answer split: option.split)
qed

end
