(* ===== verification/BN_Machine_Fuel.thy ===== *)
theory BN_Machine_Fuel
  imports BN_Machine_Sound
begin

text \<open>
  Fuel. A part of the interpreter run with operations that answer more often answers
  more often, and gives the answers it gave. So the answer of an execution does not
  depend on the fuel that was enough for it.
\<close>

section \<open>More answers\<close>

definition answers_more :: "'a outcome \<Rightarrow> 'a outcome \<Rightarrow> bool" where
  "answers_more r r' \<longleftrightarrow> r = Panic \<or> r' = r"

definition ops_extend :: "('p, 'w) core_ops \<Rightarrow> ('p, 'w) core_ops \<Rightarrow> bool" where
  "ops_extend a b \<longleftrightarrow>
     (\<forall>name arguments sp st. answers_more (o_call a name arguments sp st) (o_call b name arguments sp st)) \<and>
     (\<forall>library member arguments sp st.
        answers_more (o_library_call a library member arguments sp st) (o_library_call b library member arguments sp st)) \<and>
     (\<forall>f arguments st. answers_more (o_function a f arguments st) (o_function b f arguments st))"

lemma more_refl [simp, intro]: "answers_more r r"
  by (simp add: answers_more_def)

lemma more_Panic [simp]: "answers_more Panic r"
  by (simp add: answers_more_def)

lemma more_bind: "answers_more r r' \<Longrightarrow> (\<And>x. answers_more (f x) (f' x)) \<Longrightarrow> answers_more (bind_outcome r f) (bind_outcome r' f')"
  by (cases r) (auto simp: answers_more_def)

lemma more_then: "answers_more r r' \<Longrightarrow> (\<And>x st. answers_more (f x st) (f' x st)) \<Longrightarrow> answers_more (and_then r f) (and_then r' f')"
  by (cases "(r, f)" rule: and_then.cases) (auto simp: answers_more_def)

lemma more_with_value: "(\<And>v st. answers_more (f v st) (f' v st)) \<Longrightarrow> answers_more (with_value fr i f st) (with_value fr i f' st)"
  unfolding with_value_def by (rule more_then) auto

lemma ops_extendD:
  assumes "ops_extend a b"
  shows "answers_more (o_call a name arguments sp st) (o_call b name arguments sp st)"
    "answers_more (o_library_call a library member arguments sp st) (o_library_call b library member arguments sp st)"
    "answers_more (o_function a f arguments st) (o_function b f arguments st)"
  using assms by (auto simp: ops_extend_def)

section \<open>Ownership and providers\<close>

lemma own_env_simps [simp]:
  "e_reserve (own_env env a sp) = v_reserve env" "e_host_retain (own_env env a sp) = (\<lambda>v. host_retain env v sp)"
  "e_library_retain (own_env env a sp) = (\<lambda>v. library_retain env v sp)"
  "e_object_destroyed (own_env env a sp) = notify_object_destroyed env"
  "e_layouts (own_env env a sp) = (\<lambda>cls. map_option (\<lambda>layout. map fe_weak (fl_fields layout)) (find_layout (v_module env) cls))"
  by (simp_all add: own_env_def)

lemma more_retain:
  "answers_more (retain_owned_value (own_env env a sp') sp v st) (retain_owned_value (own_env env b sp') sp v st)"
  "answers_more (retain_owned_values (own_env env a sp') sp vs st) (retain_owned_values (own_env env b sp') sp vs st)"
proof (induction "own_env env a sp'" sp v st and "own_env env a sp'" sp vs st
    rule: retain_owned_value_retain_owned_values.induct)
qed (auto simp: try_step_then retain_provider_def intro!: more_then)

lemma allocate_same: "allocate_object (own_env env a sp) = allocate_object (own_env env b sp)"
  by (intro ext) (simp add: allocate_object_def)

lemma more_call_of_kind:
  "ops_extend a b \<Longrightarrow> answers_more (call_of_kind (own_env env a sp) kind h cls st) (call_of_kind (own_env env b sp) kind h cls st)"
  by (auto simp: call_of_kind_def own_env_def intro!: more_then ops_extendD split: option.split)

lemma more_destroy:
  assumes "ops_extend a b"
  shows "answers_more (destroy_object (own_env env a sp) h cls st) (destroy_object (own_env env b sp) h cls st)"
  by (auto simp: destroy_object_def Let_def intro!: more_bind more_call_of_kind [OF assms] split: sum.split)

lemma more_release_object:
  assumes "ops_extend a b"
  shows "answers_more (release_object (own_env env a sp') sp h cls st) (release_object (own_env env b sp') sp h cls st)"
  by (auto simp: release_object_def Let_def intro!: more_bind more_destroy [OF assms] split: sum.split)

lemma more_release:
  assumes "ops_extend a b"
  shows "answers_more (release_owned_value (own_env env a sp') sp v st) (release_owned_value (own_env env b sp') sp v st)"
    "answers_more (release_elements (own_env env a sp') sp vs st) (release_elements (own_env env b sp') sp vs st)"
    "answers_more (release_fields (own_env env a sp') sp vs st) (release_fields (own_env env b sp') sp vs st)"
proof (induction "own_env env a sp'" sp v st and "own_env env a sp'" sp vs st and "own_env env a sp'" sp vs st
    rule: release_owned_value_release_elements_release_fields.induct)
qed (auto simp: try_step_then intro!: more_then more_release_object [OF assms])

lemma more_request:
  assumes "ops_extend a b"
  shows "answers_more (answer_request env a q st) (answer_request env b q st)"
  by (cases q) (auto simp: answer_request_def allocate_same [of env a _ b] intro!: more_bind ops_extendD [OF assms])

lemma more_serve:
  assumes "ops_extend a b"
  shows "answers_more (serve env a d st) (serve env b d st)"
  by (induction d arbitrary: st) (auto intro!: more_bind more_request [OF assms])

lemma more_provider_calls:
  assumes "ops_extend a b"
  shows "answers_more (library_call env a library member arguments sp st) (library_call env b library member arguments sp st)"
    "answers_more (host_provider_call env a capability member arguments sp st) (host_provider_call env b capability member arguments sp st)"
  by (auto simp: library_call_def host_provider_call_def intro!: more_bind more_serve [OF assms] split: option.split)

section \<open>Instructions, blocks and calls\<close>

lemma more_defaults:
  assumes "ops_extend a b"
  shows "answers_more (default_named env a name sp st) (default_named env b name sp st)"
    "answers_more (default_value env a ty dims sp st) (default_value env b ty dims sp st)"
proof -
  show named: "answers_more (default_named env a name sp st) (default_named env b name sp st)" for name st
    by (auto simp: default_named_def intro!: ops_extendD [OF assms] split: option.split)
  show "answers_more (default_value env a ty dims sp st) (default_value env b ty dims sp st)"
  proof (induction ty arbitrary: dims st)
    case (TVector element declared)
    then show ?case by (auto intro!: more_then named split: option.split)
  next
    case (TAlternative types)
    then show ?case by (auto split: list.split)
  qed auto
qed

lemma more_class:
  assumes "ops_extend a b"
  shows "answers_more (ensure_class env a cls st) (ensure_class env b cls st)"
  by (auto simp: ensure_class_def Let_def intro!: more_then ops_extendD [OF assms] split: option.split class_init.split)

lemma more_exec_call:
  assumes "ops_extend a b"
  shows "answers_more (exec_call env a sp d callee arguments ty fr st) (exec_call env b sp d callee arguments ty fr st)"
  by (auto simp: exec_call_def intro!: more_with_value more_then ops_extendD [OF assms] split: bn_value.split option.split)

lemma more_exec_release:
  assumes "ops_extend a b"
  shows "answers_more (exec_release env a sp v fr st) (exec_release env b sp v fr st)"
  by (auto simp: exec_release_def release_value_def Let_def intro!: more_with_value more_then more_release [OF assms]
        more_release_object [OF assms]
      split: bn_value.split option.split prod.split)

lemma more_instruction:
  assumes "ops_extend a b"
  shows "answers_more (exec_instruction env a sp i fr st) (exec_instruction env b sp i fr st)"
proof (cases i)
  case (IRetain d v x)
  then show ?thesis
    by (auto simp: exec_instruction_def exec_retain_def intro!: more_with_value more_then more_retain)
next
  case (IAllocate d name arguments ty)
  then show ?thesis
    by (auto simp: exec_instruction_def exec_allocate_def allocate_same [of env a _ b] intro!: more_then
        split: bn_type.split option.split prod.split)
qed (auto simp: exec_instruction_def exec_default_def
    intro!: more_then more_exec_call more_exec_release more_defaults more_class assms)

lemma more_instructions:
  assumes "ops_extend a b"
  shows "answers_more (run_instructions env a f bl previous k is fr st) (run_instructions env b f bl previous k is fr st)"
proof (induction "is" arbitrary: k fr st)
  case (Cons i rest)
  have "answers_more (exec_one env a previous sp i fr st) (exec_one env b previous sp i fr st)" for sp
    by (auto simp: exec_one_def intro!: more_instruction assms split: instruction.split)
  then show ?case by (auto intro!: more_then Cons.IH split: option.split)
qed simp

lemma more_blocks:
  assumes "ops_extend a b" "n \<le> m"
  shows "answers_more (run_blocks env a f n bl previous fr st) (run_blocks env b f m bl previous fr st)"
  using assms(2)
proof (induction n arbitrary: m bl previous fr st)
  case (Suc n)
  then obtain m' where m: "m = Suc m'" "n \<le> m'" by (cases m) auto
  show ?case
    unfolding m(1) run_blocks.simps
    by (auto intro!: more_then more_with_value more_instructions [OF assms(1)] Suc.IH [OF m(2)]
        split: sum.split terminator.split)
qed simp

lemma more_run_function:
  assumes "ops_extend a b" "n \<le> m"
  shows "answers_more (run_function env a n f arguments st) (run_function env b m f arguments st)"
  by (auto simp: run_function_def intro!: more_blocks assms)

lemma more_call_function:
  assumes "ops_extend a b"
  shows "answers_more (call_function env a name arguments st) (call_function env b name arguments st)"
  by (auto simp: call_function_def Let_def intro!: more_bind ops_extendD [OF assms] split: option.split)

lemma more_call_named:
  assumes "ops_extend a b"
  shows "answers_more (call_named env a name arguments sp st) (call_named env b name arguments sp st)"
proof -
  have "answers_more (call_host env a name tail arguments sp st) (call_host env b name tail arguments sp st)" for tail
    by (auto simp: call_host_def intro!: more_provider_calls [OF assms] split: option.split)
  then show ?thesis
    using more_provider_calls [OF assms] more_call_function [OF assms]
    by (simp add: call_named_def split: option.split prod.split)
qed

lemma core_extends: "n \<le> m \<Longrightarrow> ops_extend (core env n) (core env m)"
proof (induction n arbitrary: m)
  case (Suc n)
  then obtain m' where m: "m = Suc m'" "n \<le> m'" by (cases m) auto
  note IH = Suc.IH [OF m(2)]
  show ?case
    unfolding m(1) ops_extend_def core.simps core_ops.simps
    by (intro conjI allI more_call_named [OF IH] more_provider_calls(1) [OF IH] more_run_function [OF IH m(2)])
qed (simp add: ops_extend_def)

end
