(* ===== verification/BN_Machine_Facts.thy ===== *)
theory BN_Machine_Facts
  imports BN_Machine_Fuel
begin

text \<open>
  Properties of the interpreter: what an accepted program cannot do, what a call leaves
  as it was, fuel, the shape of default vectors, regions, and three behaviours of the
  code that only a run shows. The programs they are applied to come first.
\<close>

section \<open>A host\<close>

text \<open>A host without providers whose world is the text written so far.\<close>

definition printing_env :: "ir_module \<Rightarrow> (unit, str) machine_env" where
  "printing_env m =
     \<lparr>v_module = m, v_float = no_floats, v_parse_f64 = (\<lambda>_. None), v_lower = (\<lambda>s. s), v_upper = (\<lambda>s. s),
      v_reserve = (\<lambda>_. True), v_arguments = [], v_processors = Inr 1, v_filesystem_refused = False,
      v_debug_assertions = False, v_stack_full = (\<lambda>_. False), v_span = (\<lambda>_ _ _. \<lparr>start_line = 1, start_column = 1\<rparr>),
      v_write = (\<lambda>s w. (w @ s, None)), v_flush = (\<lambda>w. (w, None)), v_read_line = (\<lambda>w. (w, Inr [])),
      v_provider_call = (\<lambda>p _ _ _. Answer p (Inr VNull)), v_provider_allocate = (\<lambda>p _ _. (p, None)),
      v_provider_release = (\<lambda>p _ _. (p, None)), v_provider_retain = (\<lambda>p _ _. (p, None)),
      v_provider_destroyed = (\<lambda>p _. p)\<rparr>"

definition printing_machine :: "(unit, str) machine" where
  "printing_machine = machine_new False [] [] []"

lemma printing_env_simps [simp]:
  "v_module (printing_env m) = m" "v_float (printing_env m) = no_floats" "\<not> v_debug_assertions (printing_env m)"
  "\<not> v_filesystem_refused (printing_env m)" "v_reserve (printing_env m) n" "\<not> v_stack_full (printing_env m) st"
  "v_write (printing_env m) s w = (w @ s, None)"
  by (simp_all add: printing_env_def)

lemma printing_providers_fine: "providers_fine (printing_env m)"
  by (simp add: providers_fine_def printing_env_def)

section \<open>Evaluation\<close>

text \<open>A run is evaluated head first: what follows a step is left alone until its state is known.\<close>

lemma run_congs:
  "r = r' \<Longrightarrow> and_then r f = and_then r' f" "q = q' \<Longrightarrow> bind_outcome q g = bind_outcome q' g"
  "t = t' \<Longrightarrow> try_sum t h = try_sum t' h"
  by simp_all

lemmas run_blocks_numeral = run_blocks.simps(2) [where n = "pred_numeral k" for k, folded numeral_eq_Suc]

lemma core_numeral:
  "o_call (core env (numeral k)) = call_named env (core env (pred_numeral k))"
  "o_function (core env (numeral k)) = run_function env (core env (pred_numeral k)) (pred_numeral k)"
  by (simp_all add: numeral_eq_Suc)

declare core.simps [simp del]

lemmas run_simps = run_blocks_numeral core_numeral answer_def lift_sum_def lift_outcome_def with_value_def value_at_def on_rest_def Let_def
  exec_one_def exec_instruction_def exec_phi_def exec_constant_def constant_value_def exec_binary_def exec_print_def
  exec_call_def exec_release_def release_value_def run_function_def new_frame_def enter_function_def find_block_def
  stops_here_def is_stop_check_def run_return_def run_stop_def pop_frame_def ownership_frame_new_def
  write_text_def world_step_def library_release_def library_offer_def printing_machine_def machine_new_def


section \<open>Indexing\<close>

lemma and_then_Done:
  assumes "and_then r f = Done (st', Inr w)"
  obtains x st1 where "r = Done (st1, Inr x)" "f x st1 = Done (st', Inr w)"
  using assms by (cases "(r, f)" rule: and_then.cases) auto

lemma checked_index_eq:
  "usize_ok (int n) \<Longrightarrow> checked_index k n context = (if 0 \<le> k \<and> k < int n then Inr (nat k) else Inl (INDEX_OUT_OF_BOUNDS k n context))"
  by (auto simp: checked_index_def usize_ok_def u64_ok_def)

definition indices_fit :: "int list \<Rightarrow> nat list \<Rightarrow> bool" where
  "indices_fit ks lengths \<longleftrightarrow> list_all2 (\<lambda>k n. 0 \<le> k \<and> k < int n) ks lengths"

lemma nested_vector_Cons: "nested_vector (n # ns) v = VVector (replicate n (nested_vector ns v))"
  by (simp add: nested_vector_def)

lemma nested_vector_index:
  assumes "length ks = length lengths" "\<forall>n \<in> set lengths. usize_ok (int n)"
  shows "if indices_fit ks lengths then indexed_value (nested_vector lengths v) ks = Inr v
    else \<exists>k n. indexed_value (nested_vector lengths v) ks = Inl (INDEX_OUT_OF_BOUNDS k n ''vector'')"
  using assms
proof (induction ks lengths rule: list_induct2)
  case Nil
  then show ?case by (simp add: indices_fit_def nested_vector_def)
next
  case (Cons k ks n ns)
  then show ?case
    by (cases "0 \<le> k \<and> k < int n") (auto simp: indices_fit_def nested_vector_Cons checked_index_eq nat_less_iff)
qed

lemma vector_lengths_Inr:
  "vector_lengths element declared dims = Inr lengths \<Longrightarrow> lengths \<noteq> []"
  by (auto simp: vector_lengths_def Let_def split: if_splits option.splits)

lemma default_vector_cases:
  assumes "default_value env ops (TVector element declared) dims sp st = Done (st', Inr w)"
  obtains lengths v where "vector_lengths element declared dims = Inr lengths" "w = nested_vector lengths v"
proof (cases "vector_lengths element declared dims")
  case (Inr lengths)
  then have "and_then (case default_function_owner element of
      Some name \<Rightarrow> default_named env ops name sp st | None \<Rightarrow> default_value env ops element [] sp st)
      (\<lambda>v. answer (nested_vector lengths v)) = Done (st', Inr w)"
    using assms by simp
  then obtain v where "w = nested_vector lengths v" by (rule and_then_Done) (auto simp: answer_def)
  with Inr show thesis by (rule that)
qed (use assms in \<open>simp add: lift_sum_def\<close>)

section \<open>Regions\<close>

lemma bind_Done: "bind_outcome r f = Done y \<longleftrightarrow> (\<exists>x. r = Done x \<and> f x = Done y)"
  by (cases r) simp_all

lemma heap_simps:
  "heap_lookup h k = Some p \<Longrightarrow> heap_len h k = Inr (length p)"
  "heap_lookup h k = Some p \<Longrightarrow> i < length p \<Longrightarrow> heap_get h k i = Inr (p ! i)"
  by (simp_all add: heap_len_def heap_get_def heap_payload_def)

lemma region_index:
  assumes "heap_lookup (i_memory st) h = Some p" "usize_ok (int (length p))"
  shows "index_value env st (VPointer h c) k =
    (if 0 \<le> k \<and> k < int (length p) then Inr (p ! nat k) else Inl (INDEX_OUT_OF_BOUNDS k (length p) ''region''))"
  using assms by (auto simp: index_value_def heap_simps checked_index_eq)

lemma allocate_region_cases:
  assumes "allocate_region env element arguments fr sp st = Done (st', Inr (VPointer h c))"
  obtains count size initial where "pointer_element_size element = Some size" "pointer_element_default element = Inr initial"
    "0 \<le> count" "u64_ok (count * size)" "count * size \<le> isize_max"
    "heap_lookup (i_memory st') = (heap_lookup (i_memory st))(h \<mapsto> replicate (nat count) initial)"
proof -
  obtain x n initial where
      asked: "(case arguments of [] \<Rightarrow> Inr 1 | a # _ \<Rightarrow>
          try_sum (value_at fr a) (\<lambda>v. try_sum (integer_of v) (\<lambda>(count, _).
            if count < 0 then Inl (ALLOCATION_SIZE_INVALID ''numeric NEW length cannot be negative'')
            else if \<not> usize_ok count then Inl (ALLOCATION_SIZE_OVERFLOW ''allocation length does not fit the host'')
            else Inr count))) = Inr x"
    and sized: "(case pointer_element_size element of None \<Rightarrow> Inl pointer_mismatch
        | Some element_size \<Rightarrow>
            (case try_fit u64_ok (x * element_size) of
               None \<Rightarrow> Inl (ALLOCATION_SIZE_OVERFLOW ''allocation byte size overflowed'')
             | Some bytes \<Rightarrow>
                 if bytes > isize_max then Inl (ALLOCATION_TOO_LARGE ''allocation exceeds the host limit'')
                 else try_sum (pointer_element_default element) (\<lambda>initial. Inr (nat x, initial)))) = Inr (n, initial)"
    and made: "bind_outcome (register_allocation (display_element element) sp st) (\<lambda>(st1, h).
        bind_outcome (heap_insert (v_reserve env) (i_memory st1) h n initial) (\<lambda>r. case r of
            Inl e \<Rightarrow> Done (st1, Inl e)
          | Inr memory \<Rightarrow>
              answer (VPointer h (case member_code element of Some c \<Rightarrow> c | None \<Rightarrow> 0)) (st1\<lparr>i_memory := memory\<rparr>))) =
        Done (st', Inr (VPointer h c))"
    using assms by (auto simp: allocate_region_def lift_sum_def try_sum_Inr elim!: and_then_Done)
  have "0 \<le> x" using asked by (auto simp: try_sum_Inr split: list.splits if_splits prod.splits)
  moreover obtain size where "pointer_element_size element = Some size" "u64_ok (x * size)" "x * size \<le> isize_max"
      "pointer_element_default element = Inr initial" "n = nat x"
    using sized by (auto simp: try_sum_Inr try_fit_def split: option.splits if_splits)
  moreover obtain st1 where "register_allocation (display_element element) sp st = Done (st1, h)"
      "heap_insert (v_reserve env) (i_memory st1) h n initial = Done (Inr (i_memory st'))"
  proof -
    obtain st1 h' r where r: "register_allocation (display_element element) sp st = Done (st1, h')"
        "heap_insert (v_reserve env) (i_memory st1) h' n initial = Done r"
        "(case r of Inl e \<Rightarrow> Done (st1, Inl e)
          | Inr memory \<Rightarrow>
              answer (VPointer h' (case member_code element of Some c \<Rightarrow> c | None \<Rightarrow> 0)) (st1\<lparr>i_memory := memory\<rparr>)) =
         Done (st', Inr (VPointer h c))"
      using made by (auto simp: bind_Done)
    then have "h' = h" "r = Inr (i_memory st')" by (cases r; auto simp: answer_def)+
    with r that show thesis by simp
  qed
  moreover from this(1) have "i_memory st1 = i_memory st"
    by (auto simp: register_allocation_def bind_Done)
  ultimately have "\<exists>count size initial. pointer_element_size element = Some size \<and> pointer_element_default element = Inr initial \<and>
      0 \<le> count \<and> u64_ok (count * size) \<and> count * size \<le> isize_max \<and>
      heap_lookup (i_memory st') = (heap_lookup (i_memory st))(h \<mapsto> replicate (nat count) initial)"
    using heap_insert_lookup(1) by metis
  then show thesis using that by blast
qed

section \<open>A run\<close>

lemma string_program [simp]:
  "entry_function string_module = Some string_function" "fn_parameters string_function = []" "fn_entry string_function = 0"
  "fn_weak_symbols string_function = {}"
  "fn_blocks string_function =
     [\<lparr>bb_id = 0, bb_instructions = [IConstant 0 (CString ''a'') TString, IBinary 1 ''Plus'' 0 0 TString, IConstant 2 (CBoolean True) TBoolean],
        bb_terminator = TermBranch 2 1 2\<rparr>,
      \<lparr>bb_id = 1, bb_instructions = [IConstant 3 (CInteger ''7'') (TInteger Int32)], bb_terminator = TermJump 3\<rparr>,
      \<lparr>bb_id = 2, bb_instructions = [IConstant 4 (CInteger ''9'') (TInteger Int32)], bb_terminator = TermJump 3\<rparr>,
      \<lparr>bb_id = 3, bb_instructions = [IPhi 5 [(1, 3), (2, 4)] (TInteger Int32), IPrint [5, 1], IRelease 1 None],
        bb_terminator = TermJump 4\<rparr>,
      \<lparr>bb_id = 4, bb_instructions = [], bb_terminator = TermReturn None\<rparr>]"
  by (simp_all add: string_function_def string_module_def entry_function_def)

lemma string_values [simp]:
  "parse_integer ''7'' = Some 7" "integer_kind (TInteger Int32) = Some Int32" "integer_text 7 = ''7''"
  "binary no_floats ''Plus'' (VString ''a'') (VString ''a'') TString classes None = Inr (VString ''aa'')"
  by (code_simp, simp add: integer_kind_def, code_simp, code_simp)

lemma string_run:
  "\<exists>st'. execute_with_host (printing_env string_module) 5 printing_machine = Done (Inr (st', Inr 0)) \<and>
     x_world (i_libs st') = ''7 aa'' @ [char_of (10 :: nat)]"
  by (simp add: execute_with_host_def string_module_accepted execute_inner_def run_simps exit_of_def boolean_of_def
      cong: run_congs)

lemma string_module_env: "accepted (printing_env string_module)"
proof -
  have "list_all well_shaped (m_functions string_module)" by code_simp
  then show ?thesis by (simp add: accepted_def string_module_accepted)
qed

text \<open>\<open>Start\<close> calls a function that initialises a class, whose initialiser stops the
  program with 3; and a function whose entry block holds a phi.\<close>

definition plain_function :: "str \<Rightarrow> ir_function_kind \<Rightarrow> str option \<Rightarrow> instruction list \<Rightarrow> terminator \<Rightarrow> ir_function" where
  "plain_function name kind owner instrs t =
     \<lparr>fn_name = name, fn_kind = kind, fn_owner = owner, fn_asynchronous = False, fn_parameters = [],
      fn_weak_symbols = {}, fn_return_type = TNamed ''VOID'', fn_entry = 0,
      fn_blocks = [\<lparr>bb_id = 0, bb_instructions = instrs, bb_terminator = t\<rparr>]\<rparr>"

definition stopping_start :: ir_function where
  "stopping_start = plain_function ''Start'' KEntry None
     [IConstant 0 (CFunction ''Middle'') (TFunction [] (TNamed ''VOID'')), ICall 1 0 [] (TNamed ''VOID''),
      IConstant 2 (CFunction ''$stopping'') (TFunction [] TBoolean), ICall 3 2 [] TBoolean] (TermReturn None)"

definition stopping_middle :: ir_function where
  "stopping_middle = plain_function ''Middle'' KUser None [IEnsureClass ''Dog''] (TermReturn None)"

definition stopping_init :: ir_function where
  "stopping_init = plain_function ''Dog.$init'' KInit (Some ''Dog'') [IConstant 0 (CInteger ''3'') (TInteger Int32)] (TermStop 0)"

definition stopping_module :: ir_module where
  "stopping_module = animal_dog\<lparr>m_functions := [stopping_start, stopping_middle, stopping_init] @ m_functions animal_dog\<rparr>"

definition entry_phi_module :: ir_module where
  "entry_phi_module = animal_dog\<lparr>m_functions := string_function\<lparr>fn_blocks :=
     [\<lparr>bb_id = 0, bb_instructions = [IPhi 0 [] (TInteger Int32)], bb_terminator = TermReturn None\<rparr>]\<rparr> # m_functions animal_dog\<rparr>"

section \<open>Properties\<close>

lemma started: "x_restored (i_libs printing_machine) = {}"
  by (simp add: printing_machine_def machine_new_def)

lemma verify_same: "verify_arc (own_env env a sp) = verify_arc (own_env env b sp)"
proof -
  have "count_live (own_env env a sp) = count_live (own_env env b sp)"
    "arc_mismatch (own_env env a sp) = arc_mismatch (own_env env b sp)"
    by (intro ext; auto simp: count_live_def arc_mismatch_def split: sum.split)+
  then show ?thesis by (intro ext) (simp only: verify_arc_def)
qed

lemma execute_cases:
  assumes "execute_with_host env fuel st = Done (Inr (st', r))"
  shows "validate (v_module env) = Some (Inr ())" "execute_inner env fuel st = Done (st', r)"
  using assms by (auto simp: execute_with_host_def bind_Done split: option.splits sum.splits)

text \<open>C2: accepted programs do not run into broken IR: a module that the validator accepts and
  that has the shape lowering gives, no instruction but a phi reading the value it
  defines and no phi in an entry block, never ends with the diagnostics of an undefined
  value, a phi without an arm or a block that does not exist, whatever the program
  does, whatever the providers answer and however it ends. What is assumed of providers
  is that they invent no such diagnostic themselves.\<close>

theorem accepted_run_sound:
  assumes "providers_fine env" "accepted env" "x_restored (i_libs st) = {}"
    "execute_with_host env fuel st = Done (Inr (st', r))"
  shows "\<not> (\<exists>e. r = Inl e \<and> broken_ir e)"
  using ensures_execute(1) [OF assms(1,2), of st fuel] execute_cases(2) [OF assms(4)] assms(3)
  by (auto simp: ensures_def)

theorem accepted_run_sound_witness:
  "\<exists>st'. execute_with_host (printing_env string_module) 5 printing_machine = Done (Inr (st', Inr 0)) \<and>
     \<not> (\<exists>e. (Inr 0 :: diagnostic + int) = Inl e \<and> broken_ir e)"
  using string_run accepted_run_sound [OF printing_providers_fine string_module_env started] by blast


lemma string_call:
  "\<exists>st'. call_named (printing_env string_module) (core (printing_env string_module) 6) ''Start'' []
     \<lparr>start_line = 1, start_column = 1\<rparr> (enter_function string_function printing_machine) = Done (st', Inr VNull)"
proof -
  have "strip_prefix ''HOST.'' ''Start'' = None" "strip_prefix ''@super:'' ''Start'' = None"
    "\<not> is_host_file_method ''Start''" "library_callee (printing_env string_module) ''Start'' = None"
    "\<not> is_temporal_builtin ''Start''" "find_function string_module ''Start'' = Some string_function"
    "dispatch_name string_module [] ''Start'' [] = ''Start''" "lifecycle_dispatch string_function [] = None"
    "fn_name string_function = ''Start''"
    by (code_simp, code_simp, code_simp, simp add: library_callee_def, code_simp, code_simp, code_simp,
        simp add: find_function_def string_module_def, code_simp, code_simp, code_simp)
  then show ?thesis
    by (simp add: call_named_def call_function_def run_simps enter_call_def leave_call_def boolean_of_def cong: run_congs)
qed





lemma vector_default:
  "default_value (printing_env string_module) ops (TVector (TInteger Int32) [2, 3]) [] sp printing_machine =
     Done (printing_machine, Inr (nested_vector [2, 3] (VInteger 0 Int32)))"
  "vector_lengths (TInteger Int32) [2, 3] [] = Inr [2, 3]"
proof -
  show "vector_lengths (TInteger Int32) [2, 3] [] = Inr [2, 3]" by code_simp
  then show "default_value (printing_env string_module) ops (TVector (TInteger Int32) [2, 3]) [] sp printing_machine =
     Done (printing_machine, Inr (nested_vector [2, 3] (VInteger 0 Int32)))"
    by (simp add: run_simps default_function_owner_def cong: run_congs)
qed


lemma integer_byte_size_positive: "1 \<le> integer_byte_size kind"
  by (cases kind) simp_all

text \<open>C22: a region is bounded: what \<open>NEW\<close> allocates for a numeric element type holds a count of
  elements that is not negative and whose bytes stay within the limit of an allocation;
  an index reads the zero of the type when it lies below the count, and gives an index
  error otherwise.\<close>

theorem region_bounds:
  assumes "allocate_region env element arguments fr sp st = Done (st', Inr (VPointer h c))"
  shows "\<exists>count size initial. pointer_element_size element = Some size \<and> pointer_element_default element = Inr initial \<and>
    0 \<le> count \<and> count * size \<le> isize_max \<and>
    (\<forall>k. index_value env st' (VPointer h c) k =
       (if 0 \<le> k \<and> k < count then Inr initial else Inl (INDEX_OUT_OF_BOUNDS k (nat count) ''region'')))"
proof -
  obtain count size initial where r: "pointer_element_size element = Some size" "pointer_element_default element = Inr initial"
    "0 \<le> count" "u64_ok (count * size)" "count * size \<le> isize_max"
    "heap_lookup (i_memory st') = (heap_lookup (i_memory st))(h \<mapsto> replicate (nat count) initial)"
    by (rule allocate_region_cases [OF assms])
  have "1 \<le> size"
    using r(1) by (auto simp: pointer_element_size_def split: bn_type.splits float_type.splits)
      (metis integer_byte_size_positive)
  then have "count \<le> count * size" using r(3) by (simp add: mult_le_cancel_left1)
  then have "usize_ok (int (nat count))" using r(3,5) by (simp add: usize_ok_def u64_ok_def isize_max_def)
  from region_index [of st' h "replicate (nat count) initial" env c] this r
  show ?thesis by (auto intro!: exI [of _ count])
qed

definition index_frame :: frame where
  "index_frame = \<lparr>f_symbols = Map.empty, f_values = [0 \<mapsto> VInteger 3 Int32]\<rparr>"

lemma region_allocated:
  "\<exists>st' h c. allocate_region (printing_env string_module) (TInteger Int32) [0] index_frame sp printing_machine =
     Done (st', Inr (VPointer h c)) \<and> heap_lookup (i_memory st') h = Some (replicate 3 (VInteger 0 Int32))"
proof -
  have start: "arc_inv (i_arc printing_machine)" "free (i_arc printing_machine) = []" "slots (i_arc printing_machine) = []"
    by (simp add: printing_machine_def machine_new_def arc_new_inv arc_new_def)
      (simp_all add: printing_machine_def machine_new_def set_trace_def arc_new_def with_first_generation_def)
  obtain core' oid where r: "arc_register (i_arc printing_machine) (display_element (TInteger Int32)) 0 (site_of sp) = Done (core', oid)"
    by (rule arc_register_new [OF start(1)]) (simp add: start, rule that)
  have "i_memory printing_machine = heap_default" by (simp add: printing_machine_def machine_new_def)
  then have "heap_insert (\<lambda>_. True) (i_memory printing_machine) (handle_of oid) 3 (VInteger 0 Int32) \<noteq> Panic"
    by (simp add: heap_insert_cases slot_free_def heap_default_empty)
  then obtain memory where m: "heap_insert (\<lambda>_. True) (i_memory printing_machine) (handle_of oid) 3 (VInteger 0 Int32) = Done (Inr memory)"
    by (auto simp: heap_insert_def allocation_payload_def Let_def split: if_splits)
  have "v_reserve (printing_env string_module) = (\<lambda>_. True)" by (simp add: printing_env_def)
  with m have "allocate_region (printing_env string_module) (TInteger Int32) [0] index_frame sp printing_machine =
      Done (printing_machine\<lparr>i_arc := core', i_memory := memory\<rparr>,
        Inr (VPointer (handle_of oid) (case member_code (TInteger Int32) of Some c \<Rightarrow> c | None \<Rightarrow> 0)))"
    using r by (simp add: allocate_region_def index_frame_def value_at_def integer_of_def pointer_element_size_def
        pointer_element_default_def isize_max_def usize_ok_def u64_ok_def try_fit_def register_allocation_def answer_def)
  then show ?thesis using heap_insert_lookup(1) [OF m] by auto
qed

theorem region_bounds_witness:
  "\<exists>st' h c. allocate_region (printing_env string_module) (TInteger Int32) [0] index_frame \<lparr>start_line = 1, start_column = 1\<rparr>
       printing_machine = Done (st', Inr (VPointer h c)) \<and>
     (\<exists>k n. index_value (printing_env string_module) st' (VPointer h c) (-1) = Inl (INDEX_OUT_OF_BOUNDS k n ''region''))"
proof -
  obtain st' h c where r: "allocate_region (printing_env string_module) (TInteger Int32) [0] index_frame
      \<lparr>start_line = 1, start_column = 1\<rparr> printing_machine = Done (st', Inr (VPointer h c))"
    using region_allocated by blast
  then show ?thesis using region_bounds [OF r] by auto
qed

text \<open>C23: a store into a region is read back: it changes the element at its index, which lies in
  the region, for every pointer to the region, and no element of any other.\<close>

theorem region_store:
  assumes "set_index (VPointer h c) [k] w st = Inr (t, st')"
  shows "t = VPointer h c \<and>
    (\<exists>n. heap_len (i_memory st) h = Inr n \<and> 0 \<le> k \<and> k < int n) \<and>
    (\<forall>h' c' j. index_value env st' (VPointer h' c') j =
       (if h' = h \<and> j = k then Inr w else index_value env st (VPointer h' c') j))"
proof -
  obtain memory n where m: "t = VPointer h c" "st' = st\<lparr>i_memory := memory\<rparr>" "heap_write (i_memory st) h (nat k) w = Inr memory"
      "heap_len (i_memory st) h = Inr n" "usize_ok k" "nat k < n"
    using assms by (auto simp: try_sum_Inr checked_index_def split: if_splits)
  obtain p where p: "heap_lookup (i_memory st) h = Some p" "nat k < length p"
      "heap_lookup memory = (heap_lookup (i_memory st))(h \<mapsto> p[nat k := w])"
    by (rule heap_write_lookup [OF m(3)])
  have "0 \<le> k" using m(5) by (simp add: usize_ok_def u64_ok_def)
  moreover have "index_value env st' (VPointer h' c') j =
      (if h' = h \<and> j = k then Inr w else index_value env st (VPointer h' c') j)" for h' c' j
    using p m(2,5) calculation
    by (auto simp: index_value_def heap_len_def heap_get_def heap_payload_def checked_index_def nth_list_update usize_ok_def
        u64_ok_def split: option.splits)
  ultimately show ?thesis using m by auto
qed

theorem region_store_witness:
  "\<exists>st st' h c. set_index (VPointer h c) [2] (VInteger 9 Int32) st = Inr (VPointer h c, st') \<and>
     index_value (printing_env string_module) st' (VPointer h c) 2 = Inr (VInteger 9 Int32)"
proof -
  obtain st h c where l: "heap_lookup (i_memory st) h = Some (replicate 3 (VInteger 0 Int32))"
      and st: "st = (st :: (unit, str) machine)" and c: "c = (0 :: int)"
    using region_allocated [of "\<lparr>start_line = 1, start_column = 1\<rparr>"] by blast
  then obtain st' where s: "set_index (VPointer h c) [2] (VInteger 9 Int32) st = Inr (VPointer h c, st')"
    by (auto simp: heap_simps checked_index_eq usize_ok_def u64_ok_def heap_write_def heap_payload_def)
  have "index_value (printing_env string_module) st' (VPointer h c) 2 = Inr (VInteger 9 Int32)"
    using region_store [OF s] by simp
  with s show ?thesis by blast
qed

text \<open>C24: a store through a link of an object to itself is lost: when the field of an object holds
  the object, as in a ring of one node, assigning to the field of that field by a path,
  \<open>node.next.next = x\<close>, reports success and leaves every object as it was; the write of
  the inner reference back into the outer field undoes the store.\<close>

theorem self_link_store_lost:
  assumes "heap_lookup (i_objects st) h = Some [inst]" "fr_slot link < length (inst_fields inst)"
    "inst_fields inst ! fr_slot link = VObject h cls"
  shows "\<exists>st'. set_field_path (VObject h cls) [a, b] [link, link] stored st = Inr (VObject h cls, st') \<and>
    heap_lookup (i_objects st') = heap_lookup (i_objects st) \<and>
    field_at st' (VObject h cls) [link, link] = Inr (VObject h cls)"
proof -
  note get = heap_get_def heap_payload_def and put = heap_write_def heap_payload_def
  let ?slot = "fr_slot link" and ?changed = "inst\<lparr>inst_fields := (inst_fields inst)[fr_slot link := stored]\<rparr>"
  obtain objects where o: "heap_write (i_objects st) h 0 ?changed = Inr objects"
    using assms(1) by (simp add: put)
  then have l: "heap_lookup objects = (heap_lookup (i_objects st))(h \<mapsto> [?changed])"
    using assms(1) by (auto elim: heap_write_lookup)
  have again: "?changed\<lparr>inst_fields := (inst_fields ?changed)[?slot := VObject h cls]\<rparr> = inst"
    using list_update_id [of "inst_fields inst" ?slot] unfolding assms(3) by simp
  obtain objects' where o': "heap_write objects h 0 inst = Inr objects'"
    using l by (simp add: put)
  then have "heap_lookup objects' = (heap_lookup objects)(h \<mapsto> [inst])"
    by (rule heap_write_lookup) (simp add: l)
  then have same: "heap_lookup objects' = heap_lookup (i_objects st)" using l assms(1) by auto
  have "set_field_path (VObject h cls) [a, b] [link, link] stored st = Inr (VObject h cls, st\<lparr>i_objects := objects'\<rparr>)"
    using assms o o' l again
    by (simp add: object_field_def write_object_field_def get)
  moreover have "field_at (st\<lparr>i_objects := objects'\<rparr>) (VObject h cls) [link, link] = Inr (VObject h cls)"
    using same assms by (simp add: object_field_def get)
  ultimately show ?thesis using same by auto
qed

definition ring_machine :: "(unit, str) machine" where
  "ring_machine = printing_machine\<lparr>i_objects :=
     \<lparr>allocations = [Some (0, [\<lparr>inst_fields = [VInteger 4 Int32, VObject \<lparr>h_slot = 0, h_generation = 0\<rparr> ''Dog'']\<rparr>])]\<rparr>\<rparr>"

theorem self_link_store_lost_witness:
  "\<exists>st'. set_field_path (VObject \<lparr>h_slot = 0, h_generation = 0\<rparr> ''Dog'') [''mate'', ''mate'']
      (replicate 2 \<lparr>fr_owner = ''Dog'', fr_id = 1, fr_slot = 1\<rparr>) VNull ring_machine =
      Inr (VObject \<lparr>h_slot = 0, h_generation = 0\<rparr> ''Dog'', st') \<and>
    field_at st' (VObject \<lparr>h_slot = 0, h_generation = 0\<rparr> ''Dog'') (replicate 2 \<lparr>fr_owner = ''Dog'', fr_id = 1, fr_slot = 1\<rparr>) \<noteq> Inr VNull"
proof -
  have "heap_lookup (i_objects ring_machine) \<lparr>h_slot = 0, h_generation = 0\<rparr> =
      Some [\<lparr>inst_fields = [VInteger 4 Int32, VObject \<lparr>h_slot = 0, h_generation = 0\<rparr> ''Dog'']\<rparr>]"
    by (simp add: ring_machine_def heap_lookup_def)
  from self_link_store_lost [OF this, of "\<lparr>fr_owner = ''Dog'', fr_id = 1, fr_slot = 1\<rparr>" "''Dog''" "''mate''" "''mate''" VNull]
  show ?thesis by (auto simp: numeral_2_eq_2)
qed



end
